(* ===== verification/Prelude.thy ===== *)
theory Prelude
  imports Main "HOL-Library.Word"
begin

text \<open>
  The shared vocabulary of the development: bytes and byte slices, the big-endian
  fields of the DNS and TLS formats, Go errors and panics as values, and the generic
  list lemmas the components use.  Nothing here is specific to one component.
\<close>

unbundle bit_operations_syntax

named_theorems slices \<open>unfolding slices, big-endian fields and list updates\<close>
named_theorems lens \<open>lengths of the byte strings the operations return\<close>

section \<open>Bytes, slices, errors\<close>

type_synonym byte = "8 word"
type_synonym bytes = "byte list"

text \<open>
  Go errors.  The sentinel errors the code compares with \<open>==\<close> are constructors of
  their own; \<open>IOErr\<close> is any other error of the operating system, \<open>NewErr\<close> is
  \<open>errors.New\<close>, \<open>FmtErr\<close> is \<open>fmt.Errorf\<close> with its format and its arguments as
  text, and \<open>WrapErr\<close> is \<open>fmt.Errorf\<close> with \<open>%w\<close> (a wrapped sentinel no longer
  compares equal to it).
\<close>

datatype go_error =
    EOF
  | UnexpectedEOF
  | ErrNotExist
  | ErrMalformed
  | IOErr string
  | NewErr string
  | FmtErr string "string list"
  | WrapErr string go_error

text \<open>
  What a Go call does: it returns a value, returns an error, or panics at run time
  (index or slice out of range, nil cipher).  No goroutine of the program recovers, so
  a panic ends the whole server process.
\<close>

datatype 'a outcome = Ok 'a | Err go_error | Panic

fun obind :: "'a outcome \<Rightarrow> ('a \<Rightarrow> 'b outcome) \<Rightarrow> 'b outcome" where
  "obind (Ok x) f = f x"
| "obind (Err e) f = Err e"
| "obind Panic f = Panic"

lemma obind_Ok: "obind m f = Ok y \<longleftrightarrow> (\<exists>x. m = Ok x \<and> f x = Ok y)"
  by (cases m) auto

lemma obind_Panic: "obind m f = Panic \<longleftrightarrow> m = Panic \<or> (\<exists>x. m = Ok x \<and> f x = Panic)"
  by (cases m) auto

text \<open>
  The bytes of a Go slice expression \<open>xs[a:b]\<close> whose bounds are in range.
\<close>

definition gslice :: "nat \<Rightarrow> nat \<Rightarrow> 'a list \<Rightarrow> 'a list" where
  "gslice a b xs = take (b - a) (drop a xs)"

lemma length_gslice [simp, lens]: "length (gslice a b xs) = min (b - a) (length xs - a)"
  by (simp add: gslice_def)

lemma gslice_all [simp]: "gslice 0 (length xs) xs = xs"
  by (simp add: gslice_def)

lemma gslice_append_left: "b \<le> length xs \<Longrightarrow> gslice a b (xs @ ys) = gslice a b xs"
  by (auto simp: gslice_def)

lemma gslice_append_right:
  "length xs \<le> a \<Longrightarrow> gslice a b (xs @ ys) = gslice (a - length xs) (b - length xs) ys"
  by (simp add: gslice_def)

lemma gslice_split: "a \<le> b \<Longrightarrow> take a xs @ gslice a b xs @ drop b xs = xs"
proof -
  assume ab: "a \<le> b"
  have "gslice a b xs @ drop b xs = drop a xs"
    using ab append_take_drop_id [of "b - a" "drop a xs"] by (simp add: gslice_def)
  then show ?thesis by simp
qed

text \<open>
  Go's index and slice expressions with their run-time checks: bounds are Go \<open>int\<close>s and
  an index or a bound out of range panics.  (An upper bound between length and capacity
  of a Go slice would not panic but expose bytes behind its end; here it counts as a
  panic too, so a proof that no panic occurs excludes it as well.)  \<open>go_from\<close> is
  \<open>xs[a:]\<close> and \<open>go_upto\<close> is \<open>xs[:b]\<close>.
\<close>

definition go_index :: "int \<Rightarrow> 'a list \<Rightarrow> 'a outcome" where
  "go_index i xs = (if 0 \<le> i \<and> i < int (length xs) then Ok (xs ! nat i) else Panic)"

definition go_slice :: "int \<Rightarrow> int \<Rightarrow> 'a list \<Rightarrow> 'a list outcome" where
  "go_slice a b xs =
     (if 0 \<le> a \<and> a \<le> b \<and> b \<le> int (length xs) then Ok (gslice (nat a) (nat b) xs) else Panic)"

definition go_from :: "int \<Rightarrow> 'a list \<Rightarrow> 'a list outcome" where
  "go_from a xs = go_slice a (int (length xs)) xs"

definition go_upto :: "int \<Rightarrow> 'a list \<Rightarrow> 'a list outcome" where
  "go_upto b xs = go_slice 0 b xs"

text \<open>The assignment \<open>xs[i] = x\<close>, with the check of the index.\<close>

definition go_update :: "int \<Rightarrow> 'a \<Rightarrow> 'a list \<Rightarrow> 'a list outcome" where
  "go_update i x xs = (if 0 \<le> i \<and> i < int (length xs) then Ok (xs[nat i := x]) else Panic)"

lemmas go_slices = go_update_def go_index_def go_slice_def go_from_def go_upto_def

lemma go_index_Ok: "i < length xs \<Longrightarrow> go_index (int i) xs = Ok (xs ! i)"
  by (simp add: go_index_def)

lemma go_update_Ok: "i < length xs \<Longrightarrow> go_update (int i) x xs = Ok (xs[i := x])"
  by (simp add: go_update_def)

lemma go_slice_Ok: "a \<le> b \<Longrightarrow> b \<le> length xs \<Longrightarrow> go_slice (int a) (int b) xs = Ok (gslice a b xs)"
  by (simp add: go_slice_def)

lemma go_from_Ok: "a \<le> length xs \<Longrightarrow> go_from (int a) xs = Ok (drop a xs)"
  by (simp add: go_from_def go_slice_def gslice_def)

lemma go_upto_Ok: "b \<le> length xs \<Longrightarrow> go_upto (int b) xs = Ok (take b xs)"
  by (simp add: go_upto_def go_slice_def gslice_def)

text \<open>Overwriting \<open>xs[a:a+len(ys)]\<close> in place, as \<open>copy\<close> and \<open>CryptBlocks\<close> do.\<close>

definition splice_at :: "nat \<Rightarrow> 'a list \<Rightarrow> 'a list \<Rightarrow> 'a list" where
  "splice_at a ys xs = take a xs @ ys @ drop (a + length ys) xs"

lemma length_splice [lens]:
  "a + length ys \<le> length xs \<Longrightarrow> length (splice_at a ys xs) = length xs"
  by (simp add: splice_at_def)

lemma take_splice: "n \<le> a \<Longrightarrow> a \<le> length xs \<Longrightarrow> take n (splice_at a ys xs) = take n xs"
  by (simp add: splice_at_def min_def)

lemma drop_splice:
  "a + length ys \<le> n \<Longrightarrow> a + length ys \<le> length xs \<Longrightarrow> drop n (splice_at a ys xs) = drop n xs"
  by (simp add: splice_at_def)

lemma gslice_splice:
  "a \<le> length xs \<Longrightarrow> b = a + length ys \<Longrightarrow> gslice a b (splice_at a ys xs) = ys"
  by (auto simp: splice_at_def gslice_def)

lemma splice_gslice: "a \<le> b \<Longrightarrow> b \<le> length xs \<Longrightarrow> splice_at a (gslice a b xs) xs = xs"
  using gslice_split [of a b xs] by (simp add: splice_at_def)

section \<open>Big-endian fields\<close>

text \<open>\<open>binary.BigEndian.Uint16(b[i:i+2])\<close>, as a Go \<open>int\<close>.\<close>

definition be16 :: "bytes \<Rightarrow> nat \<Rightarrow> nat" where
  "be16 b i = unat (b ! i) * 256 + unat (b ! Suc i)"

definition put16 :: "nat \<Rightarrow> bytes" where
  "put16 n = [of_nat (n div 256), of_nat n]"

definition put24 :: "nat \<Rightarrow> bytes" where
  "put24 n = [of_nat (n div 65536), of_nat (n div 256), of_nat n]"

definition put64 :: "64 word \<Rightarrow> bytes" where
  "put64 w = map (\<lambda>i. ucast (drop_bit (8 * i) w)) [7, 6, 5, 4, 3, 2, 1, 0]"

lemma length_put [simp, lens]:
  "length (put16 n) = 2" "length (put24 n) = 3" "length (put64 w) = 8"
  by (simp_all add: put16_def put24_def put64_def)

lemma unat_byte_less [simp]: "unat (b :: byte) < 256"
proof -
  have "unat b < 2 ^ LENGTH(8)" by (rule unsigned_less)
  then show ?thesis by simp
qed

text \<open>The same with the run-time check of the slice \<open>b[i:i+2]\<close>.\<close>

definition go_be16 :: "int \<Rightarrow> bytes \<Rightarrow> nat outcome" where
  "go_be16 i b = obind (go_slice i (i + 2) b) (\<lambda>s. Ok (be16 s 0))"

lemma go_be16_Ok: "i + 2 \<le> length b \<Longrightarrow> go_be16 (int i) b = Ok (be16 b i)"
  by (simp add: go_be16_def go_slice_def nat_add_distrib gslice_def be16_def add.commute)

text \<open>
  The short-circuit condition \<open>a || xs[i] != v\<close>, whose right-hand side is evaluated only
  when \<open>a\<close> is false, and \<open>copy(dst[a:], src)\<close>.
\<close>

definition or_differs :: "bool \<Rightarrow> int \<Rightarrow> 'a list \<Rightarrow> 'a \<Rightarrow> bool outcome" where
  "or_differs a i xs v = (if a then Ok True else obind (go_index i xs) (\<lambda>x. Ok (x \<noteq> v)))"

lemma or_differs_Ok: "(\<not> a \<Longrightarrow> i < length xs) \<Longrightarrow> or_differs a (int i) xs v = Ok (a \<or> xs ! i \<noteq> v)"
  by (cases a) (simp_all add: or_differs_def go_index_Ok)

lemma or_differs_first: "(\<not> a \<Longrightarrow> xs \<noteq> []) \<Longrightarrow> or_differs a 0 xs v = Ok (a \<or> xs ! 0 \<noteq> v)"
  using or_differs_Ok [of a 0 xs v] by simp

definition go_copy :: "int \<Rightarrow> 'a list \<Rightarrow> 'a list \<Rightarrow> 'a list outcome" where
  "go_copy a src dst =
     obind (go_from a dst) (\<lambda>d. Ok (splice_at (nat a) (take (length d) src) dst))"

lemma go_copy_Ok:
  "a + length src \<le> length dst \<Longrightarrow> go_copy (int a) src dst = Ok (splice_at a src dst)"
  by (simp add: go_copy_def go_from_Ok)

lemmas go_Ok = go_update_Ok go_index_Ok go_slice_Ok go_from_Ok go_upto_Ok go_be16_Ok or_differs_Ok go_copy_Ok

lemma be16_less: "be16 b i < 65536"
proof -
  have "unat (b ! i) \<le> 255" and "unat (b ! Suc i) \<le> 255"
    using unat_byte_less [of "b ! i"] unat_byte_less [of "b ! Suc i"] by linarith+
  then show ?thesis unfolding be16_def by linarith
qed

lemma unat_of_nat_byte: "unat (of_nat n :: byte) = n mod 256"
  by (simp add: unat_of_nat)

lemma be16_append_put16: "be16 (xs @ put16 n @ ys) (length xs) = n mod 65536"
proof -
  have "n div 256 mod 256 * 256 + n mod 256 = n mod 65536"
    using mod_mult2_eq [of n 256 256] by simp
  then show ?thesis
    by (simp add: be16_def put16_def nth_append unat_of_nat_byte)
qed

lemma be16_put16 [simp]: "be16 (put16 n) 0 = n mod 65536"
  using be16_append_put16 [of "[]" n "[]"] by simp

definition be24 :: "bytes \<Rightarrow> nat \<Rightarrow> nat" where
  "be24 b i = unat (b ! i) * 65536 + unat (b ! Suc i) * 256 + unat (b ! Suc (Suc i))"

lemma be24_append_put24: "be24 (xs @ put24 n @ ys) (length xs) = n mod 16777216"
proof -
  have "n div 65536 mod 256 * 65536 + n div 256 mod 256 * 256 + n mod 256 = n mod 16777216"
    using mod_mult2_eq [of n 256 "256 * 256"] mod_mult2_eq [of "n div 256" 256 256]
    by (simp add: div_mult2_eq [symmetric] algebra_simps)
  then show ?thesis
    by (simp add: be24_def put24_def nth_append unat_of_nat_byte)
qed

lemma put16_be16: "Suc i < length b \<Longrightarrow> put16 (be16 b i) = [b ! i, b ! Suc i]"
  by (simp add: put16_def be16_def word_unat_eq_iff unat_of_nat_byte del: of_nat_add of_nat_mult)

section \<open>Exclusive or of byte strings\<close>

definition xor_bytes :: "bytes \<Rightarrow> bytes \<Rightarrow> bytes" where
  "xor_bytes a b = map2 (XOR) a b"

lemma length_xor_bytes [simp, lens]: "length (xor_bytes a b) = min (length a) (length b)"
  by (simp add: xor_bytes_def)

lemma xor_bytes_cancel: "length a = length b \<Longrightarrow> xor_bytes (xor_bytes a b) b = a"
  by (induction a b rule: list_induct2)
     (simp_all add: xor_bytes_def xor.assoc)

lemma xor_bytes_take: "xor_bytes (take n a) (take n b) = take n (xor_bytes a b)"
  by (simp add: xor_bytes_def take_map take_zip)

end
