(* ===== verification/GoStrings.thy ===== *)
theory GoStrings
  imports Prelude "HOL-Library.Sublist"
begin

text \<open>
  The part of Go's packages strings, strconv and encoding/hex that the program calls.
  A Go string is a byte string; here it is a HOL \<open>string\<close>, one \<open>char\<close> per byte.
  Case mapping of a string with a byte outside ASCII follows Unicode tables: it is the
  parameter \<open>ul\<close> of \<open>to_lower\<close>.  White space is exact, with the UTF-8 encodings
  of the Unicode space characters spelled out.
\<close>

section \<open>Strings and bytes\<close>

definition bytes_of :: "string \<Rightarrow> bytes" where
  "bytes_of s = map of_char s"

definition string_of :: "bytes \<Rightarrow> string" where
  "string_of b = map (\<lambda>w. char_of (unat w)) b"

lemma of_char_char_of_unat: "of_char (char_of (unat (w :: byte))) = w"
proof -
  have "of_char (char_of (unat w)) = (of_nat (of_char (char_of (unat w))) :: byte)"
    by (simp only: of_nat_of_char)
  also have "\<dots> = of_nat (unat w mod 256)" by (simp only: of_char_of)
  also have "\<dots> = w" by simp
  finally show ?thesis .
qed

lemma bytes_of_string_of [simp]: "bytes_of (string_of b) = b"
  by (simp add: bytes_of_def string_of_def o_def of_char_char_of_unat)

lemma unat_of_char: "unat (of_char c :: byte) = of_char c"
proof -
  have "(of_char c :: byte) = of_nat (of_char c)"
    by (simp only: of_nat_of_char)
  moreover have "of_char c < (256 :: nat)" by simp
  ultimately show ?thesis by (simp add: unat_of_nat_byte)
qed

lemma string_of_bytes_of [simp]: "string_of (bytes_of s) = s"
  by (simp add: bytes_of_def string_of_def o_def unat_of_char)

lemma length_bytes_of [simp, lens]: "length (bytes_of s) = length s"
  by (simp add: bytes_of_def)

lemma length_string_of [simp, lens]: "length (string_of b) = length b"
  by (simp add: string_of_def)

lemma bytes_of_append [simp]: "bytes_of (s @ t) = bytes_of s @ bytes_of t"
  by (simp add: bytes_of_def)

lemma bytes_of_inj [simp]: "bytes_of s = bytes_of t \<longleftrightarrow> s = t"
  by (metis string_of_bytes_of)

text \<open>The line end of HTTP heads.\<close>

definition crlf :: string where
  "crlf = [CHR 0x0D, CHR 0x0A]"

section \<open>Prefixes and suffixes\<close>

definition has_prefix :: "'a list \<Rightarrow> 'a list \<Rightarrow> bool" where
  "has_prefix s p \<longleftrightarrow> take (length p) s = p"

definition has_suffix :: "'a list \<Rightarrow> 'a list \<Rightarrow> bool" where
  "has_suffix s p \<longleftrightarrow> length p \<le> length s \<and> drop (length s - length p) s = p"

definition trim_suffix :: "'a list \<Rightarrow> 'a list \<Rightarrow> 'a list" where
  "trim_suffix s p = (if has_suffix s p then take (length s - length p) s else s)"

lemma has_prefix_iff: "has_prefix s p \<longleftrightarrow> (\<exists>t. s = p @ t)"
  unfolding has_prefix_def by (metis append_eq_conv_conj append_take_drop_id)

lemma has_suffix_iff: "has_suffix s p \<longleftrightarrow> (\<exists>t. s = t @ p)"
proof
  assume "has_suffix s p"
  then have "s = take (length s - length p) s @ p"
    unfolding has_suffix_def by (metis append_take_drop_id)
  then show "\<exists>t. s = t @ p" ..
next
  assume "\<exists>t. s = t @ p"
  then show "has_suffix s p" by (auto simp: has_suffix_def)
qed

lemma has_suffix_suffix: "has_suffix s p \<longleftrightarrow> suffix p s"
  by (simp add: has_suffix_iff suffix_def)

lemma has_suffix_last: "has_suffix s [c] \<longleftrightarrow> s \<noteq> [] \<and> last s = c"
  by (metis append_butlast_last_id append_is_Nil_conv has_suffix_iff last_snoc not_Cons_self2)

lemma trim_suffix_append [simp]: "trim_suffix (s @ p) p = s"
  by (simp add: trim_suffix_def has_suffix_def)

lemma length_trim_suffix: "length (trim_suffix s p) \<le> length s"
  by (simp add: trim_suffix_def)

section \<open>Searching, cutting, splitting, joining\<close>

text \<open>\<open>strings.Index\<close>, \<open>bytes.Index\<close>: the first occurrence, \<open>None\<close> for -1.\<close>

fun index_of :: "'a list \<Rightarrow> 'a list \<Rightarrow> nat option" where
  "index_of [] pat = (if pat = [] then Some 0 else None)"
| "index_of (x # xs) pat =
     (if has_prefix (x # xs) pat then Some 0 else map_option Suc (index_of xs pat))"

lemma index_of_Some:
  "index_of s pat = Some i \<Longrightarrow> i + length pat \<le> length s \<and> gslice i (i + length pat) s = pat"
proof (induction s arbitrary: i)
  case Nil
  then show ?case by (auto simp: gslice_def split: if_splits)
next
  case (Cons x xs)
  show ?case
  proof (cases "has_prefix (x # xs) pat")
    case True
    then obtain t where t: "x # xs = pat @ t" by (auto simp: has_prefix_iff)
    from True Cons.prems have i: "i = 0" by simp
    from t have "length pat \<le> length (x # xs)" by (metis le_add1 length_append)
    with t i show ?thesis by (simp add: gslice_def)
  next
    case False
    with Cons show ?thesis by (auto simp: gslice_def)
  qed
qed

lemma index_of_None: "index_of s pat = None \<longleftrightarrow> (\<forall>t u. s \<noteq> t @ pat @ u)"
proof (induction s)
  case Nil
  then show ?case by auto
next
  case (Cons x xs)
  show ?case
  proof (cases "has_prefix (x # xs) pat")
    case True
    then obtain u where "x # xs = [] @ pat @ u" by (auto simp: has_prefix_iff)
    then have "\<not> (\<forall>t u. x # xs \<noteq> t @ pat @ u)" by blast
    with True show ?thesis by simp
  next
    case False
    have "(\<forall>t u. x # xs \<noteq> t @ pat @ u) \<longleftrightarrow> (\<forall>t u. xs \<noteq> t @ pat @ u)"
    proof
      assume "\<forall>t u. x # xs \<noteq> t @ pat @ u"
      then show "\<forall>t u. xs \<noteq> t @ pat @ u" by (metis append_Cons)
    next
      assume none: "\<forall>t u. xs \<noteq> t @ pat @ u"
      show "\<forall>t u. x # xs \<noteq> t @ pat @ u"
      proof (intro allI notI)
        fix t u
        assume "x # xs = t @ pat @ u"
        with False none show False
          by (cases t) (auto simp: has_prefix_iff)
      qed
    qed
    with False Cons.IH show ?thesis by simp
  qed
qed

lemma index_of_least:
  "index_of s pat = Some i \<Longrightarrow> j < i \<Longrightarrow> \<not> has_prefix (drop j s) pat"
proof (induction s arbitrary: i j)
  case Nil
  then show ?case by (simp split: if_splits)
next
  case (Cons x xs)
  then show ?case by (cases j) (auto split: if_splits)
qed

definition str_cut :: "'a list \<Rightarrow> 'a list \<Rightarrow> ('a list \<times> 'a list) option" where
  "str_cut s sep = (case index_of s sep of
      None \<Rightarrow> None
    | Some i \<Rightarrow> Some (take i s, drop (i + length sep) s))"

lemma str_cut_Some: "str_cut s sep = Some (a, b) \<Longrightarrow> s = a @ sep @ b"
proof -
  assume "str_cut s sep = Some (a, b)"
  then obtain i where i: "index_of s sep = Some i"
    and ab: "a = take i s" "b = drop (i + length sep) s"
    by (auto simp: str_cut_def split: option.splits)
  from index_of_Some [OF i] have "gslice i (i + length sep) s = sep" by simp
  with gslice_split [of i "i + length sep" s] ab show ?thesis by simp
qed

text \<open>\<open>strings.Split\<close> with a non-empty separator.\<close>

function split_on :: "'a list \<Rightarrow> 'a list \<Rightarrow> 'a list list" where
  "split_on s sep =
     (if sep = [] then map (\<lambda>c. [c]) s
      else case str_cut s sep of None \<Rightarrow> [s] | Some (a, b) \<Rightarrow> a # split_on b sep)"
  by pat_completeness auto
termination
  by (relation "measure (\<lambda>(s, sep). length s)") (auto dest: str_cut_Some)

declare split_on.simps [simp del]

lemma split_on_nonempty: "sep \<noteq> [] \<Longrightarrow> split_on s sep \<noteq> []"
  by (subst split_on.simps) (auto split: option.splits)

fun join :: "'a list list \<Rightarrow> 'a list \<Rightarrow> 'a list" where
  "join [] sep = []"
| "join [x] sep = x"
| "join (x # y # ys) sep = x @ sep @ join (y # ys) sep"

lemma join_Cons: "xs \<noteq> [] \<Longrightarrow> join (x # xs) sep = x @ sep @ join xs sep"
  by (cases xs) auto

lemma join_split_on: "sep \<noteq> [] \<Longrightarrow> join (split_on s sep) sep = s"
proof (induction s sep rule: split_on.induct)
  case (1 s sep)
  show ?case
  proof (cases "str_cut s sep")
    case None
    with "1.prems" show ?thesis by (subst split_on.simps) simp
  next
    case (Some p)
    obtain a b where p: "p = (a, b)" by fastforce
    with Some "1.IH" "1.prems" have "join (split_on b sep) sep = b" by simp
    with Some p "1.prems" have "join (split_on s sep) sep = a @ sep @ b"
      by (subst split_on.simps) (simp add: join_Cons split_on_nonempty)
    with str_cut_Some [of s sep a b] Some p show ?thesis by metis
  qed
qed

text \<open>\<open>rest[strings.LastIndexByte(rest, c)+1:]\<close>: all of \<open>rest\<close> when \<open>c\<close> does not occur.\<close>

definition after_last :: "'a \<Rightarrow> 'a list \<Rightarrow> 'a list" where
  "after_last c s = rev (takeWhile (\<lambda>x. x \<noteq> c) (rev s))"

lemma after_last_append [simp]: "c \<notin> set t \<Longrightarrow> after_last c (s @ c # t) = t"
proof -
  assume "c \<notin> set t"
  then have "takeWhile (\<lambda>x. x \<noteq> c) (rev t @ c # rev s) = rev t"
    by (subst takeWhile_append2) auto
  then show ?thesis by (simp add: after_last_def)
qed

lemma after_last_none [simp]: "c \<notin> set t \<Longrightarrow> after_last c t = t"
proof -
  assume "c \<notin> set t"
  then have "takeWhile (\<lambda>x. x \<noteq> c) (rev t) = rev t"
    by (intro takeWhile_eq_all_conv [THEN iffD2]) auto
  then show ?thesis by (simp only: after_last_def rev_rev_ident)
qed

lemma after_last_no: "c \<notin> set (after_last c s)"
  by (auto simp: after_last_def dest: set_takeWhileD)

section \<open>Case and white space\<close>

definition is_ascii :: "char \<Rightarrow> bool" where
  "is_ascii c \<longleftrightarrow> (of_char c :: nat) < 128"

definition lower_char :: "char \<Rightarrow> char" where
  "lower_char c =
     (let n = of_char c :: nat in if 65 \<le> n \<and> n \<le> 90 then char_of (n + 32) else c)"

definition to_lower :: "(string \<Rightarrow> string) \<Rightarrow> string \<Rightarrow> string" where
  "to_lower ul s = (if list_all is_ascii s then map lower_char s else ul s)"

lemma lower_char_idem [simp]: "lower_char (lower_char c) = lower_char c"
  by (simp add: lower_char_def Let_def)

lemma is_ascii_lower_char [simp]: "is_ascii (lower_char c) = is_ascii c"
  by (auto simp: lower_char_def is_ascii_def Let_def)

lemma to_lower_idem:
  "(\<And>t. \<not> list_all is_ascii t \<Longrightarrow> to_lower ul (ul t) = ul t) \<Longrightarrow>
   to_lower ul (to_lower ul s) = to_lower ul s"
  by (auto simp: to_lower_def list_all_iff o_def)

lemma to_lower_ascii: "list_all is_ascii s \<Longrightarrow> to_lower ul s = map lower_char s"
  by (simp add: to_lower_def)

text \<open>The encodings of the characters \<open>unicode.IsSpace\<close> accepts.\<close>

definition white_spaces :: "string list" where
  "white_spaces =
     [[CHR 0x09], [CHR 0x0A], [CHR 0x0B], [CHR 0x0C], [CHR 0x0D], [CHR 0x20],
      [CHR 0xC2, CHR 0x85], [CHR 0xC2, CHR 0xA0], [CHR 0xE1, CHR 0x9A, CHR 0x80]]
     @ map (\<lambda>n. [CHR 0xE2, CHR 0x80, char_of n])
         [0x80, 0x81, 0x82, 0x83, 0x84, 0x85, 0x86, 0x87, 0x88, 0x89, 0x8A,
          0xA8, 0xA9, 0xAF :: nat]
     @ [[CHR 0xE2, CHR 0x81, CHR 0x9F], [CHR 0xE3, CHR 0x80, CHR 0x80]]"

lemma white_spaces_nonempty: "w \<in> set white_spaces \<Longrightarrow> w \<noteq> []"
  by (auto simp: white_spaces_def)

definition space_at :: "string \<Rightarrow> string option" where
  "space_at s = find (has_prefix s) white_spaces"

lemma space_at_Some: "space_at s = Some w \<Longrightarrow> w \<noteq> [] \<and> length w \<le> length s \<and> s \<noteq> []"
proof -
  assume "space_at s = Some w"
  then have w: "w \<in> set white_spaces" and p: "has_prefix s w"
    unfolding space_at_def by (auto simp: find_Some_iff)
  from white_spaces_nonempty [OF w] p show ?thesis
    by (auto simp: has_prefix_iff)
qed

lemma space_at_Nil [simp]: "space_at [] = None"
  using space_at_Some [of "[]"] by (cases "space_at []") auto

function trim_left :: "string \<Rightarrow> string" where
  "trim_left s =
     (case space_at s of None \<Rightarrow> s | Some w \<Rightarrow> trim_left (drop (length w) s))"
  by pat_completeness auto
termination
  by (relation "measure length") (auto dest!: space_at_Some)

declare trim_left.simps [simp del]

definition space_end :: "string \<Rightarrow> string option" where
  "space_end s = find (has_suffix s) white_spaces"

lemma space_end_Some: "space_end s = Some w \<Longrightarrow> w \<noteq> [] \<and> length w \<le> length s \<and> s \<noteq> []"
proof -
  assume "space_end s = Some w"
  then have w: "w \<in> set white_spaces" and p: "has_suffix s w"
    unfolding space_end_def by (auto simp: find_Some_iff)
  from white_spaces_nonempty [OF w] p show ?thesis
    by (auto simp: has_suffix_iff)
qed

function trim_right :: "string \<Rightarrow> string" where
  "trim_right s =
     (case space_end s of None \<Rightarrow> s | Some w \<Rightarrow> trim_right (take (length s - length w) s))"
  by pat_completeness auto
termination
  by (relation "measure length") (auto dest!: space_end_Some)

declare trim_right.simps [simp del]

definition trim_space :: "string \<Rightarrow> string" where
  "trim_space s = trim_right (trim_left s)"

text \<open>\<open>strings.Fields\<close>: the maximal runs without white space.\<close>

function fields_from :: "string \<Rightarrow> string \<Rightarrow> string list" where
  "fields_from cur s =
     (if s = [] then (if cur = [] then [] else [cur])
      else case space_at s of
        None \<Rightarrow> fields_from (cur @ [hd s]) (tl s)
      | Some w \<Rightarrow>
          (if cur = [] then [] else [cur]) @ fields_from [] (drop (length w) s))"
  by pat_completeness auto
termination
  by (relation "measure (\<lambda>(cur, s). length s)") (auto dest!: space_at_Some)

declare fields_from.simps [simp del]

definition str_fields :: "string \<Rightarrow> string list" where
  "str_fields s = fields_from [] s"

lemma fields_from_nonempty: "f \<in> set (fields_from cur s) \<Longrightarrow> f \<noteq> []"
proof (induction cur s rule: fields_from.induct)
  case (1 cur s)
  from "1.prems" show ?case
    by (subst (asm) fields_from.simps)
       (auto split: if_splits option.splits dest: "1.IH")
qed

lemma fields_from_cur: "cur \<noteq> [] \<Longrightarrow> fields_from cur s \<noteq> []"
proof (induction cur s rule: fields_from.induct)
  case (1 cur s)
  then show ?case
    by (subst fields_from.simps) (auto split: option.splits)
qed

end
