(* ===== verification/Base64.thy ===== *)
theory Base64
  imports GoStrings
begin

text \<open>
  encoding/base64 of Go, the standard alphabet with padding, as encoding/pem uses it:
  line ends inside the text are skipped, padding is only accepted in the last quantum.
\<close>

definition b64_digit :: "nat \<Rightarrow> char" where
  "b64_digit n =
     char_of (if n < 26 then 65 + n else if n < 52 then 71 + n else if n < 62 then n - 4
              else if n = 62 then 43 else 47)"

definition b64_val :: "char \<Rightarrow> nat option" where
  "b64_val c =
     (let n = of_char c :: nat
      in if 65 \<le> n \<and> n \<le> 90 then Some (n - 65)
         else if 97 \<le> n \<and> n \<le> 122 then Some (n - 71)
         else if 48 \<le> n \<and> n \<le> 57 then Some (n + 4)
         else if n = 43 then Some 62 else if n = 47 then Some 63 else None)"

abbreviation pad_char :: char where "pad_char \<equiv> CHR ''=''"

fun b64_encode :: "bytes \<Rightarrow> string" where
  "b64_encode [] = []"
| "b64_encode [a] =
     (let n = unat a * 65536
      in [b64_digit (n div 262144), b64_digit (n div 4096 mod 64), pad_char, pad_char])"
| "b64_encode [a, b] =
     (let n = unat a * 65536 + unat b * 256
      in [b64_digit (n div 262144), b64_digit (n div 4096 mod 64), b64_digit (n div 64 mod 64), pad_char])"
| "b64_encode (a # b # c # rest) =
     (let n = unat a * 65536 + unat b * 256 + unat c
      in [b64_digit (n div 262144), b64_digit (n div 4096 mod 64), b64_digit (n div 64 mod 64),
          b64_digit (n mod 64)] @ b64_encode rest)"

definition bytes3 :: "nat \<Rightarrow> bytes" where
  "bytes3 n = [of_nat (n div 65536), of_nat (n div 256), of_nat n]"

text \<open>\<open>decodeQuantum\<close>, one group of four after the other.\<close>

fun b64_quanta :: "string \<Rightarrow> bytes option" where
  "b64_quanta [] = Some []"
| "b64_quanta (w # x # y # z # rest) =
     (case (b64_val w, b64_val x) of
        (Some a, Some b) \<Rightarrow>
          (case b64_val y of
             Some c \<Rightarrow>
               (case b64_val z of
                  Some d \<Rightarrow>
                    map_option (\<lambda>t. bytes3 (a * 262144 + b * 4096 + c * 64 + d) @ t) (b64_quanta rest)
                | None \<Rightarrow>
                    if z = pad_char \<and> rest = [] then Some (take 2 (bytes3 (a * 262144 + b * 4096 + c * 64)))
                    else None)
           | None \<Rightarrow>
               if y = pad_char \<and> z = pad_char \<and> rest = []
               then Some (take 1 (bytes3 (a * 262144 + b * 4096))) else None)
      | _ \<Rightarrow> None)"
| "b64_quanta _ = None"

definition b64_decode :: "string \<Rightarrow> bytes option" where
  "b64_decode s = b64_quanta (filter (\<lambda>c. c \<noteq> CHR 0x0A \<and> c \<noteq> CHR 0x0D) s)"

section \<open>The round trip\<close>

lemma of_char_digit:
  "n < 64 \<Longrightarrow> (of_char (b64_digit n) :: nat) =
     (if n < 26 then 65 + n else if n < 52 then 71 + n else if n < 62 then n - 4
      else if n = 62 then 43 else 47)"
  by (simp add: b64_digit_def)

lemma b64_val_digit: "n < 64 \<Longrightarrow> b64_val (b64_digit n) = Some n"
  by (auto simp: b64_val_def of_char_digit Let_def)

lemma b64_val_pad [simp]: "b64_val pad_char = None"
  by (simp add: b64_val_def)

text \<open>Characters that no base64 text has.\<close>

definition b64_char :: "char \<Rightarrow> bool" where
  "b64_char c \<longleftrightarrow> c \<notin> {CHR 0x0A, CHR 0x0D, CHR 0x20, CHR 0x09, CHR ''-'', CHR '':''}"

lemma b64_char_digit: "n < 64 \<Longrightarrow> b64_char (b64_digit n)"
proof -
  assume n: "n < 64"
  have "b64_digit n \<noteq> c" if "(of_char c :: nat) \<in> {10, 13, 32, 9, 45, 58}" for c
    using of_char_digit [OF n] that n by (auto split: if_splits)
  then show ?thesis by (auto simp: b64_char_def)
qed

lemma three_bytes_bound: "unat (a :: byte) * 65536 + unat (b :: byte) * 256 + unat (c :: byte) < 64 * 262144"
  using unat_byte_less [of a] unat_byte_less [of b] unat_byte_less [of c] by linarith

lemma first_digit_bound: "n < 64 * 262144 \<Longrightarrow> n div 262144 < (64 :: nat)"
  by (simp add: less_mult_imp_div_less)

lemma b64_encode_chars: "list_all b64_char (b64_encode b)"
proof (induction b rule: b64_encode.induct)
  case (2 a)
  then show ?case
    using first_digit_bound [OF three_bytes_bound [of a 0 0]]
    by (simp add: Let_def b64_char_digit) (simp add: b64_char_def)
next
  case (3 a b)
  then show ?case
    using first_digit_bound [OF three_bytes_bound [of a b 0]]
    by (simp add: Let_def b64_char_digit) (simp add: b64_char_def)
next
  case (4 a b c rest)
  then show ?case
    using first_digit_bound [OF three_bytes_bound [of a b c]]
    by (simp add: Let_def b64_char_digit)
qed simp

lemma digits_value:
  "n div 262144 * 262144 + n div 4096 mod 64 * 4096 + n div 64 mod 64 * 64 + n mod 64 = (n :: nat)"
proof -
  have "n div 262144 = n div 4096 div 64" "n div 4096 = n div 64 div 64"
    by (simp_all flip: div_mult2_eq)
  then show ?thesis
    using div_mult_mod_eq [of n 64] div_mult_mod_eq [of "n div 64" 64] div_mult_mod_eq [of "n div 4096" 64]
    by linarith
qed

lemma of_nat_byte: "m mod 256 = unat (b :: byte) \<Longrightarrow> of_nat m = b"
  by (simp add: word_unat_eq_iff unat_of_nat_byte del: of_nat_add of_nat_mult)

lemma bytes3_value: "bytes3 (unat a * 65536 + unat b * 256 + unat c) = [a, b, c]"
proof -
  let ?n = "unat a * 65536 + unat b * 256 + unat c"
  have lt: "unat b * 256 + unat c < 65536" "unat c < 256"
    using unat_byte_less [of b] unat_byte_less [of c] by linarith+
  have "?n div 65536 = unat a" using lt(1) by (simp add: add.assoc)
  moreover have "?n div 256 = unat a * 256 + unat b"
  proof -
    have "?n = unat c + (unat a * 256 + unat b) * 256" by simp
    then have "?n div 256 = unat c div 256 + (unat a * 256 + unat b)"
      by (simp only: div_mult_self1 zero_neq_numeral [symmetric] not_False_eq_True add.commute)
    then show ?thesis using lt(2) by simp
  qed
  ultimately have "bytes3 ?n = [of_nat (unat a), of_nat (unat a * 256 + unat b), of_nat ?n]"
    by (simp only: bytes3_def)
  moreover have "of_nat (unat a * 256 + unat b) = b"
    by (rule of_nat_byte) (use unat_byte_less [of b] in simp)
  moreover have "of_nat ?n = c"
  proof (rule of_nat_byte)
    have "?n = unat c + (unat a * 256 + unat b) * 256" by simp
    then have "?n mod 256 = unat c mod 256" by (simp only: mod_mult_self1)
    then show "?n mod 256 = unat c" using lt(2) by simp
  qed
  ultimately show ?thesis by (simp only: of_nat_unat ucast_id)
qed

lemma b64_quanta_encode: "b64_quanta (b64_encode b) = Some b"
proof (induction b rule: b64_encode.induct)
  case (2 a)
  let ?n = "unat a * 65536 + unat (0 :: byte) * 256 + unat (0 :: byte)"
  have z: "?n div 64 mod 64 = 0" "?n mod 64 = 0"
    using mod_mult_self1_is_0 [of 64 "unat a * 16"] mod_mult_self1_is_0 [of 64 "unat a * 1024"] by simp_all
  then have v: "?n div 262144 * 262144 + ?n div 4096 mod 64 * 4096 = ?n"
    using digits_value [of ?n] by simp
  show ?case
    using v bytes3_value [of a 0 0] first_digit_bound [OF three_bytes_bound [of a 0 0]]
    by (simp add: Let_def b64_val_digit)
next
  case (3 a b)
  let ?n = "unat a * 65536 + unat b * 256 + unat (0 :: byte)"
  have z: "?n mod 64 = 0"
    using mod_mult_self1_is_0 [of 64 "unat a * 1024 + unat b * 4"] by simp
  then have v: "?n div 262144 * 262144 + ?n div 4096 mod 64 * 4096 + ?n div 64 mod 64 * 64 = ?n"
    using digits_value [of ?n] by simp
  show ?case
    using v bytes3_value [of a b 0] first_digit_bound [OF three_bytes_bound [of a b 0]]
    by (simp add: Let_def b64_val_digit)
next
  case (4 a b c rest)
  let ?n = "unat a * 65536 + unat b * 256 + unat c"
  show ?case
    using digits_value [of ?n] bytes3_value [of a b c] first_digit_bound [OF three_bytes_bound [of a b c]] 4
    by (simp add: Let_def b64_val_digit)
qed simp

lemma b64_decode_lines:
  "filter (\<lambda>c. c \<noteq> CHR 0x0A \<and> c \<noteq> CHR 0x0D) s = b64_encode b \<Longrightarrow> b64_decode s = Some b"
  by (simp add: b64_decode_def b64_quanta_encode)

end
