(* ===== verification/GoConv.thy ===== *)
theory GoConv
  imports GoStrings
begin

text \<open>
  Numbers and hexadecimal digits as text: \<open>%d\<close> and \<open>strconv.Atoi\<close> on a platform
  with 64-bit \<open>int\<close>, \<open>hex.EncodeToString\<close> and \<open>hex.DecodeString\<close>.
\<close>

section \<open>Decimal\<close>

definition digit_char :: "nat \<Rightarrow> char" where
  "digit_char d = char_of (48 + d)"

fun itoa :: "nat \<Rightarrow> string" where
  "itoa n = (if n < 10 then [digit_char n] else itoa (n div 10) @ [digit_char (n mod 10)])"

declare itoa.simps [simp del]

definition digit_val :: "char \<Rightarrow> nat option" where
  "digit_val c =
     (let n = of_char c :: nat in if 48 \<le> n \<and> n \<le> 57 then Some (n - 48) else None)"

lemma digit_val_digit_char [simp]: "d < 10 \<Longrightarrow> digit_val (digit_char d) = Some d"
  by (simp add: digit_val_def digit_char_def)

text \<open>
  \<open>strconv.ParseUint\<close> in base 10: \<open>None\<close> is a syntax error, which the scan reports
  when it meets a character that is no digit; a value of 2^64 or more is a range error,
  reported at once with the largest value.
\<close>

fun parse_uint :: "int \<Rightarrow> string \<Rightarrow> int option" where
  "parse_uint n [] = Some n"
| "parse_uint n (c # cs) =
     (case digit_val c of
        None \<Rightarrow> None
      | Some d \<Rightarrow>
          if 2 ^ 64 \<le> n * 10 + int d then Some (2 ^ 64 - 1)
          else parse_uint (n * 10 + int d) cs)"

definition parse_uint_str :: "string \<Rightarrow> int option" where
  "parse_uint_str s = (if s = [] then None else parse_uint 0 s)"

text \<open>
  The value \<open>strconv.Atoi\<close> returns beside its error: 0 on a syntax error, the nearest
  64-bit integer on a range error.
\<close>

definition atoi :: "string \<Rightarrow> int" where
  "atoi s =
     (let neg = (s \<noteq> [] \<and> hd s = CHR ''-'');
          t = (if s \<noteq> [] \<and> (hd s = CHR ''-'' \<or> hd s = CHR ''+'') then tl s else s)
      in case parse_uint_str t of
           None \<Rightarrow> 0
         | Some un \<Rightarrow>
             if \<not> neg \<and> 2 ^ 63 \<le> un then 2 ^ 63 - 1
             else if neg \<and> 2 ^ 63 < un then - (2 ^ 63)
             else if neg then - un else un)"

lemma itoa_nonempty [simp]: "itoa n \<noteq> []"
  by (subst itoa.simps) simp

lemma itoa_digits: "c \<in> set (itoa n) \<Longrightarrow> \<exists>d < 10. c = digit_char d"
proof (induction n rule: itoa.induct)
  case (1 n)
  from "1.prems" show ?case
    by (subst (asm) itoa.simps) (auto split: if_splits dest: "1.IH" intro: exI [of _ "n mod 10"])
qed

lemma hd_itoa: "hd (itoa n) \<in> set (itoa n)"
  by simp

lemma digit_char_not_sign: "d < 10 \<Longrightarrow> digit_char d \<noteq> CHR ''-'' \<and> digit_char d \<noteq> CHR ''+''"
proof -
  assume "d < 10"
  then have "digit_val (digit_char d) = Some d" by simp
  then show ?thesis by (auto simp: digit_val_def)
qed

lemma parse_uint_append:
  "parse_uint n s = Some m \<Longrightarrow> m < 2 ^ 64 - 1 \<Longrightarrow> parse_uint n (s @ [c]) = parse_uint m [c]"
  by (induction n s rule: parse_uint.induct) (auto split: option.splits if_splits)

lemma parse_uint_itoa: "n < 2 ^ 63 \<Longrightarrow> parse_uint 0 (itoa n) = Some (int n)"
proof (induction n rule: itoa.induct)
  case (1 n)
  show ?case
  proof (cases "n < 10")
    case True
    with "1.prems" show ?thesis by (subst itoa.simps) simp
  next
    case False
    with "1.IH" "1.prems" have "parse_uint 0 (itoa (n div 10)) = Some (int (n div 10))" by simp
    moreover have "int (n div 10) < 2 ^ 64 - 1" using "1.prems" by simp
    ultimately have "parse_uint 0 (itoa (n div 10) @ [digit_char (n mod 10)]) =
        parse_uint (int (n div 10)) [digit_char (n mod 10)]"
      by (rule parse_uint_append)
    moreover have "int (n div 10) * 10 + int (n mod 10) = int n"
      by (metis div_mult_mod_eq of_nat_add of_nat_mult of_nat_numeral)
    ultimately show ?thesis
      using False "1.prems" by (subst itoa.simps) simp
  qed
qed

lemma atoi_itoa: "n < 2 ^ 63 \<Longrightarrow> atoi (itoa n) = int n"
proof -
  assume n: "n < 2 ^ 63"
  obtain d where d: "d < 10" "hd (itoa n) = digit_char d"
    using itoa_digits [OF hd_itoa] by blast
  have "hd (itoa n) \<noteq> CHR ''-''" and "hd (itoa n) \<noteq> CHR ''+''"
    using digit_char_not_sign [OF d(1)] d(2) by auto
  with n show ?thesis
    by (simp add: atoi_def parse_uint_str_def parse_uint_itoa)
qed

lemma parse_uint_nonneg: "parse_uint n s = Some m \<Longrightarrow> 0 \<le> n \<Longrightarrow> 0 \<le> m"
  by (induction n s rule: parse_uint.induct) (auto split: option.splits if_splits)

lemma atoi_range: "- (2 ^ 63) \<le> atoi s \<and> atoi s < 2 ^ 63"
  by (auto simp: atoi_def parse_uint_str_def Let_def split: option.splits
      dest: parse_uint_nonneg)

section \<open>Hexadecimal\<close>

definition hex_char :: "nat \<Rightarrow> char" where
  "hex_char n = (if n < 10 then char_of (48 + n) else char_of (87 + n))"

definition hex_val :: "char \<Rightarrow> nat option" where
  "hex_val c =
     (let n = of_char c :: nat
      in if 48 \<le> n \<and> n \<le> 57 then Some (n - 48)
         else if 97 \<le> n \<and> n \<le> 102 then Some (n - 87)
         else if 65 \<le> n \<and> n \<le> 70 then Some (n - 55)
         else None)"

definition hex_byte :: "byte \<Rightarrow> string" where
  "hex_byte b = [hex_char (unat b div 16), hex_char (unat b mod 16)]"

definition hex_encode :: "bytes \<Rightarrow> string" where
  "hex_encode b = concat (map hex_byte b)"

text \<open>\<open>hex.DecodeString\<close>: \<open>None\<close> for an odd length or a character that is no hex digit.\<close>

fun hex_decode :: "string \<Rightarrow> bytes option" where
  "hex_decode [] = Some []"
| "hex_decode [c] = None"
| "hex_decode (c # d # s) =
     (case (hex_val c, hex_val d) of
        (Some h, Some l) \<Rightarrow> map_option (\<lambda>bs. of_nat (h * 16 + l) # bs) (hex_decode s)
      | _ \<Rightarrow> None)"

lemma hex_val_hex_char [simp]: "n < 16 \<Longrightarrow> hex_val (hex_char n) = Some n"
  by (simp add: hex_val_def hex_char_def Let_def)

lemma hex_decode_encode [simp]: "hex_decode (hex_encode b) = Some b"
proof (induction b)
  case Nil
  then show ?case by (simp add: hex_encode_def)
next
  case (Cons x b)
  have "unat x div 16 < 16" using unat_byte_less [of x] by linarith
  moreover have "unat x mod 16 < 16" by simp
  moreover have "(of_nat (unat x div 16 * 16 + unat x mod 16) :: byte) = x"
    by (simp only: div_mult_mod_eq word_of_nat_eq_iff of_nat_unat ucast_id)
  ultimately show ?case
    using Cons.IH by (simp add: hex_encode_def hex_byte_def)
qed

lemma length_hex_encode [simp, lens]: "length (hex_encode b) = 2 * length b"
  by (induction b) (simp_all add: hex_encode_def hex_byte_def)

lemma hex_encode_append [simp]: "hex_encode (a @ b) = hex_encode a @ hex_encode b"
  by (simp add: hex_encode_def)

lemma take_hex_encode: "take (2 * n) (hex_encode b) = hex_encode (take n b)"
proof (induction b arbitrary: n)
  case Nil
  then show ?case by (simp add: hex_encode_def)
next
  case (Cons x b)
  then show ?case by (cases n) (simp_all add: hex_encode_def hex_byte_def)
qed

lemma drop_hex_encode: "drop (2 * n) (hex_encode b) = hex_encode (drop n b)"
proof (induction b arbitrary: n)
  case Nil
  then show ?case by (simp add: hex_encode_def)
next
  case (Cons x b)
  then show ?case by (cases n) (simp_all add: hex_encode_def hex_byte_def)
qed

lemma gslice_hex_encode:
  "gslice (2 * a) (2 * b) (hex_encode x) = hex_encode (gslice a b x)"
  by (simp add: gslice_def drop_hex_encode flip: take_hex_encode diff_mult_distrib2)

lemma hex_encode_inj [simp]: "hex_encode a = hex_encode b \<longleftrightarrow> a = b"
  by (metis hex_decode_encode option.inject)

definition is_hex_char :: "char \<Rightarrow> bool" where
  "is_hex_char c \<longleftrightarrow> (let n = of_char c :: nat in (48 \<le> n \<and> n \<le> 57) \<or> (97 \<le> n \<and> n \<le> 102))"

lemma is_hex_char_hex_char: "n < 16 \<Longrightarrow> is_hex_char (hex_char n)"
  by (simp add: is_hex_char_def hex_char_def Let_def)

lemma hex_encode_hex: "c \<in> set (hex_encode b) \<Longrightarrow> is_hex_char c"
proof -
  assume "c \<in> set (hex_encode b)"
  then obtain x where "x \<in> set b" and "c \<in> set (hex_byte x)"
    by (auto simp: hex_encode_def)
  then have "c = hex_char (unat x div 16) \<or> c = hex_char (unat x mod 16)"
    by (simp add: hex_byte_def)
  moreover have "unat x div 16 < 16" using unat_byte_less [of x] by linarith
  ultimately show ?thesis by (auto intro: is_hex_char_hex_char)
qed

end
