(* ===== verification/GoNet.thy ===== *)
theory GoNet
  imports GoConv
begin

text \<open>
  The part of Go's package net that the DNS redirector uses: IP addresses as byte
  slices (\<open>None\<close> is the nil address), \<open>To4\<close>, \<open>ParseIP\<close> with its IPv4 and IPv6
  forms, and \<open>SplitHostPort\<close>.
\<close>

type_synonym ip = "bytes option"

definition v4_prefix :: bytes where
  "v4_prefix = replicate 10 0 @ [0xff, 0xff]"

definition ipv4 :: "byte \<Rightarrow> byte \<Rightarrow> byte \<Rightarrow> byte \<Rightarrow> bytes" where
  "ipv4 a b c d = v4_prefix @ [a, b, c, d]"

definition to4 :: "bytes \<Rightarrow> bytes option" where
  "to4 ip =
     (if length ip = 4 then Some ip
      else if length ip = 16 \<and> take 12 ip = v4_prefix then Some (drop 12 ip)
      else None)"

lemma to4_length: "to4 ip = Some b \<Longrightarrow> length b = 4"
  by (auto simp: to4_def split: if_splits)

lemma to4_ipv4 [simp]: "to4 (ipv4 a b c d) = Some [a, b, c, d]"
  by (simp add: to4_def ipv4_def v4_prefix_def)

text \<open>
  \<open>dtoi\<close> and \<open>xtoi\<close>: the number at the front, how many digits it has and what follows;
  \<open>None\<close> without a digit or from 0xFFFFFF on.
\<close>

fun scan_num :: "nat \<Rightarrow> (char \<Rightarrow> nat option) \<Rightarrow> nat \<Rightarrow> nat \<Rightarrow> string \<Rightarrow> (nat \<times> nat \<times> string) option" where
  "scan_num b dv n i [] = (if i = 0 then None else Some (n, i, []))"
| "scan_num b dv n i (c # cs) =
     (case dv c of
        None \<Rightarrow> if i = 0 then None else Some (n, i, c # cs)
      | Some d \<Rightarrow> if 0xFFFFFF \<le> n * b + d then None else scan_num b dv (n * b + d) (Suc i) cs)"

definition dtoi :: "string \<Rightarrow> (nat \<times> nat \<times> string) option" where
  "dtoi s = scan_num 10 digit_val 0 0 s"

definition xtoi :: "string \<Rightarrow> (nat \<times> nat \<times> string) option" where
  "xtoi s = scan_num 16 hex_val 0 0 s"

lemma scan_num_rest:
  "scan_num b dv n i s = Some (m, k, t) \<Longrightarrow> length t \<le> length s"
  by (induction b dv n i s rule: scan_num.induct) (auto split: option.splits if_splits)

lemma scan_num_progress:
  "scan_num b dv n 0 s = Some (m, k, t) \<Longrightarrow> length t < length s"
  by (cases s) (auto split: option.splits if_splits dest: scan_num_rest)

fun parse_octets :: "nat \<Rightarrow> bool \<Rightarrow> string \<Rightarrow> bytes option" where
  "parse_octets 0 first s = (if s = [] then Some [] else None)"
| "parse_octets (Suc k) first s =
     (if s = [] then None
      else if \<not> first \<and> hd s \<noteq> CHR ''.'' then None
      else let s = (if first then s else tl s)
           in case dtoi s of
                None \<Rightarrow> None
              | Some (n, c, rest) \<Rightarrow>
                  if 0xFF < n \<or> (1 < c \<and> hd s = CHR ''0'') then None
                  else map_option (\<lambda>bs. of_nat n # bs) (parse_octets k False rest))"

definition parse_ipv4 :: "string \<Rightarrow> bytes option" where
  "parse_ipv4 s = map_option (\<lambda>bs. v4_prefix @ bs) (parse_octets 4 True s)"

text \<open>
  The groups of an IPv6 address: the bytes read so far and the position of the ellipsis.
\<close>

function parse_groups :: "bytes \<Rightarrow> nat option \<Rightarrow> string \<Rightarrow> (bytes \<times> nat option \<times> string) option" where
  "parse_groups acc ell s =
     (if 16 \<le> length acc then Some (acc, ell, s)
      else case xtoi s of
        None \<Rightarrow> None
      | Some (n, c, rest) \<Rightarrow>
          if 0xFFFF < n then None
          else if rest \<noteq> [] \<and> hd rest = CHR ''.'' then
            (if ell = None \<and> length acc \<noteq> 12 then None
             else if 16 < length acc + 4 then None
             else case parse_ipv4 s of
                 None \<Rightarrow> None
               | Some ip4 \<Rightarrow> Some (acc @ drop 12 ip4, ell, []))
          else let acc' = acc @ [of_nat (n div 256), of_nat n]
               in if rest = [] then Some (acc', ell, [])
                  else if hd rest \<noteq> CHR '':'' \<or> tl rest = [] then None
                  else if hd (tl rest) = CHR '':'' then
                    (if ell \<noteq> None then None
                     else if tl (tl rest) = [] then Some (acc', Some (length acc'), [])
                     else parse_groups acc' (Some (length acc')) (tl (tl rest)))
                  else parse_groups acc' ell (tl rest))"
  by pat_completeness auto
termination
  by (relation "measure (\<lambda>(acc, ell, s). 16 - length acc)") auto

declare parse_groups.simps [simp del]

definition parse_ipv6 :: "string \<Rightarrow> bytes option" where
  "parse_ipv6 s =
     (let lead = has_prefix s ''::''; s' = (if lead then drop 2 s else s)
      in if lead \<and> s' = [] then Some (replicate 16 0)
         else case parse_groups [] (if lead then Some 0 else None) s' of
           None \<Rightarrow> None
         | Some (acc, ell, rest) \<Rightarrow>
             if rest \<noteq> [] then None
             else if length acc < 16 then
               (case ell of
                  None \<Rightarrow> None
                | Some e \<Rightarrow> Some (take e acc @ replicate (16 - length acc) 0 @ drop e acc))
             else if ell \<noteq> None then None
             else Some acc)"

definition parse_ip :: "string \<Rightarrow> ip" where
  "parse_ip s =
     (case find (\<lambda>c. c = CHR ''.'' \<or> c = CHR '':'') s of
        None \<Rightarrow> None
      | Some c \<Rightarrow> if c = CHR ''.'' then parse_ipv4 s else parse_ipv6 s)"

lemma parse_octets_length: "parse_octets k first s = Some b \<Longrightarrow> length b = k"
  by (induction k first s arbitrary: b rule: parse_octets.induct)
     (auto simp: Let_def split: if_splits option.splits)

lemma parse_ipv4_to4: "parse_ipv4 s = Some b \<Longrightarrow> length b = 16 \<and> to4 b \<noteq> None"
  by (auto simp: parse_ipv4_def to4_def v4_prefix_def dest: parse_octets_length)

text \<open>
  \<open>net.SplitHostPort\<close>, the host or \<open>None\<close> for an error: the last colon separates the
  port; a host with colons is in brackets.
\<close>

definition last_index :: "char \<Rightarrow> string \<Rightarrow> nat option" where
  "last_index c s =
     (if c \<in> set s then Some (length s - 1 - length (after_last c s)) else None)"

definition split_host :: "string \<Rightarrow> string option" where
  "split_host hp =
     (case last_index CHR '':'' hp of
        None \<Rightarrow> None
      | Some i \<Rightarrow>
          if hp \<noteq> [] \<and> hd hp = CHR ''['' then
            (case index_of hp '']'' of
               None \<Rightarrow> None
             | Some e \<Rightarrow>
                 if e + 1 = length hp then None
                 else if e + 1 \<noteq> i then None
                 else if CHR ''['' \<in> set (drop 1 hp) \<or> CHR '']'' \<in> set (drop (e + 1) hp) then None
                 else Some (gslice 1 e hp))
          else if CHR '':'' \<in> set (take i hp) then None
          else if CHR ''['' \<in> set hp \<or> CHR '']'' \<in> set hp then None
          else Some (take i hp))"

lemma last_index_append [simp]: "c \<notin> set t \<Longrightarrow> last_index c (s @ c # t) = Some (length s)"
  by (simp add: last_index_def)

lemma split_host_port:
  "CHR '':'' \<notin> set h \<Longrightarrow> CHR ''['' \<notin> set h \<Longrightarrow> CHR '']'' \<notin> set h \<Longrightarrow>
   CHR '':'' \<notin> set p \<Longrightarrow> CHR ''['' \<notin> set p \<Longrightarrow> CHR '']'' \<notin> set p \<Longrightarrow>
   split_host (h @ '':'' @ p) = Some h"
proof -
  assume h: "CHR '':'' \<notin> set h" "CHR ''['' \<notin> set h" "CHR '']'' \<notin> set h"
    and p: "CHR '':'' \<notin> set p" "CHR ''['' \<notin> set p" "CHR '']'' \<notin> set p"
  from p have li: "last_index CHR '':'' (h @ '':'' @ p) = Some (length h)" by simp
  have "hd (h @ '':'' @ p) \<noteq> CHR ''[''" using h by (cases h) auto
  with h p show ?thesis by (simp only: split_host_def li) auto
qed

end
