(* ===== verification/GoPaths.thy ===== *)
theory GoPaths
  imports GoStrings
begin

text \<open>
  Go's packages path and path/filepath on Unix, lexically: \<open>Clean\<close>, \<open>Base\<close>, \<open>Dir\<close>,
  \<open>Join\<close>, \<open>Rel\<close>, \<open>Ext\<close>.  A cleaned path is a list of proper elements and whether it
  is rooted; the lemmas are about that view, and the containment lemma \<open>clean_join\<close>
  is what the document-root checks of the server rest on.
\<close>

section \<open>Elements\<close>

fun split_char :: "'a \<Rightarrow> 'a list \<Rightarrow> 'a list list" where
  "split_char c [] = [[]]"
| "split_char c (x # xs) =
     (if x = c then [] # split_char c xs
      else (case split_char c xs of [] \<Rightarrow> [[x]] | y # ys \<Rightarrow> (x # y) # ys))"

lemma split_char_nonempty [simp]: "split_char c s \<noteq> []"
  by (induction s) (auto split: list.splits)

lemma split_char_no: "e \<in> set (split_char c s) \<Longrightarrow> c \<notin> set e"
  by (induction s arbitrary: e) (auto split: if_splits list.splits)

lemma split_char_append:
  "split_char c (s @ c # t) = split_char c s @ split_char c t"
proof (induction s)
  case (Cons x s)
  then show ?case by (cases "split_char c s") auto
qed simp

lemma split_char_id: "c \<notin> set e \<Longrightarrow> split_char c e = [e]"
  by (induction e) auto

lemma split_char_join:
  "es \<noteq> [] \<Longrightarrow> (\<And>e. e \<in> set es \<Longrightarrow> c \<notin> set e) \<Longrightarrow> split_char c (join es [c]) = es"
proof (induction es)
  case (Cons e es)
  show ?case
  proof (cases "es = []")
    case False
    then have "split_char c (join (e # es) [c]) = split_char c e @ split_char c (join es [c])"
      by (simp add: join_Cons split_char_append)
    with False Cons show ?thesis by (simp add: split_char_id)
  qed (use Cons.prems in \<open>simp add: split_char_id\<close>)
qed simp

lemma join_split_char: "join (split_char c s) [c] = s"
proof (induction s)
  case (Cons x s)
  then show ?case
    by (cases "split_char c s"; cases "tl (split_char c s)") (auto simp: join_Cons)
qed simp

section \<open>Clean\<close>

abbreviation slash :: string where
  "slash \<equiv> ''/''"

abbreviation dot :: string where
  "dot \<equiv> ''.''"

abbreviation dotdot :: string where
  "dotdot \<equiv> ''..''"

definition rooted :: "string \<Rightarrow> bool" where
  "rooted p \<longleftrightarrow> p \<noteq> [] \<and> hd p = CHR ''/''"

text \<open>One element of the path against the elements kept so far.\<close>

definition clean_step :: "bool \<Rightarrow> string list \<Rightarrow> string \<Rightarrow> string list" where
  "clean_step r es e =
     (if e = [] \<or> e = dot then es
      else if e = dotdot then
        (if es \<noteq> [] \<and> last es \<noteq> dotdot then butlast es
         else if r then es else es @ [dotdot])
      else es @ [e])"

definition clean_elems :: "bool \<Rightarrow> string list \<Rightarrow> string list" where
  "clean_elems r es = foldl (clean_step r) [] es"

definition render :: "bool \<Rightarrow> string list \<Rightarrow> string" where
  "render r es = (if r then slash @ join es slash else if es = [] then dot else join es slash)"

definition elems :: "string \<Rightarrow> string list" where
  "elems p = clean_elems (rooted p) (split_char (CHR ''/'') p)"

definition clean :: "string \<Rightarrow> string" where
  "clean p = render (rooted p) (elems p)"

section \<open>Base, Dir, Join, Rel, Ext\<close>

fun strip_slashes :: "string \<Rightarrow> string" where
  "strip_slashes p = rev (dropWhile (\<lambda>c. c = CHR ''/'') (rev p))"

definition base :: "string \<Rightarrow> string" where
  "base p =
     (if p = [] then dot
      else let b = after_last (CHR ''/'') (strip_slashes p) in if b = [] then slash else b)"

text \<open>\<open>path.Split\<close>'s directory: everything up to and including the last slash.\<close>

definition dir :: "string \<Rightarrow> string" where
  "dir p = clean (rev (dropWhile (\<lambda>c. c \<noteq> CHR ''/'') (rev p)))"

definition join_path :: "string list \<Rightarrow> string" where
  "join_path es =
     (case dropWhile (\<lambda>e. e = []) es of [] \<Rightarrow> [] | fs \<Rightarrow> clean (join fs slash))"

fun strip_common :: "string list \<Rightarrow> string list \<Rightarrow> string list \<times> string list" where
  "strip_common (x # xs) (y # ys) =
     (if x = y then strip_common xs ys else (x # xs, y # ys))"
| "strip_common xs ys = (xs, ys)"

definition raw_elems :: "string \<Rightarrow> string list" where
  "raw_elems p = filter (\<lambda>e. e \<noteq> []) (split_char (CHR ''/'') p)"

definition rel :: "string \<Rightarrow> string \<Rightarrow> string option" where
  "rel basepath targpath =
     (let b = clean basepath; t = clean targpath
      in if t = b then Some dot
         else let b' = (if b = dot then [] else b)
              in if rooted b' \<noteq> rooted t then None
                 else case strip_common (raw_elems b') (raw_elems t) of (bs, ts) \<Rightarrow>
                   if bs \<noteq> [] \<and> ts \<noteq> [] \<and> hd bs = dotdot then None
                   else Some (join (replicate (length bs) dotdot @ ts) slash))"

text \<open>The extension with its dot, empty when the last element has none.\<close>

definition ext :: "string \<Rightarrow> string" where
  "ext p =
     (let l = after_last (CHR ''/'') p
      in if CHR ''.'' \<in> set l then CHR ''.'' # after_last (CHR ''.'') l else [])"

section \<open>Cleaned paths\<close>

definition proper :: "string \<Rightarrow> bool" where
  "proper e \<longleftrightarrow> e \<noteq> [] \<and> e \<noteq> dot \<and> e \<noteq> dotdot \<and> CHR ''/'' \<notin> set e"

definition kept :: "string \<Rightarrow> bool" where
  "kept e \<longleftrightarrow> e \<noteq> [] \<and> e \<noteq> dot \<and> CHR ''/'' \<notin> set e"

lemma proper_kept: "proper e \<Longrightarrow> kept e"
  by (simp add: proper_def kept_def)

lemma clean_step_kept:
  "\<forall>x \<in> set es. kept x \<Longrightarrow> CHR ''/'' \<notin> set e \<Longrightarrow> \<forall>x \<in> set (clean_step r es e). kept x"
  by (auto simp: clean_step_def kept_def dest: in_set_butlastD)

lemma clean_step_proper:
  "\<forall>x \<in> set es. proper x \<Longrightarrow> CHR ''/'' \<notin> set e \<Longrightarrow> \<forall>x \<in> set (clean_step True es e). proper x"
  by (auto simp: clean_step_def proper_def dest: in_set_butlastD)

lemma foldl_clean_kept:
  "\<forall>x \<in> set es. kept x \<Longrightarrow> \<forall>e \<in> set fs. CHR ''/'' \<notin> set e \<Longrightarrow>
   \<forall>x \<in> set (foldl (clean_step r) es fs). kept x"
proof (induction fs arbitrary: es)
  case (Cons f fs)
  then have "\<forall>x \<in> set (clean_step r es f). kept x"
    by (intro clean_step_kept) simp_all
  with Cons show ?case by simp
qed simp

lemma foldl_clean_proper:
  "\<forall>x \<in> set es. proper x \<Longrightarrow> \<forall>e \<in> set fs. CHR ''/'' \<notin> set e \<Longrightarrow>
   \<forall>x \<in> set (foldl (clean_step True) es fs). proper x"
proof (induction fs arbitrary: es)
  case (Cons f fs)
  then have "\<forall>x \<in> set (clean_step True es f). proper x"
    by (intro clean_step_proper) simp_all
  with Cons show ?case by simp
qed simp

lemma foldl_clean_push:
  "\<forall>e \<in> set fs. proper e \<Longrightarrow> foldl (clean_step r) es fs = es @ fs"
  by (induction fs arbitrary: es) (simp_all add: clean_step_def proper_def)

lemma elems_kept: "\<forall>e \<in> set (elems p). kept e"
  unfolding elems_def clean_elems_def
  by (rule foldl_clean_kept) (auto dest: split_char_no)

lemma elems_proper: "rooted p \<Longrightarrow> \<forall>e \<in> set (elems p). proper e"
  unfolding elems_def clean_elems_def
  by (simp, rule foldl_clean_proper) (auto dest: split_char_no)

lemma join_slash_hd:
  "es \<noteq> [] \<Longrightarrow> \<forall>e \<in> set es. kept e \<Longrightarrow>
   join es slash \<noteq> [] \<and> hd (join es slash) \<noteq> CHR ''/''"
  by (cases es; cases "tl es") (auto simp: kept_def hd_append neq_Nil_conv)

lemma rooted_render [simp]: "\<forall>e \<in> set es. kept e \<Longrightarrow> rooted (render r es) = r"
  using join_slash_hd [of es] by (auto simp: render_def rooted_def)

lemma split_render:
  "\<forall>e \<in> set es. kept e \<Longrightarrow>
   split_char (CHR ''/'') (render r es) =
     (if r then [] # (if es = [] then [[]] else es) else if es = [] then [dot] else es)"
  using split_char_join [of es "CHR ''/''"] by (auto simp: render_def kept_def)

lemma rooted_clean [simp]: "rooted (clean p) = rooted p"
  by (simp add: clean_def elems_kept)

lemma raw_elems_clean: "raw_elems (clean p) = (if elems p = [] \<and> \<not> rooted p then [dot] else elems p)"
  using elems_kept [of p]
  by (auto simp: raw_elems_def clean_def split_render kept_def filter_id_conv)

lemma rooted_dir: "rooted p \<Longrightarrow> rooted (dir (clean p))"
proof -
  assume "rooted p"
  then have "rooted (clean p)" by simp
  then have "rooted (rev (dropWhile (\<lambda>c. c \<noteq> CHR ''/'') (rev (clean p))))"
    by (cases "clean p") (auto simp: rooted_def dropWhile_append)
  then show ?thesis by (simp add: dir_def)
qed

lemma elems_append:
  "p \<noteq> [] \<Longrightarrow> rooted q \<Longrightarrow> elems (p @ slash @ clean q) = elems p @ elems q"
proof -
  assume p: "p \<noteq> []" and q: "rooted q"
  have r: "rooted (p @ slash @ clean q) = rooted p" using p by (simp add: rooted_def)
  have "foldl (clean_step (rooted p)) es (split_char (CHR ''/'') (clean q)) = es @ elems q" for es
    using elems_proper [OF q] q elems_kept [of q]
    by (simp add: clean_def split_render foldl_clean_push clean_step_def)
  with r show ?thesis
    by (simp add: elems_def clean_elems_def split_char_append)
qed

text \<open>
  A rooted, cleaned path joined below any non-empty root keeps all elements of the root
  and adds only proper ones: nothing can climb out.
\<close>

lemma clean_join:
  assumes "d \<noteq> []" and "rooted q"
  shows "join_path [d, clean q] = render (rooted d) (elems d @ elems q)"
proof -
  have "clean q \<noteq> []" using assms(2) by (metis rooted_clean rooted_def)
  moreover have "rooted (d @ slash @ clean q) = rooted d" using assms(1) by (simp add: rooted_def)
  ultimately have "join_path [d, clean q] = render (rooted d) (elems (d @ slash @ clean q))"
    using assms(1) by (simp add: join_path_def clean_def [of "d @ slash @ clean q", simplified])
  then show ?thesis by (simp only: elems_append [OF assms])
qed

lemma split_char_proper:
  "es \<noteq> [] \<Longrightarrow> \<forall>e \<in> set es. proper e \<Longrightarrow> split_char (CHR ''/'') (join es slash) = es"
  by (rule split_char_join) (auto simp: proper_def)

lemma join_below:
  assumes "d \<noteq> []" and "es \<noteq> []" and "\<forall>e \<in> set es. proper e"
  shows "join_path (d # es) = render (rooted d) (elems d @ es)"
proof -
  have j: "join (d # es) slash = d @ slash @ join es slash"
    by (rule join_Cons [OF assms(2)])
  have r: "rooted (d @ slash @ join es slash) = rooted d" using assms(1) by (simp add: rooted_def)
  have "elems (d @ slash @ join es slash) = elems d @ es"
    using r assms
    by (simp add: elems_def clean_elems_def split_char_append split_char_proper foldl_clean_push)
  with r j assms(1) show ?thesis by (simp add: join_path_def clean_def)
qed

lemma strip_common_prefix [simp]: "strip_common xs (xs @ ys) = ([], ys)"
  by (induction xs) (cases ys, simp_all)

lemma clean_elems_split_render:
  "\<forall>e \<in> set es. kept e \<Longrightarrow>
   clean_elems r (split_char (CHR ''/'') (render r es)) = clean_elems r es"
  by (auto simp: split_render clean_elems_def clean_step_def)

lemma elems_render:
  assumes "\<forall>e \<in> set es. kept e" and "\<forall>e \<in> set fs. proper e"
    and "clean_elems r es = es"
  shows "elems (render r (es @ fs)) = es @ fs"
proof -
  have k: "\<forall>e \<in> set (es @ fs). kept e" using assms(1,2) by (auto simp: proper_kept)
  then have "elems (render r (es @ fs)) = clean_elems r (es @ fs)"
    by (simp only: elems_def rooted_render clean_elems_split_render)
  also have "\<dots> = foldl (clean_step r) es fs"
    using assms(3) by (simp add: clean_elems_def)
  finally show ?thesis using assms(2) by (simp add: foldl_clean_push)
qed

text \<open>Cleaning is idempotent: every prefix of the elements kept so far is already clean.\<close>

definition settled :: "bool \<Rightarrow> string list \<Rightarrow> bool" where
  "settled r es \<longleftrightarrow> (\<forall>k. clean_elems r (take k es) = take k es)"

lemma settled_snoc:
  "settled r es \<Longrightarrow> clean_step r es e = es @ [e] \<Longrightarrow> settled r (es @ [e])"
proof -
  assume s: "settled r es" and e: "clean_step r es e = es @ [e]"
  have "clean_elems r es = es" using s by (metis settled_def take_all order_refl)
  with e have "clean_elems r (es @ [e]) = es @ [e]" by (simp add: clean_elems_def)
  with s show ?thesis
    by (auto simp: settled_def take_Cons' split: if_splits)
qed

lemma settled_butlast: "settled r es \<Longrightarrow> settled r (butlast es)"
  by (auto simp: settled_def butlast_conv_take min_def)

lemma settled_step: "settled r es \<Longrightarrow> settled r (clean_step r es e)"
proof -
  assume s: "settled r es"
  then show ?thesis
    using settled_snoc [OF s, of e] settled_butlast [OF s]
    by (auto simp: clean_step_def)
qed

lemma settled_foldl: "settled r es \<Longrightarrow> settled r (foldl (clean_step r) es fs)"
  by (induction fs arbitrary: es) (simp_all add: settled_step)

lemma clean_elems_elems: "clean_elems (rooted p) (elems p) = elems p"
proof -
  have "settled (rooted p) []" by (simp add: settled_def clean_elems_def)
  then have "settled (rooted p) (elems p)"
    unfolding elems_def clean_elems_def by (rule settled_foldl)
  then show ?thesis by (metis settled_def take_all order_refl)
qed

lemma elems_clean_append:
  "\<forall>e \<in> set fs. proper e \<Longrightarrow> elems (render (rooted p) (elems p @ fs)) = elems p @ fs"
  by (rule elems_render [OF elems_kept _ clean_elems_elems])

lemma clean_render_append:
  assumes "\<forall>e \<in> set fs. proper e"
  shows "clean (render (rooted p) (elems p @ fs)) = render (rooted p) (elems p @ fs)"
proof -
  have "\<forall>e \<in> set (elems p @ fs). kept e"
    using assms elems_kept [of p] by (auto simp: proper_kept)
  then show ?thesis
    unfolding clean_def [of "render (rooted p) (elems p @ fs)"]
    by (simp only: elems_clean_append [OF assms] rooted_render)
qed

lemma clean_idem [simp]: "clean (clean p) = clean p"
  using clean_render_append [of "[]" p] by (simp add: clean_def)

lemma elems_clean [simp]: "elems (clean p) = elems p"
  using elems_clean_append [of "[]" p] by (simp add: clean_def)

lemma rel_join:
  assumes "d \<noteq> []" and "rooted q"
  shows "rel d (join_path [d, clean q]) =
    Some (if elems q = [] then dot else join (elems q) slash)"
proof -
  let ?t = "render (rooted d) (elems d @ elems q)"
  have q: "\<forall>e \<in> set (elems q). proper e" by (rule elems_proper [OF assms(2)])
  have k: "\<forall>e \<in> set (elems d @ elems q). kept e"
    using q elems_kept [of d] by (auto simp: proper_kept)
  have t: "clean ?t = ?t" by (rule clean_render_append [OF q])
  note j = clean_join [OF assms]
  have raw: "raw_elems ?t = (if elems d @ elems q = [] \<and> \<not> rooted d then [dot] else elems d @ elems q)"
    using raw_elems_clean [of ?t] k by (simp only: t elems_clean_append [OF q] rooted_render)
  show ?thesis
  proof (cases "elems q = []")
    case True
    then have "?t = clean d" by (simp add: clean_def)
    then show ?thesis using True t by (simp add: rel_def j)
  next
    case False
    define b' where "b' = (if clean d = dot then [] else clean d)"
    have b': "raw_elems b' = elems d \<and> rooted b' = rooted d"
    proof (cases "elems d = [] \<and> \<not> rooted d")
      case True
      then have "clean d = dot" by (simp add: clean_def render_def)
      with True show ?thesis by (simp add: b'_def raw_elems_def rooted_def)
    next
      case F: False
      have "elems dot = []" by (simp add: elems_def rooted_def clean_elems_def clean_step_def)
      moreover have "\<not> rooted dot" by (simp add: rooted_def)
      ultimately have "clean d \<noteq> dot"
        using F elems_clean [of d] rooted_clean [of d] by metis
      then have "b' = clean d" by (simp add: b'_def)
      moreover have "raw_elems (clean d) = elems d"
        using F by (simp only: raw_elems_clean if_False)
      ultimately show ?thesis by simp
    qed
    have "?t \<noteq> clean d"
    proof
      assume "?t = clean d"
      then have "elems ?t = elems d" by simp
      with False show False by (simp only: elems_clean_append [OF q]) simp
    qed
    then show ?thesis
      using False t raw b' k
      by (simp add: rel_def j Let_def flip: b'_def)
  qed
qed

section \<open>Plain paths\<close>

text \<open>The paths clients send: proper elements behind slashes.\<close>

lemma join_snoc: "ds \<noteq> [] \<Longrightarrow> join (ds @ [e]) sep = join ds sep @ sep @ e"
proof (induction ds)
  case (Cons d ds)
  then show ?case by (cases "ds = []") (simp_all add: join_Cons)
qed simp

lemma elems_plain:
  "es \<noteq> [] \<Longrightarrow> \<forall>e \<in> set es. proper e \<Longrightarrow> elems (slash @ slash @ join es slash) = es"
  by (simp add: elems_def clean_elems_def rooted_def split_char_proper foldl_clean_push clean_step_def)

lemma dir_last: "CHR ''/'' \<notin> set e \<Longrightarrow> dir (x @ slash @ e) = clean (x @ slash)"
proof -
  assume "CHR ''/'' \<notin> set e"
  then have "dropWhile (\<lambda>c. c \<noteq> CHR ''/'') (rev e @ CHR ''/'' # rev x) = CHR ''/'' # rev x"
    by (subst dropWhile_append2) auto
  then show ?thesis by (simp add: dir_def)
qed

lemma base_last: "CHR ''/'' \<notin> set e \<Longrightarrow> e \<noteq> [] \<Longrightarrow> base (x @ slash @ e) = e"
proof -
  assume e: "CHR ''/'' \<notin> set e" "e \<noteq> []"
  then have "dropWhile (\<lambda>c. c = CHR ''/'') (rev e @ CHR ''/'' # rev x) = rev e @ CHR ''/'' # rev x"
    by (cases "rev e") auto
  then have "strip_slashes (x @ slash @ e) = x @ slash @ e" by simp
  moreover have "after_last (CHR ''/'') (x @ CHR ''/'' # e) = e"
    using e(1) by simp
  ultimately show ?thesis using e(2) by (simp add: base_def Let_def del: strip_slashes.simps)
qed

lemma dir_plain:
  assumes "\<forall>d \<in> set ds. proper d" and "proper e"
  shows "elems (dir (clean (slash @ slash @ join (ds @ [e]) slash))) = ds"
proof -
  have c: "clean (slash @ slash @ join (ds @ [e]) slash) = slash @ join (ds @ [e]) slash"
    using elems_plain [of "ds @ [e]"] assms by (simp add: clean_def rooted_def render_def)
  have ne: "CHR ''/'' \<notin> set e" using assms(2) by (simp add: proper_def)
  show ?thesis
  proof (cases "ds = []")
    case True
    have "elems slash = []" by (simp add: elems_def clean_elems_def rooted_def clean_step_def)
    moreover have "dir (slash @ join (ds @ [e]) slash) = clean slash"
      using True dir_last [OF ne, of "[]"] by simp
    ultimately show ?thesis unfolding c using True by simp
  next
    case False
    have j: "slash @ join (ds @ [e]) slash = (slash @ join ds slash) @ slash @ e"
      using False by (simp add: join_snoc)
    have "elems (slash @ join ds slash @ slash) = ds"
      using assms(1) False
      by (simp add: elems_def clean_elems_def rooted_def split_char_append split_char_proper
          foldl_clean_push clean_step_def)
    moreover have "dir (slash @ join (ds @ [e]) slash) = clean (slash @ join ds slash @ slash)"
      unfolding j dir_last [OF ne] by simp
    ultimately show ?thesis unfolding c by simp
  qed
qed

lemma base_plain: "proper e \<Longrightarrow> base (slash @ join (ds @ [e]) slash) = e"
proof -
  assume "proper e"
  then have e: "CHR ''/'' \<notin> set e" "e \<noteq> []" by (simp_all add: proper_def)
  show ?thesis
  proof (cases "ds = []")
    case True
    then show ?thesis using base_last [OF e, of "[]"] by simp
  next
    case False
    then have "slash @ join (ds @ [e]) slash = (slash @ join ds slash) @ slash @ e"
      by (simp add: join_snoc)
    then show ?thesis by (simp only: base_last [OF e])
  qed
qed

end
