(* ===== verification/Config.thy ===== *)
theory Config
  imports GoNet GoPaths "HOL-Library.Multiset"
begin

text \<open>
  config.go: the \<open>-force-success\<close> mode and the DNS redirect rules.  Rules come from the
  \<open>-dns-suffix\<close> flag and from the dns.config file; they are merged (the first rule of a
  name wins) and sorted so that longer suffixes are tried first.  The parameter \<open>ul\<close>
  is the Unicode case mapping of strings with a byte outside ASCII.
\<close>

section \<open>The force-success mode\<close>

datatype success_mode = SuccessOff | SuccessFallback | SuccessAlways

lemma UNIV_success_mode: "UNIV = {SuccessOff, SuccessFallback, SuccessAlways}"
  by (auto intro: success_mode.exhaust)

instantiation success_mode :: enum
begin

definition enum_success_mode :: "success_mode list" where
  "enum_success_mode = [SuccessOff, SuccessFallback, SuccessAlways]"

definition enum_all_success_mode :: "(success_mode \<Rightarrow> bool) \<Rightarrow> bool" where
  "enum_all_success_mode P \<longleftrightarrow> P SuccessOff \<and> P SuccessFallback \<and> P SuccessAlways"

definition enum_ex_success_mode :: "(success_mode \<Rightarrow> bool) \<Rightarrow> bool" where
  "enum_ex_success_mode P \<longleftrightarrow> P SuccessOff \<or> P SuccessFallback \<or> P SuccessAlways"

instance
  by standard
     (simp_all add: enum_success_mode_def enum_all_success_mode_def enum_ex_success_mode_def
        UNIV_success_mode)

end

definition success_mode_set :: "(string \<Rightarrow> string) \<Rightarrow> string \<Rightarrow> go_error + success_mode" where
  "success_mode_set ul v =
     (let w = to_lower ul (trim_space v)
      in if w \<in> {''off'', ''false'', ''no''} then Inr SuccessOff
         else if w = ''fallback'' then Inr SuccessFallback
         else if w \<in> {''always'', ''true'', ''yes''} then Inr SuccessAlways
         else Inl (FmtErr ''invalid mode %q (want off, fallback or always)'' [v]))"

fun success_mode_string :: "success_mode \<Rightarrow> string" where
  "success_mode_string SuccessFallback = ''fallback''"
| "success_mode_string SuccessAlways = ''always''"
| "success_mode_string SuccessOff = ''off''"

section \<open>Redirect rules\<close>

record dns_rule =
  rule_suffix :: string
  rule_ip :: ip

definition normalize_name :: "(string \<Rightarrow> string) \<Rightarrow> string \<Rightarrow> string" where
  "normalize_name ul s = to_lower ul (trim_suffix (trim_space s) ''.'')"

fun rules_from_suffixes :: "(string \<Rightarrow> string) \<Rightarrow> string list \<Rightarrow> ip \<Rightarrow> dns_rule list" where
  "rules_from_suffixes ul [] d = []"
| "rules_from_suffixes ul (s # ss) d =
     (let n = normalize_name ul s
      in if n \<noteq> [] then \<lparr>rule_suffix = n, rule_ip = d\<rparr> # rules_from_suffixes ul ss d
         else rules_from_suffixes ul ss d)"

text \<open>One line of dns.config: no rule for a comment or a blank line.\<close>

definition parse_config_line ::
  "(string \<Rightarrow> string) \<Rightarrow> string \<Rightarrow> nat \<Rightarrow> string \<Rightarrow> ip \<Rightarrow> dns_rule option outcome" where
  "parse_config_line ul file n line d =
     (let txt = trim_space line
      in if txt = [] \<or> has_prefix txt ''#'' then Ok None
         else case str_fields txt of
           [] \<Rightarrow> Panic
         | f0 # fs \<Rightarrow>
             (let name = normalize_name ul f0
              in if name = [] then Err (FmtErr ''%s:%d: empty hostname'' [file, itoa n])
                 else case fs of
                   f1 # _ \<Rightarrow>
                     (case parse_ip f1 of
                        None \<Rightarrow> Err (FmtErr ''%s:%d: invalid IP %q'' [file, itoa n, f1])
                      | Some a \<Rightarrow> Ok (Some \<lparr>rule_suffix = name, rule_ip = Some a\<rparr>))
                 | [] \<Rightarrow>
                     (case d of
                        None \<Rightarrow> Err (FmtErr
                          ''%s:%d: no target IP for %q and no -redirect-ip set'' [file, itoa n, name])
                      | Some a \<Rightarrow> Ok (Some \<lparr>rule_suffix = name, rule_ip = Some a\<rparr>))))"

text \<open>
  The lines a \<open>bufio.Scanner\<close> delivers: without the line feed and one carriage return
  before it, no empty last line.  A line of more than 65535 bytes does not fit the
  scanner's buffer and ends the scan with an error.
\<close>

definition raw_lines :: "string \<Rightarrow> string list" where
  "raw_lines s =
     (let ls = split_char (CHR 0x0A) s in if last ls = [] then butlast ls else ls)"

definition max_line :: nat where
  "max_line = 65535"

fun load_lines ::
  "(string \<Rightarrow> string) \<Rightarrow> string \<Rightarrow> ip \<Rightarrow> nat \<Rightarrow> string list \<Rightarrow> dns_rule list outcome" where
  "load_lines ul file d n [] = Ok []"
| "load_lines ul file d n (l # ls) =
     (if max_line < length l then Err (NewErr ''bufio.Scanner: token too long'')
      else obind (parse_config_line ul file n (trim_suffix l [CHR 0x0D]) d) (\<lambda>r.
           obind (load_lines ul file d (Suc n) ls) (\<lambda>rs.
           Ok (case r of None \<Rightarrow> rs | Some x \<Rightarrow> x # rs))))"

text \<open>
  \<open>loadDNSConfig\<close>: \<open>content\<close> is what opening and reading the file gave.  Where the code
  returns some rules beside an error, its only caller looks at the error alone.
\<close>

definition load_dns_config ::
  "(string \<Rightarrow> string) \<Rightarrow> string \<Rightarrow> bytes outcome \<Rightarrow> ip \<Rightarrow> dns_rule list outcome" where
  "load_dns_config ul file content d =
     obind content (\<lambda>b. load_lines ul file d 1 (raw_lines (string_of b)))"

definition sort_rules :: "dns_rule list \<Rightarrow> dns_rule list" where
  "sort_rules = sort_key (\<lambda>r. - int (length (rule_suffix r)))"

fun dedupe_from :: "string set \<Rightarrow> dns_rule list \<Rightarrow> dns_rule list" where
  "dedupe_from seen [] = []"
| "dedupe_from seen (r # rs) =
     (if rule_suffix r \<in> seen then dedupe_from seen rs
      else r # dedupe_from (insert (rule_suffix r) seen) rs)"

definition dedupe_rules :: "dns_rule list \<Rightarrow> dns_rule list" where
  "dedupe_rules = dedupe_from {}"

section \<open>White space and fields\<close>

lemma space_at_prefix: "space_at s = None \<Longrightarrow> space_at (take k s) = None"
proof -
  assume n: "space_at s = None"
  show ?thesis
  proof (cases "space_at (take k s)")
    case (Some w)
    then have "w \<in> set white_spaces" and "has_prefix (take k s) w"
      by (auto simp: space_at_def find_Some_iff)
    then have "has_prefix s w" by (metis has_prefix_iff append_assoc append_take_drop_id)
    with n \<open>w \<in> set white_spaces\<close> show ?thesis
      by (auto simp: space_at_def find_None_iff)
  qed
qed

lemma trim_left_start: "space_at (trim_left s) = None"
proof (induction s rule: trim_left.induct)
  case (1 s)
  then show ?case by (subst trim_left.simps) (auto split: option.splits)
qed

lemma trim_right_prefix: "\<exists>k. trim_right s = take k s"
proof (induction s rule: trim_right.induct)
  case (1 s)
  show ?case
  proof (cases "space_end s")
    case None
    then show ?thesis by (subst trim_right.simps) (auto intro: exI [of _ "length s"])
  next
    case (Some w)
    from 1 [OF Some] obtain k where "trim_right (take (length s - length w) s) =
      take k (take (length s - length w) s)" by blast
    with Some show ?thesis
      by (subst trim_right.simps) (auto simp: min_def)
  qed
qed

lemma trim_space_start: "space_at (trim_space s) = None"
  unfolding trim_space_def
  by (metis trim_right_prefix trim_left_start space_at_prefix)

lemma fields_trim_space: "trim_space s \<noteq> [] \<Longrightarrow> str_fields (trim_space s) \<noteq> []"
  using trim_space_start [of s]
  by (simp add: str_fields_def fields_from.simps [of "[]" "trim_space s"] fields_from_cur)

section \<open>Properties of the rule lists\<close>

lemma parse_config_line_total: "parse_config_line ul file n l d \<noteq> Panic"
  using fields_trim_space [of l]
  by (auto simp: parse_config_line_def Let_def split: list.splits option.splits)

lemma load_lines_total: "load_lines ul file d n ls \<noteq> Panic"
  by (induction ls arbitrary: n)
     (simp_all add: obind_Panic parse_config_line_total)

definition good_rule :: "dns_rule \<Rightarrow> bool" where
  "good_rule r \<longleftrightarrow> rule_suffix r \<noteq> [] \<and> rule_ip r \<noteq> None"

lemma parse_config_line_good:
  "parse_config_line ul file n l d = Ok (Some r) \<Longrightarrow> good_rule r"
  by (auto simp: parse_config_line_def good_rule_def Let_def split: if_splits list.splits option.splits)

lemma load_lines_good: "load_lines ul file d n ls = Ok rs \<Longrightarrow> \<forall>r \<in> set rs. good_rule r"
  by (induction ls arbitrary: n rs)
     (auto simp: obind_Ok split: if_splits option.splits dest: parse_config_line_good)

lemma rules_from_suffixes_eq:
  "rules_from_suffixes ul ss d =
   map (\<lambda>n. \<lparr>rule_suffix = n, rule_ip = d\<rparr>) (filter (\<lambda>n. n \<noteq> []) (map (normalize_name ul) ss))"
  by (induction ss) (simp_all add: Let_def)

lemma sort_rules_set [simp]: "set (sort_rules rs) = set rs"
  by (simp add: sort_rules_def)

lemma sort_rules_mset: "mset (sort_rules rs) = mset rs"
  by (simp add: sort_rules_def)

lemma sort_rules_sorted:
  "sorted (map (\<lambda>r. - int (length (rule_suffix r))) (sort_rules rs))"
  by (simp add: sort_rules_def)

lemma sort_rules_stable:
  "filter (\<lambda>r. length (rule_suffix r) = k) (sort_rules rs) =
   filter (\<lambda>r. length (rule_suffix r) = k) rs"
proof -
  have "(\<lambda>r. length (rule_suffix r) = k) = (\<lambda>r. - int (length (rule_suffix r)) = - int k)"
    by auto
  then show ?thesis
    using sort_key_stable [of "\<lambda>r. - int (length (rule_suffix r))" "- int k" rs]
    by (simp add: sort_rules_def)
qed

lemma sort_rules_distinct:
  "distinct (map rule_suffix rs) \<Longrightarrow> distinct (map rule_suffix (sort_rules rs))"
  by (metis mset_map mset_eq_imp_distinct_iff sort_rules_mset)

lemma sort_rules_longest:
  "sorted_wrt (\<lambda>a b. length (rule_suffix b) \<le> length (rule_suffix a)) (sort_rules rs)"
  using sort_rules_sorted [of rs] by (simp add: sorted_map)

lemma dedupe_from_set: "set (dedupe_from seen rs) \<subseteq> set rs"
  by (induction rs arbitrary: seen) auto

lemma dedupe_from_suffixes:
  "rule_suffix ` set (dedupe_from seen rs) = rule_suffix ` set rs - seen"
  by (induction rs arbitrary: seen) auto

lemma dedupe_from_distinct: "distinct (map rule_suffix (dedupe_from seen rs))"
  by (induction rs arbitrary: seen) (auto simp: dedupe_from_suffixes)

text \<open>The rule kept for a name is the first one the list has for it.\<close>

lemma dedupe_from_find:
  "s \<notin> seen \<Longrightarrow>
   find (\<lambda>r. rule_suffix r = s) (dedupe_from seen rs) = find (\<lambda>r. rule_suffix r = s) rs"
  by (induction rs arbitrary: seen) auto

lemma dedupe_rules_distinct: "distinct (map rule_suffix (dedupe_rules rs))"
  by (simp add: dedupe_rules_def dedupe_from_distinct)

lemma dedupe_rules_find:
  "find (\<lambda>r. rule_suffix r = s) (dedupe_rules rs) = find (\<lambda>r. rule_suffix r = s) rs"
  by (simp add: dedupe_rules_def dedupe_from_find)

lemma find_distinct:
  "distinct (map k rs) \<Longrightarrow> r \<in> set rs \<Longrightarrow> find (\<lambda>x. k x = k r) rs = Some r"
  by (induction rs) (auto simp: image_iff)

lemma dedupe_rules_member:
  "r \<in> set (dedupe_rules rs) \<longleftrightarrow> find (\<lambda>x. rule_suffix x = rule_suffix r) rs = Some r"
proof
  assume "r \<in> set (dedupe_rules rs)"
  then show "find (\<lambda>x. rule_suffix x = rule_suffix r) rs = Some r"
    using find_distinct [OF dedupe_rules_distinct] by (metis dedupe_rules_find)
next
  assume "find (\<lambda>x. rule_suffix x = rule_suffix r) rs = Some r"
  then have "find (\<lambda>x. rule_suffix x = rule_suffix r) (dedupe_rules rs) = Some r"
    by (simp only: dedupe_rules_find)
  then show "r \<in> set (dedupe_rules rs)" by (auto simp: find_Some_iff)
qed

section \<open>Properties\<close>

text \<open>C37. Reading dns.config never panics; when it succeeds, every rule has a name and an address,
  so no line without a target slips through; and merging the rules keeps exactly the first
  rule of every name, longest suffix first, with equally long ones in their old order.\<close>

theorem config_rules_good:
  assumes "content \<noteq> Panic"
  shows "load_dns_config ul file content d \<noteq> Panic \<and>
    (case load_dns_config ul file content d of
       Ok rs \<Rightarrow> list_all good_rule rs \<and>
         distinct (map rule_suffix (sort_rules (dedupe_rules rs))) \<and>
         (\<forall>r. r \<in> set (sort_rules (dedupe_rules rs)) \<longleftrightarrow> find (\<lambda>x. rule_suffix x = rule_suffix r) rs = Some r) \<and>
         sorted_wrt (\<lambda>a b. length (rule_suffix b) \<le> length (rule_suffix a)) (sort_rules (dedupe_rules rs)) \<and>
         (\<forall>k. filter (\<lambda>r. length (rule_suffix r) = k) (sort_rules (dedupe_rules rs)) =
              filter (\<lambda>r. length (rule_suffix r) = k) (dedupe_rules rs))
     | _ \<Rightarrow> True)"
proof -
  have t: "load_dns_config ul file content d \<noteq> Panic"
    using assms load_lines_total by (auto simp: load_dns_config_def obind_Panic)
  show ?thesis
  proof (cases "load_dns_config ul file content d")
    case (Ok rs)
    then have "list_all good_rule rs"
      using load_lines_good by (auto simp: load_dns_config_def obind_Ok list_all_iff)
    moreover have "distinct (map rule_suffix (sort_rules (dedupe_rules rs)))"
      by (rule sort_rules_distinct [OF dedupe_rules_distinct])
    moreover have "sorted_wrt (\<lambda>a b. length (rule_suffix b) \<le> length (rule_suffix a)) (sort_rules (dedupe_rules rs))"
      by (rule sort_rules_longest)
    ultimately show ?thesis
      by (simp add: Ok dedupe_rules_member sort_rules_stable)
  qed (use t in simp_all)
qed

definition demo_config :: string where
  "demo_config = ''# redirect'' @ [CHR 0x0A] @ ''DNAS.playstation.org.'' @ [CHR 0x0A]
     @ ''a.jp 10.0.0.7''"

definition demo_config_rules :: "dns_rule list" where
  "demo_config_rules =
     [\<lparr>rule_suffix = ''dnas.playstation.org'', rule_ip = Some (ipv4 10 0 0 1)\<rparr>,
      \<lparr>rule_suffix = ''a.jp'', rule_ip = Some (ipv4 10 0 0 7)\<rparr>]"

lemma demo_lines: "raw_lines demo_config = [''# redirect'', ''DNAS.playstation.org.'', ''a.jp 10.0.0.7'']"
  by code_simp

lemma demo_words:
  "str_fields ''DNAS.playstation.org.'' = [''DNAS.playstation.org.'']"
  "str_fields ''a.jp 10.0.0.7'' = [''a.jp'', ''10.0.0.7'']"
  by (simp_all add: str_fields_def fields_from.simps space_at_def white_spaces_def has_prefix_def)

lemma four: "(4 :: nat) = Suc (Suc (Suc (Suc 0)))" by simp

lemma demo_ip: "parse_ip ''10.0.0.7'' = Some (ipv4 10 0 0 7)"
  by (simp add: parse_ip_def parse_ipv4_def ipv4_def four dtoi_def digit_val_def)

lemma demo_trim_0: "trim_space ''# redirect'' = ''# redirect''" by code_simp

lemma demo_trim_1: "trim_space ''DNAS.playstation.org.'' = ''DNAS.playstation.org.''" by code_simp

lemma demo_trim_2: "trim_space ''a.jp 10.0.0.7'' = ''a.jp 10.0.0.7''" by code_simp

lemma demo_trim_3: "trim_suffix ''# redirect'' [CHR 0x0D] = ''# redirect''" by code_simp

lemma demo_trim_4: "trim_suffix ''DNAS.playstation.org.'' [CHR 0x0D] = ''DNAS.playstation.org.''" by code_simp

lemma demo_trim_5: "trim_suffix ''a.jp 10.0.0.7'' [CHR 0x0D] = ''a.jp 10.0.0.7''" by code_simp

lemma demo_trim_6: "normalize_name (\<lambda>x. x) ''DNAS.playstation.org.'' = ''dnas.playstation.org''" by code_simp

lemma demo_trim_7: "normalize_name (\<lambda>x. x) ''a.jp'' = ''a.jp''" by code_simp

lemmas demo_trims = demo_trim_0 demo_trim_1 demo_trim_2 demo_trim_3 demo_trim_4 demo_trim_5 demo_trim_6 demo_trim_7

lemma demo_config_loaded:
  "load_dns_config (\<lambda>x. x) ''dns.config'' (Ok (bytes_of demo_config)) (Some (ipv4 10 0 0 1)) =
   Ok demo_config_rules"
  using demo_trims [simplified] demo_words [simplified] demo_ip [simplified]
  by (simp add: load_dns_config_def demo_lines [simplified] parse_config_line_def Let_def has_prefix_def
      max_line_def demo_config_rules_def)

theorem config_rules_good_witness:
  "list_all good_rule demo_config_rules \<and>
   distinct (map rule_suffix (sort_rules (dedupe_rules demo_config_rules)))"
  using config_rules_good [of "Ok (bytes_of demo_config)" "\<lambda>x. x" "''dns.config''" "Some (ipv4 10 0 0 1)"]
  by (simp add: demo_config_loaded)

end
