(* ===== verification/Rsa.thy ===== *)
theory Rsa
  imports Prelude
begin

text \<open>
  \<open>rsa.DecryptPKCS1v15\<close> of crypto/rsa (Go 1.19) as the handshake uses it: one modular
  exponentiation and the check of the block type 2 padding.
\<close>

record rsa_key =
  rsa_n :: nat
  rsa_d :: nat

text \<open>\<open>Exp(c, D, N)\<close> by squaring.\<close>

fun powmod :: "nat \<Rightarrow> nat \<Rightarrow> nat \<Rightarrow> nat" where
  "powmod b e m =
     (if e = 0 then 1 mod m
      else let h = powmod (b * b mod m) (e div 2) m
           in if odd e then b * h mod m else h)"

declare powmod.simps [simp del]

lemma powmod_eq: "powmod b e m = b ^ e mod m"
proof (induction b e m rule: powmod.induct)
  case (1 b e m)
  show ?case
  proof (cases "e = 0")
    case True
    then show ?thesis by (subst powmod.simps) simp
  next
    case False
    then have "powmod (b * b mod m) (e div 2) m = (b * b mod m) ^ (e div 2) mod m"
      by (rule 1)
    also have "\<dots> = (b * b) ^ (e div 2) mod m" by (rule power_mod)
    finally have h: "powmod (b * b mod m) (e div 2) m = (b * b) ^ (e div 2) mod m" .
    show ?thesis
    proof (cases "odd e")
      case True
      then obtain k where k: "e = 2 * k + 1" by (rule oddE)
      then have "b ^ e = b * (b * b) ^ (e div 2)"
        by (simp add: power_mult power2_eq_square)
      with False True h show ?thesis
        by (subst powmod.simps) (simp add: Let_def mod_mult_right_eq)
    next
      case even: False
      then obtain k where k: "e = 2 * k" by (auto elim: evenE)
      then have "b ^ e = (b * b) ^ (e div 2)" by (simp add: power_mult power2_eq_square)
      with False even h show ?thesis by (subst powmod.simps) (simp add: Let_def)
    qed
  qed
qed

fun be_nat :: "bytes \<Rightarrow> nat \<Rightarrow> nat" where
  "be_nat [] n = n"
| "be_nat (b # bs) n = be_nat bs (n * 256 + unat b)"

text \<open>The big-endian bytes of a number in a fixed width (\<open>FillBytes\<close>).\<close>

fun fill_bytes :: "nat \<Rightarrow> nat \<Rightarrow> bytes" where
  "fill_bytes 0 n = []"
| "fill_bytes (Suc k) n = fill_bytes k (n div 256) @ [of_nat n]"

lemma length_fill_bytes [simp, lens]: "length (fill_bytes k n) = k"
  by (induction k arbitrary: n) simp_all

text \<open>The modulus size in bytes.\<close>

fun byte_size :: "nat \<Rightarrow> nat" where
  "byte_size n = (if n = 0 then 0 else Suc (byte_size (n div 256)))"

declare byte_size.simps [simp del]

text \<open>
  The block is \<open>00 02 PS 00 M\<close> with at least eight bytes of \<open>PS\<close>: \<open>pkcs1_unpad\<close> is \<open>M\<close>.
\<close>

definition pkcs1_unpad :: "bytes \<Rightarrow> bytes option" where
  "pkcs1_unpad em =
     (case em of
        b0 # b1 # ps \<Rightarrow>
          (let k = length (takeWhile (\<lambda>b. b \<noteq> 0) ps)
           in if b0 = 0 \<and> b1 = 2 \<and> 8 \<le> k \<and> k < length ps then Some (drop (Suc k) ps) else None)
      | _ \<Rightarrow> None)"

definition rsa_decrypt :: "rsa_key \<Rightarrow> bytes \<Rightarrow> bytes option" where
  "rsa_decrypt priv enc =
     (let k = byte_size (rsa_n priv); c = be_nat enc 0
      in if k < 11 \<or> rsa_n priv < c then None
         else pkcs1_unpad (fill_bytes k (powmod c (rsa_d priv) (rsa_n priv))))"

text \<open>What the client's side does: \<open>rsa.EncryptPKCS1v15\<close> with the padding \<open>ps\<close>.\<close>

definition pkcs1_pad :: "bytes \<Rightarrow> bytes \<Rightarrow> bytes" where
  "pkcs1_pad ps m = 0 # 2 # ps @ 0 # m"

lemma pkcs1_unpad_pad:
  "0 \<notin> set ps \<Longrightarrow> 8 \<le> length ps \<Longrightarrow> pkcs1_unpad (pkcs1_pad ps m) = Some m"
proof -
  assume ps: "0 \<notin> set ps" "8 \<le> length ps"
  have "takeWhile (\<lambda>b. b \<noteq> 0) (ps @ 0 # m) = ps"
    using ps(1) by (subst takeWhile_append2) auto
  with ps(2) show ?thesis by (simp add: pkcs1_unpad_def pkcs1_pad_def Let_def)
qed

lemma fill_bytes_be_nat: "fill_bytes (length b) (be_nat b 0) = b"
proof (induction b rule: rev_induct)
  case (snoc x xs)
  have app: "be_nat (xs @ ys) n = be_nat ys (be_nat xs n)" for ys n
    by (induction xs arbitrary: n) simp_all
  have "(of_nat (be_nat xs 0 * 256 + unat x) :: byte) = x"
    by (simp add: word_unat_eq_iff unat_of_nat_byte del: of_nat_add of_nat_mult)
  with snoc show ?case by (simp add: app)
qed simp

text \<open>
  A client that encrypts with an exponent \<open>e\<close> inverse to \<open>D\<close> on this message gets its
  message back.
\<close>

lemma be_nat_bound: "be_nat b n < Suc n * 256 ^ length b"
proof (induction b arbitrary: n)
  case (Cons x b)
  have "n * 256 + unat x < n * 256 + 256" using unat_byte_less [of x] by (rule add_strict_left_mono)
  also have "n * 256 + 256 = Suc n * 256" by simp
  finally have "n * 256 + unat x < Suc n * 256" .
  then have "Suc (n * 256 + unat x) * 256 ^ length b \<le> (Suc n * 256) * 256 ^ length b"
    by (rule mult_right_mono [OF Suc_leI zero_le])
  then have "be_nat b (n * 256 + unat x) < (Suc n * 256) * 256 ^ length b"
    by (rule less_le_trans [OF Cons])
  then show ?case by (simp only: be_nat.simps list.size power_Suc add_0_right add_Suc_right mult.assoc)
qed simp

lemma rsa_decrypt_encrypt:
  assumes "0 \<notin> set ps" and "8 \<le> length ps"
    and "m = be_nat (pkcs1_pad ps msg) 0"
    and "byte_size (rsa_n priv) = length (pkcs1_pad ps msg)"
    and "be_nat enc 0 = m ^ e mod rsa_n priv"
    and "m ^ (e * rsa_d priv) mod rsa_n priv = m"
  shows "rsa_decrypt priv enc = Some msg"
proof -
  let ?n = "rsa_n priv"
  have k: "\<not> byte_size ?n < 11" using assms(2,4) by (simp add: pkcs1_pad_def)
  have n: "0 < ?n"
  proof (rule ccontr)
    assume "\<not> 0 < ?n"
    with k show False by (simp add: byte_size.simps)
  qed
  then have c: "\<not> ?n < be_nat enc 0" using assms(5) by (metis less_imp_not_less mod_less_divisor)
  have "powmod (be_nat enc 0) (rsa_d priv) ?n = m ^ (e * rsa_d priv) mod ?n"
    using assms(5) by (simp add: powmod_eq power_mod power_mult)
  then have "powmod (be_nat enc 0) (rsa_d priv) ?n = m" using assms(6) by simp
  then have "fill_bytes (byte_size ?n) (powmod (be_nat enc 0) (rsa_d priv) ?n) = pkcs1_pad ps msg"
    using assms(3,4) fill_bytes_be_nat [of "pkcs1_pad ps msg"] by simp
  then show ?thesis
    using k c assms(1,2) by (simp add: rsa_decrypt_def Let_def pkcs1_unpad_pad)
qed

end
