(* ===== verification/Hints.thy ===== *)
theory Hints
  imports GoNet Rsa
begin

text \<open>
  hints.go and the certificate choice: the redirector notes per client which DNAS region
  it resolved last, and the TLS side presents that region's certificate.  The locale
  \<open>hint_store\<close> is the interface between the two: what \<open>get\<close> returns after a \<open>set\<close>.
\<close>

section \<open>The store\<close>

record region_hint =
  hint_region :: string
  hint_at :: nat

type_synonym region_hints = "string \<rightharpoonup> region_hint"

definition new_region_hints :: region_hints where
  "new_region_hints = Map.empty"

text \<open>\<open>now\<close> is the clock reading; both operations hold the mutex for their whole body.\<close>

definition hints_set :: "nat \<Rightarrow> region_hints \<Rightarrow> string \<Rightarrow> string \<Rightarrow> region_hints" where
  "hints_set now h ip region = h(ip \<mapsto> \<lparr>hint_region = region, hint_at = now\<rparr>)"

definition hints_get :: "region_hints \<Rightarrow> string \<Rightarrow> region_hint option" where
  "hints_get h ip = h ip"

section \<open>The region of a name\<close>

definition dnas_suffix :: string where
  "dnas_suffix = ''.dnas.playstation.org''"

definition region_from_name :: "(string \<Rightarrow> string) \<Rightarrow> string \<Rightarrow> string option" where
  "region_from_name ul name0 =
     (let name = to_lower ul (trim_suffix name0 ''.'')
      in if \<not> has_suffix name dnas_suffix then None
         else let rest = trim_suffix name dnas_suffix
              in if rest = [] then None
                 else let region = after_last (CHR ''.'') rest
                      in if region = [] then None else Some region)"

section \<open>Certificates\<close>

text \<open>
  \<open>tls.Certificate\<close>: the DER chain, the private key (the handshake needs an RSA key) and
  the texts of the parsed leaf that the logs print.
\<close>

datatype private_key = RSAKey rsa_key | OtherKey

record leaf_info =
  leaf_cn :: string
  leaf_alg :: string
  leaf_not_before :: string
  leaf_not_after :: string

record certificate =
  cert_chain :: "bytes list"
  cert_key :: private_key
  cert_leaf :: "leaf_info option"

text \<open>
  \<open>certFor\<close>: \<open>hs\<close> is the hint store, \<open>None\<close> when DNS is disabled; \<open>ago\<close> renders the
  age of a hint.  \<open>None\<close> for the certificate is the nil pointer of a missing map entry.
\<close>

definition cert_for ::
  "(string \<rightharpoonup> certificate) \<Rightarrow> string \<Rightarrow> region_hints option \<Rightarrow> (nat \<Rightarrow> string) \<Rightarrow> string \<Rightarrow>
   certificate option \<times> string" where
  "cert_for certs default_region hs ago ip =
     (case (case hs of None \<Rightarrow> None | Some h \<Rightarrow> hints_get h ip) of
        Some h \<Rightarrow>
          (case certs (hint_region h) of
             Some cert \<Rightarrow>
               (Some cert, hint_region h @ '' certificate (DNS lookup '' @ ago (hint_at h) @ '' ago)'')
           | None \<Rightarrow>
               (certs default_region,
                default_region @ '' certificate (default; no certificate for DNS-resolved region ''
                  @ hint_region h @ '')''))
      | None \<Rightarrow>
          (certs default_region,
           default_region @ '' certificate (default; no DNS lookup seen from this client)''))"

definition client_ip :: "string \<Rightarrow> string" where
  "client_ip addr = (case split_host addr of Some host \<Rightarrow> host | None \<Rightarrow> addr)"

text \<open>
  \<open>appendChain\<close>: the CA certificates that the chain does not hold yet are added at its
  end, one by one, so a CA listed twice is added once.
\<close>

fun append_chain :: "bytes list \<Rightarrow> bytes list \<Rightarrow> bytes list" where
  "append_chain cert [] = cert"
| "append_chain cert (ca # chain) =
     append_chain (if ca \<in> set cert then cert else cert @ [ca]) chain"

section \<open>What the store promises\<close>

locale hint_store =
  fixes empty :: 'h
    and put :: "nat \<Rightarrow> 'h \<Rightarrow> string \<Rightarrow> string \<Rightarrow> 'h"
    and get :: "'h \<Rightarrow> string \<Rightarrow> region_hint option"
  assumes get_empty: "get empty ip = None"
    and get_put_same: "get (put t h ip r) ip = Some \<lparr>hint_region = r, hint_at = t\<rparr>"
    and get_put_other: "ip' \<noteq> ip \<Longrightarrow> get (put t h ip r) ip' = get h ip'"
begin

text \<open>
  A run of lookups, in the order the mutex serialises them: what a client's hint is
  depends on that client's own last lookup only.
\<close>

fun puts :: "'h \<Rightarrow> (nat \<times> string \<times> string) list \<Rightarrow> 'h" where
  "puts h [] = h"
| "puts h ((t, ip, r) # es) = puts (put t h ip r) es"

lemma puts_append: "puts h (es @ fs) = puts (puts h es) fs"
  by (induction h es rule: puts.induct) simp_all

lemma get_puts_other:
  "\<forall>(t, ip', r) \<in> set es. ip' \<noteq> ip \<Longrightarrow> get (puts h es) ip = get h ip"
  by (induction h es rule: puts.induct) (auto simp: get_put_other)

lemma get_puts_last:
  assumes "\<forall>(t', ip', r') \<in> set fs. ip' \<noteq> ip"
  shows "get (puts h (es @ (t, ip, r) # fs)) ip = Some \<lparr>hint_region = r, hint_at = t\<rparr>"
  using assms by (simp add: puts_append get_puts_other get_put_same)

end

interpretation hs: hint_store new_region_hints hints_set hints_get
  by unfold_locales (simp_all add: new_region_hints_def hints_set_def hints_get_def)

lemma cert_for_hint:
  "hints_get h ip = Some \<lparr>hint_region = r, hint_at = t\<rparr> \<Longrightarrow> certs r = Some c \<Longrightarrow>
   fst (cert_for certs d (Some h) ago ip) = Some c"
  by (simp add: cert_for_def)

lemma cert_for_default:
  "(case hs of None \<Rightarrow> True | Some h \<Rightarrow>
      case hints_get h ip of None \<Rightarrow> True | Some x \<Rightarrow> certs (hint_region x) = None) \<Longrightarrow>
   fst (cert_for certs d hs ago ip) = certs d"
  by (auto simp: cert_for_def split: option.splits)

text \<open>Main checks that the default region has a certificate; then there is always one.\<close>

lemma cert_for_some:
  "certs d \<noteq> None \<Longrightarrow> fst (cert_for certs d hs ago ip) \<noteq> None"
  by (auto simp: cert_for_def split: option.splits)

lemma region_from_name_host:
  assumes "list_all is_ascii (h @ r)" and "r \<noteq> []" and "CHR ''.'' \<notin> set r"
    and "map lower_char r = r"
  shows "region_from_name ul (h @ ''.'' @ r @ dnas_suffix) = Some r"
proof -
  let ?n = "h @ ''.'' @ r @ dnas_suffix"
  have t: "trim_suffix ?n ''.'' = ?n"
    by (simp add: trim_suffix_def has_suffix_last dnas_suffix_def)
  have "map lower_char dnas_suffix = dnas_suffix"
    by (simp add: dnas_suffix_def lower_char_def)
  moreover have "list_all is_ascii dnas_suffix" by (simp add: dnas_suffix_def is_ascii_def)
  ultimately have l: "to_lower ul ?n = (map lower_char h @ ''.'' @ r) @ dnas_suffix"
    using assms(1,4) by (simp add: to_lower_def is_ascii_def lower_char_def)
  have "has_suffix ((map lower_char h @ ''.'' @ r) @ dnas_suffix) dnas_suffix"
    by (auto simp only: has_suffix_iff)
  with assms(2,3) show ?thesis
    unfolding region_from_name_def t l Let_def by (simp only: trim_suffix_append) simp
qed

lemma region_from_name_nodot: "region_from_name ul n = Some r \<Longrightarrow> r \<noteq> [] \<and> CHR ''.'' \<notin> set r"
  by (auto simp: region_from_name_def Let_def after_last_no split: if_splits)

lemma append_chain_prefix: "\<exists>more. append_chain cert chain = cert @ more"
proof (induction cert chain rule: append_chain.induct)
  case (2 cert ca chain)
  then show ?case by (cases "ca \<in> set cert") auto
qed simp

lemma append_chain_set: "set (append_chain cert chain) = set cert \<union> set chain"
  by (induction cert chain rule: append_chain.induct) auto

lemma append_chain_distinct: "distinct cert \<Longrightarrow> distinct (append_chain cert chain)"
  by (induction cert chain rule: append_chain.induct) auto

lemma append_chain_known: "set chain \<subseteq> set cert \<Longrightarrow> append_chain cert chain = cert"
  by (induction cert chain rule: append_chain.induct) auto

end
