(* ===== verification/GoUrl.thy ===== *)
theory GoUrl
  imports GoNet
begin

text \<open>
  net/url: \<open>url.Parse\<close> as far as the proxy rules and the forwarded requests depend on it
  (scheme, authority with its port and its escapes, path, query, fragment), with the user
  information checked but not kept.  An error is \<open>None\<close>; the code never looks at which.
\<close>

record url =
  url_scheme :: string
  url_host :: string
  url_path :: string
  url_raw_query :: string
  url_fragment :: string
  url_opaque :: string

definition char_in :: "nat \<Rightarrow> nat \<Rightarrow> char \<Rightarrow> bool" where
  "char_in lo hi c \<longleftrightarrow> (let n = of_char c :: nat in lo \<le> n \<and> n \<le> hi)"

definition is_alpha :: "char \<Rightarrow> bool" where
  "is_alpha c \<longleftrightarrow> char_in 65 90 c \<or> char_in 97 122 c"

definition is_digit :: "char \<Rightarrow> bool" where
  "is_digit c \<longleftrightarrow> char_in 48 57 c"

section \<open>Escapes\<close>

datatype escape_mode = PathMode | UserMode | HostMode | ZoneMode | FragmentMode

text \<open>\<open>shouldEscape\<close> in the two modes of a host; only these decide what \<open>unescape\<close> refuses.\<close>

definition host_char :: "char \<Rightarrow> bool" where
  "host_char c \<longleftrightarrow> is_alpha c \<or> is_digit c \<or>
     c \<in> set ''!$&()*+,;=:[]<>-_.~'' \<or> c = CHR 0x27 \<or> c = CHR 0x22"

definition escape_ok :: "escape_mode \<Rightarrow> char \<Rightarrow> char \<Rightarrow> bool" where
  "escape_ok mode h l \<longleftrightarrow>
     (case (hex_val h, hex_val l) of
        (Some a, Some b) \<Rightarrow>
          (case mode of
             HostMode \<Rightarrow> \<not> (a < 8 \<and> [h, l] \<noteq> ''25'')
           | ZoneMode \<Rightarrow>
               [h, l] = ''25'' \<or> a * 16 + b = 0x20 \<or> host_char (char_of (a * 16 + b))
           | _ \<Rightarrow> True)
      | _ \<Rightarrow> False)"

definition plain_ok :: "escape_mode \<Rightarrow> char \<Rightarrow> bool" where
  "plain_ok mode c \<longleftrightarrow> \<not> ((mode = HostMode \<or> mode = ZoneMode) \<and> is_ascii c \<and> \<not> host_char c)"

fun unescape :: "escape_mode \<Rightarrow> string \<Rightarrow> string option" where
  "unescape mode [] = Some []"
| "unescape mode (c # s) =
     (if c = CHR ''%'' then
        (case s of
           h # l # rest \<Rightarrow>
             if escape_ok mode h l
             then map_option ((#) (char_of (the (hex_val h) * 16 + the (hex_val l)))) (unescape mode rest)
             else None
         | _ \<Rightarrow> None)
      else if plain_ok mode c then map_option ((#) c) (unescape mode s) else None)"

section \<open>Scheme and authority\<close>

datatype scheme_result = MissingScheme | NoScheme | Scheme string string

fun get_scheme_from :: "string \<Rightarrow> string \<Rightarrow> scheme_result" where
  "get_scheme_from pre [] = NoScheme"
| "get_scheme_from pre (c # s) =
     (if is_alpha c then get_scheme_from (pre @ [c]) s
      else if is_digit c \<or> c = CHR ''+'' \<or> c = CHR ''-'' \<or> c = CHR ''.'' then
        (if pre = [] then NoScheme else get_scheme_from (pre @ [c]) s)
      else if c = CHR '':'' then (if pre = [] then MissingScheme else Scheme pre s)
      else NoScheme)"

definition valid_optional_port :: "string \<Rightarrow> bool" where
  "valid_optional_port p \<longleftrightarrow> p = [] \<or> (hd p = CHR '':'' \<and> list_all is_digit (tl p))"

definition parse_host :: "string \<Rightarrow> string option" where
  "parse_host host =
     (if has_prefix host ''['' then
        (case last_index (CHR '']'') host of
           None \<Rightarrow> None
         | Some i \<Rightarrow>
             if \<not> valid_optional_port (drop (Suc i) host) then None
             else (case index_of (take i host) ''%25'' of
                     None \<Rightarrow> unescape HostMode host
                   | Some zone \<Rightarrow>
                       (case (unescape HostMode (take zone host), unescape ZoneMode (gslice zone i host),
                              unescape HostMode (drop i host)) of
                          (Some a, Some b, Some c) \<Rightarrow> Some (a @ b @ c)
                        | _ \<Rightarrow> None)))
      else (case last_index (CHR '':'') host of
              Some i \<Rightarrow>
                if valid_optional_port (drop i host) then unescape HostMode host else None
            | None \<Rightarrow> unescape HostMode host))"

definition valid_userinfo :: "string \<Rightarrow> bool" where
  "valid_userinfo s \<longleftrightarrow>
     list_all (\<lambda>c. is_alpha c \<or> is_digit c \<or> c \<in> set ''-._:~!$&()*+,;=%@'' \<or> c = CHR 0x27) s"

definition parse_authority :: "string \<Rightarrow> string option" where
  "parse_authority authority =
     (case last_index (CHR ''@'') authority of
        None \<Rightarrow> parse_host authority
      | Some i \<Rightarrow>
          (case parse_host (drop (Suc i) authority) of
             None \<Rightarrow> None
           | Some host \<Rightarrow>
               let userinfo = take i authority
               in if valid_userinfo userinfo \<and> unescape UserMode userinfo \<noteq> None
                  then Some host else None))"

section \<open>Parse\<close>

definition has_ctl :: "string \<Rightarrow> bool" where
  "has_ctl s \<longleftrightarrow> (\<exists>c \<in> set s. char_in 0 31 c \<or> c = CHR 0x7F)"

definition empty_url :: url where
  "empty_url = \<lparr>url_scheme = [], url_host = [], url_path = [], url_raw_query = [],
     url_fragment = [], url_opaque = []\<rparr>"

definition parse_rest :: "string \<Rightarrow> string \<Rightarrow> url option" where
  "parse_rest scheme rest0 =
     (let (rest, query) =
        (if has_suffix rest0 ''?'' \<and> length (filter (\<lambda>c. c = CHR ''?'') rest0) = 1
         then (butlast rest0, [])
         else (case str_cut rest0 ''?'' of None \<Rightarrow> (rest0, []) | Some p \<Rightarrow> p));
          u = empty_url\<lparr>url_scheme := scheme, url_raw_query := query\<rparr>
      in if \<not> has_prefix rest ''/'' \<and> scheme \<noteq> [] then Some (u\<lparr>url_opaque := rest\<rparr>)
         else if \<not> has_prefix rest ''/'' \<and>
           CHR '':'' \<in> set (case str_cut rest ''/'' of None \<Rightarrow> rest | Some (seg, _) \<Rightarrow> seg) then None
         else
           let (host, path) =
             (if (scheme \<noteq> [] \<or> \<not> has_prefix rest ''///'') \<and> has_prefix rest ''//'' then
                (let authority = drop 2 rest
                 in case index_of authority ''/'' of
                      Some i \<Rightarrow> (parse_authority (take i authority), drop i authority)
                    | None \<Rightarrow> (parse_authority authority, []))
              else (Some [], rest))
           in case (host, unescape PathMode path) of
                (Some h, Some p) \<Rightarrow> Some (u\<lparr>url_host := h, url_path := p\<rparr>)
              | _ \<Rightarrow> None)"

definition url_parse :: "string \<Rightarrow> url option" where
  "url_parse raw =
     (let (u, frag) = (case str_cut raw ''#'' of None \<Rightarrow> (raw, []) | Some p \<Rightarrow> p);
          parsed =
            (if has_ctl u then None
             else if u = ''*'' then Some (empty_url\<lparr>url_path := ''*''\<rparr>)
             else case get_scheme_from [] u of
                    MissingScheme \<Rightarrow> None
                  | NoScheme \<Rightarrow> parse_rest [] u
                  | Scheme sch rest \<Rightarrow> parse_rest (map lower_char sch) rest)
      in case parsed of
           None \<Rightarrow> None
         | Some p \<Rightarrow>
             if frag = [] then Some p
             else map_option (\<lambda>f. p\<lparr>url_fragment := f\<rparr>) (unescape FragmentMode frag))"

end
