(* ===== verification/Server.thy ===== *)
theory Server
  imports Config Hints GoUrl
begin

text \<open>
  https.go: the state the request handlers share.  The hint store is mutable and passed
  beside the record; the rest is fixed once the server runs.  The document root is read
  through \<open>file_system\<close>, what \<open>os.ReadFile\<close> gives for a path (\<open>None\<close>: an error).
\<close>

record proxy_rule =
  proxy_prefix :: string
  proxy_target :: url

record server =
  doc_root :: string
  srv_certs :: "string \<rightharpoonup> certificate"
  default_region :: string
  force_success :: success_mode
  srv_proxies :: "proxy_rule list"

type_synonym file_system = "string \<Rightarrow> bytes option"

definition read_file :: "file_system \<Rightarrow> string \<Rightarrow> bytes outcome" where
  "read_file fs p = (case fs p of None \<Rightarrow> Err (IOErr p) | Some b \<Rightarrow> Ok b)"

lemma read_file_simps [simp]:
  "read_file fs p \<noteq> Panic" "read_file fs p = Ok b \<longleftrightarrow> fs p = Some b"
  "read_file fs p \<noteq> Err ErrMalformed"
  by (auto simp: read_file_def split: option.splits)

lemma read_file_Err: "(\<exists>e. read_file fs p = Err e) \<longleftrightarrow> fs p = None"
  by (auto simp: read_file_def split: option.splits)

end
