(* ===== verification/Pem.thy ===== *)
theory Pem
  imports Base64 Server
begin

text \<open>
  encoding/pem of Go as the server and gencerts use it, and \<open>loadPEMCerts\<close> of https.go.
\<close>

section \<open>Reading\<close>

definition pem_start :: string where "pem_start = CHR 0x0A # ''-----BEGIN ''"
definition pem_end :: string where "pem_end = CHR 0x0A # ''-----END ''"
definition dashes :: string where "dashes = ''-----''"

definition blank :: "char \<Rightarrow> bool" where
  "blank c \<longleftrightarrow> c = CHR 0x20 \<or> c = CHR 0x09"

definition trim_blanks :: "string \<Rightarrow> string" where
  "trim_blanks s = rev (dropWhile blank (rev s))"

text \<open>\<open>getLine\<close>: a line without its end and trailing blanks, and what follows it.\<close>

definition get_line :: "string \<Rightarrow> string \<times> string" where
  "get_line s =
     (case str_cut s [CHR 0x0A] of
        None \<Rightarrow> (trim_blanks s, [])
      | Some (l, next) \<Rightarrow> (trim_blanks (trim_suffix l [CHR 0x0D]), next))"

lemma get_line_rest: "length (snd (get_line s)) \<le> length s - (if s = [] then 0 else 1)"
proof (cases "str_cut s [CHR 0x0A]")
  case (Some p)
  obtain l r where p: "p = (l, r)" by fastforce
  with str_cut_Some [of s "[CHR 0x0A]" l r] Some have "s = l @ CHR 0x0A # r" by simp
  with Some p show ?thesis by (simp add: get_line_def)
qed (simp add: get_line_def)

text \<open>The header loop: whether there was a header, and the text from the first other line on.\<close>

function pem_headers :: "bool \<Rightarrow> string \<Rightarrow> (bool \<times> string) option" where
  "pem_headers seen rest =
     (if rest = [] then None
      else case str_cut (fst (get_line rest)) '':'' of
             None \<Rightarrow> Some (seen, rest)
           | Some kv \<Rightarrow> pem_headers True (snd (get_line rest)))"
  by pat_completeness auto
termination
proof (relation "measure (\<lambda>(seen, rest). length rest)", goal_cases)
  case (2 seen rest)
  then show ?case using get_line_rest [of rest] by (cases rest) auto
qed simp

declare pem_headers.simps [simp del]

lemma pem_headers_rest: "pem_headers seen s = Some (b, r) \<Longrightarrow> length r \<le> length s"
proof (induction seen s rule: pem_headers.induct)
  case (1 seen rest)
  then show ?case
    using get_line_rest [of rest]
    by (subst (asm) (2) pem_headers.simps) (force split: if_splits option.splits)
qed

definition pem_begin :: "string \<Rightarrow> string option" where
  "pem_begin rest =
     (if has_prefix rest (tl pem_start) then Some (drop (length pem_start - 1) rest)
      else map_option snd (str_cut rest pem_start))"

lemma pem_begin_rest: "pem_begin s = Some r \<Longrightarrow> length r < length s"
  by (auto simp: pem_begin_def pem_start_def has_prefix_iff dest!: str_cut_Some split: if_splits)

text \<open>
  The block whose BEGIN line has been read: \<open>ty\<close> is its type, \<open>r3\<close> the text after its
  headers.  \<open>None\<close>: no valid block, the search goes on in \<open>r3\<close>.
\<close>

definition pem_block :: "string \<Rightarrow> bool \<Rightarrow> string \<Rightarrow> (bytes \<times> string) option" where
  "pem_block ty seen r3 =
     (case (if \<not> seen \<and> has_prefix r3 (tl pem_end) then Some (0, length pem_end - 1)
            else map_option (\<lambda>i. (i, i + length pem_end)) (index_of r3 pem_end)) of
        None \<Rightarrow> None
      | Some (e, t) \<Rightarrow>
          let trailer = drop t r3; n = length ty + length dashes in
          if length trailer < n then None
          else if \<not> has_prefix (take n trailer) ty \<or> \<not> has_suffix (take n trailer) dashes then None
          else if fst (get_line (drop n trailer)) \<noteq> [] then None
          else map_option (\<lambda>der. (der, snd (get_line (drop (e + length pem_end - 1) r3))))
                 (b64_decode (filter (\<lambda>c. \<not> blank c) (take e r3))))"

lemma pem_block_rest: "pem_block ty seen r3 = Some (der, r) \<Longrightarrow> length r \<le> length r3"
proof -
  assume "pem_block ty seen r3 = Some (der, r)"
  then obtain k where "r = snd (get_line (drop k r3))"
    unfolding pem_block_def Let_def by (auto split: option.splits if_splits)
  then show ?thesis using get_line_rest [of "drop k r3"] by simp
qed

text \<open>\<open>pem.Decode\<close>: the next valid block and the text after it.\<close>

function pem_decode :: "string \<Rightarrow> (string \<times> bytes \<times> string) option" where
  "pem_decode rest =
     (case pem_begin rest of
        None \<Rightarrow> None
      | Some r1 \<Rightarrow>
          if \<not> has_suffix (fst (get_line r1)) dashes then pem_decode (snd (get_line r1))
          else case pem_headers False (snd (get_line r1)) of
                 None \<Rightarrow> None
               | Some (seen, r3) \<Rightarrow>
                   (case pem_block (trim_suffix (fst (get_line r1)) dashes) seen r3 of
                      None \<Rightarrow> pem_decode r3
                    | Some (der, r) \<Rightarrow> Some (trim_suffix (fst (get_line r1)) dashes, der, r)))"
  by pat_completeness auto
termination
proof (relation "measure length", goal_cases)
  case (2 rest r1)
  then show ?case using pem_begin_rest [of rest r1] get_line_rest [of r1] by auto
next
  case (3 rest r1 p seen r3)
  then show ?case
    using pem_begin_rest [of rest r1] get_line_rest [of r1] pem_headers_rest [of False "snd (get_line r1)"]
    by fastforce
qed simp

declare pem_decode.simps [simp del]

lemma pem_decode_rest: "pem_decode s = Some (ty, der, r) \<Longrightarrow> length r < length s"
proof (induction s rule: pem_decode.induct)
  case (1 s)
  show ?case
  proof (cases "pem_begin s")
    case None
    with "1.prems" show ?thesis by (simp add: pem_decode.simps [of s])
  next
    case (Some r1)
    then have l1: "length r1 < length s" by (rule pem_begin_rest)
    have l2: "length (snd (get_line r1)) \<le> length r1" using get_line_rest [of r1] by auto
    show ?thesis
    proof (cases "has_suffix (fst (get_line r1)) dashes")
      case False
      with "1.IH"(1) [OF Some] "1.prems" Some l1 l2 show ?thesis by (simp add: pem_decode.simps [of s])
    next
      case True
      with "1.prems" Some obtain seen r3 where h: "pem_headers False (snd (get_line r1)) = Some (seen, r3)"
        by (auto simp: pem_decode.simps [of s] split: option.splits)
      then have l3: "length r3 \<le> length (snd (get_line r1))" by (rule pem_headers_rest)
      show ?thesis
      proof (cases "pem_block (trim_suffix (fst (get_line r1)) dashes) seen r3")
        case None
        with "1.IH"(2) [OF Some _ h refl] "1.prems" Some True h l1 l2 l3 show ?thesis
          by (simp add: pem_decode.simps [of s])
      next
        case (Some p)
        with "1.prems" \<open>pem_begin s = Some r1\<close> True h
        have "pem_block (trim_suffix (fst (get_line r1)) dashes) seen r3 = Some (der, r)"
          by (simp add: pem_decode.simps [of s] split: prod.splits)
        from pem_block_rest [OF this] l1 l2 l3 show ?thesis by simp
      qed
    qed
  qed
qed

section \<open>loadPEMCerts\<close>

definition certificate_type :: string where "certificate_type = ''CERTIFICATE''"

function pem_certs :: "string \<Rightarrow> bytes list" where
  "pem_certs raw =
     (case pem_decode raw of
        None \<Rightarrow> []
      | Some (ty, der, rest) \<Rightarrow> (if ty = certificate_type then [der] else []) @ pem_certs rest)"
  by pat_completeness auto
termination
  by (relation "measure length") (auto dest: pem_decode_rest)

declare pem_certs.simps [simp del]

definition load_pem_certs :: "file_system \<Rightarrow> string \<Rightarrow> bytes list outcome" where
  "load_pem_certs fs path =
     obind (read_file fs path) (\<lambda>raw.
       let certs = pem_certs (string_of raw)
       in if certs = [] then Err (NewErr ''no CERTIFICATE block found'') else Ok certs)"

section \<open>Writing\<close>

text \<open>\<open>pem.EncodeToMemory\<close> of a block without headers: base64 in lines of 64.\<close>

function pem_lines :: "string \<Rightarrow> string" where
  "pem_lines s = (if s = [] then [] else take 64 s @ [CHR 0x0A] @ pem_lines (drop 64 s))"
  by pat_completeness auto
termination by (relation "measure length") auto

declare pem_lines.simps [simp del]

definition pem_encode :: "string \<Rightarrow> bytes \<Rightarrow> string" where
  "pem_encode ty der =
     tl pem_start @ ty @ dashes @ [CHR 0x0A] @ pem_lines (b64_encode der)
       @ tl pem_end @ ty @ dashes @ [CHR 0x0A]"

section \<open>What is written is read\<close>

definition good_type :: "string \<Rightarrow> bool" where
  "good_type ty \<longleftrightarrow> CHR 0x0A \<notin> set ty \<and> CHR '':'' \<notin> set ty"

lemma str_cut_char: "c \<notin> set l \<Longrightarrow> str_cut (l @ c # s) [c] = Some (l, s)"
proof -
  assume "c \<notin> set l"
  then have "index_of (l @ c # s) [c] = Some (length l)"
    by (induction l) (auto simp: has_prefix_def)
  then show ?thesis by (simp add: str_cut_def)
qed

lemma str_cut_char_none: "c \<notin> set l \<Longrightarrow> str_cut l [c] = None"
proof -
  assume "c \<notin> set l"
  then have "index_of l [c] = None" by (induction l) (auto simp: has_prefix_def)
  then show ?thesis by (simp add: str_cut_def)
qed

lemma trim_blanks_id: "l = [] \<or> \<not> blank (last l) \<Longrightarrow> trim_blanks l = l"
  by (cases l rule: rev_cases) (simp_all add: trim_blanks_def)

lemma trim_cr_id: "l = [] \<or> last l \<noteq> CHR 0x0D \<Longrightarrow> trim_suffix l [CHR 0x0D] = l"
  by (auto simp: trim_suffix_def has_suffix_last)

lemma get_line_line:
  assumes "CHR 0x0A \<notin> set l" and "l = [] \<or> \<not> blank (last l) \<and> last l \<noteq> CHR 0x0D"
  shows "get_line (l @ CHR 0x0A # s) = (l, s)"
  using assms by (auto simp: get_line_def str_cut_char trim_cr_id trim_blanks_id)

lemma get_line_dashes:
  "CHR 0x0A \<notin> set l \<Longrightarrow> get_line (l @ dashes @ CHR 0x0A # s) = (l @ dashes, s)"
  using get_line_line [of "l @ dashes" s] by (simp add: dashes_def blank_def)

lemma pem_lines_shape:
  assumes "list_all b64_char s" and "s \<noteq> []"
  shows "\<exists>l. pem_lines s = l @ [CHR 0x0A] \<and> l \<noteq> [] \<and> CHR ''-'' \<notin> set l \<and> CHR '':'' \<notin> set l \<and>
    filter (\<lambda>c. c \<noteq> CHR 0x0A \<and> c \<noteq> CHR 0x0D) (filter (\<lambda>c. \<not> blank c) l) = s \<and>
    (\<exists>l1 t. l @ [CHR 0x0A] = l1 @ CHR 0x0A # t \<and> l1 \<noteq> [] \<and> list_all b64_char l1)"
  using assms
proof (induction s rule: pem_lines.induct)
  case (1 s)
  let ?l1 = "take 64 s"
  have l1: "list_all b64_char ?l1" "?l1 \<noteq> []"
    using "1.prems" by (auto simp: list_all_iff dest: in_set_takeD)
  then have c: "CHR ''-'' \<notin> set ?l1" "CHR '':'' \<notin> set ?l1"
    "filter (\<lambda>c. c \<noteq> CHR 0x0A \<and> c \<noteq> CHR 0x0D) (filter (\<lambda>c. \<not> blank c) ?l1) = ?l1"
    by (auto simp: list_all_iff b64_char_def blank_def intro!: filter_True)
  show ?case
  proof (cases "drop 64 s = []")
    case True
    then have "pem_lines s = ?l1 @ [CHR 0x0A]" "?l1 = s"
      using "1.prems"(2) by (simp_all add: pem_lines.simps [of s] pem_lines.simps [of "[]"])
    with l1 c show ?thesis by (intro exI [of _ ?l1]) auto
  next
    case False
    have "list_all b64_char (drop 64 s)"
      using "1.prems"(1) by (auto simp: list_all_iff dest: in_set_dropD)
    from "1.IH" [OF "1.prems"(2) this False] obtain l where l: "pem_lines (drop 64 s) = l @ [CHR 0x0A]"
      "CHR ''-'' \<notin> set l" "CHR '':'' \<notin> set l"
      "filter (\<lambda>c. c \<noteq> CHR 0x0A \<and> c \<noteq> CHR 0x0D) (filter (\<lambda>c. \<not> blank c) l) = drop 64 s" by blast
    have p: "pem_lines s = (?l1 @ CHR 0x0A # l) @ [CHR 0x0A]"
      using "1.prems"(2) l(1) by (simp add: pem_lines.simps [of s])
    have "filter (\<lambda>c. c \<noteq> CHR 0x0A \<and> c \<noteq> CHR 0x0D) (filter (\<lambda>c. \<not> blank c) (?l1 @ CHR 0x0A # l)) = ?l1 @ drop 64 s"
      using c(3) l(4) by simp
    with p c(1,2) l(2,3) l1 show ?thesis
      by (intro exI [of _ "?l1 @ CHR 0x0A # l"]) auto
  qed
qed

text \<open>The first place where an END line can be is the one after the base64 lines.\<close>

lemma index_of_end:
  "CHR ''-'' \<notin> set l \<Longrightarrow> index_of (l @ pem_end @ s) pem_end = Some (length l)"
proof (induction l)
  case Nil
  then show ?case by (simp add: pem_end_def has_prefix_def)
next
  case (Cons c l)
  have "\<not> has_prefix ((c # l) @ pem_end @ s) pem_end"
    using Cons.prems by (cases l) (auto simp: pem_end_def has_prefix_def)
  with Cons show ?case by simp
qed

lemma pem_block_tail:
  assumes "CHR 0x0A \<notin> set ty"
  shows "take (length ty + length dashes) (ty @ dashes @ CHR 0x0A # s) = ty @ dashes"
    and "drop (length ty + length dashes) (ty @ dashes @ CHR 0x0A # s) = CHR 0x0A # s"
    and "has_prefix (ty @ dashes) ty" and "has_suffix (ty @ dashes) dashes"
    and "get_line (CHR 0x0A # s) = ([], s)"
  using get_line_line [of "[]" s] by (auto simp: has_prefix_iff has_suffix_iff)

lemma pem_decode_encode:
  assumes "good_type ty"
  shows "pem_decode (pem_encode ty der @ tail_text) = Some (ty, der, tail_text)"
proof -
  have ty: "CHR 0x0A \<notin> set ty" "CHR '':'' \<notin> set ty" using assms by (simp_all add: good_type_def)
  define body where "body = pem_lines (b64_encode der) @ tl pem_end @ ty @ dashes @ CHR 0x0A # tail_text"
  have enc: "pem_encode ty der @ tail_text = tl pem_start @ ty @ dashes @ CHR 0x0A # body"
    by (simp add: pem_encode_def body_def)
  have b: "pem_begin (pem_encode ty der @ tail_text) = Some (ty @ dashes @ CHR 0x0A # body)"
    unfolding enc by (simp add: pem_begin_def has_prefix_def pem_start_def)
  have g: "get_line (ty @ dashes @ CHR 0x0A # body) = (ty @ dashes, body)"
    by (rule get_line_dashes [OF ty(1)])
  note tail = pem_block_tail [OF ty(1)]
  have "pem_headers False body = Some (False, body) \<and> pem_block ty False body = Some (der, tail_text)"
  proof (cases "der = []")
    case True
    then have body: "body = tl pem_end @ ty @ dashes @ CHR 0x0A # tail_text"
      by (simp add: body_def pem_lines.simps)
    have "get_line body = (tl pem_end @ ty @ dashes, tail_text)"
      using get_line_dashes [of "tl pem_end @ ty" tail_text] ty by (simp add: body pem_end_def)
    moreover have "str_cut (tl pem_end @ ty @ dashes) '':'' = None"
      by (rule str_cut_char_none) (use ty in \<open>simp add: pem_end_def dashes_def\<close>)
    ultimately have "pem_headers False body = Some (False, body)"
      by (subst pem_headers.simps) (simp add: body pem_end_def)
    moreover have "pem_block ty False body = Some (der, tail_text)"
    proof -
      have "has_prefix body (tl pem_end)" "drop (length pem_end - 1) body = ty @ dashes @ CHR 0x0A # tail_text"
        by (simp_all add: body has_prefix_iff pem_end_def)
      moreover from arg_cong [OF this(2), of length]
      have "\<not> length body - (length pem_end - 1) < length ty + length dashes" by simp
      ultimately show ?thesis
        using tail(1) [of tail_text] tail(2) [of tail_text] tail(3,4) tail(5) [of tail_text] get_line_dashes [OF ty(1), of tail_text] True
        by (simp add: pem_block_def Let_def b64_decode_def)
    qed
    ultimately show ?thesis by simp
  next
    case False
    then have "b64_encode der \<noteq> []" by (cases der rule: b64_encode.cases) (simp_all add: Let_def)
    from pem_lines_shape [OF b64_encode_chars this] obtain l l1 t where
      l: "pem_lines (b64_encode der) = l @ [CHR 0x0A]" "l \<noteq> []" "CHR ''-'' \<notin> set l"
        "filter (\<lambda>c. c \<noteq> CHR 0x0A \<and> c \<noteq> CHR 0x0D) (filter (\<lambda>c. \<not> blank c) l) = b64_encode der"
      and l1: "l @ [CHR 0x0A] = l1 @ CHR 0x0A # t" "l1 \<noteq> []" "list_all b64_char l1" by blast
    have body: "body = l @ pem_end @ ty @ dashes @ CHR 0x0A # tail_text"
      by (simp add: body_def l(1) pem_end_def)
    have body1: "body = l1 @ CHR 0x0A # t @ tl pem_end @ ty @ dashes @ CHR 0x0A # tail_text"
      using l1(1) by (simp add: body_def l(1))
    have c1: "CHR 0x0A \<notin> set l1" "CHR '':'' \<notin> set l1" "\<not> blank (last l1)" "last l1 \<noteq> CHR 0x0D"
      using l1(2,3) last_in_set [OF l1(2)] by (auto simp: list_all_iff b64_char_def blank_def)
    have "fst (get_line body) = l1"
      unfolding body1 using get_line_line [of l1] c1 by simp
    then have h: "pem_headers False body = Some (False, body)"
      using str_cut_char_none [OF c1(2)] l(2) by (subst pem_headers.simps) (simp add: body)
    have np: "\<not> has_prefix body (tl pem_end)"
      using l(2,3) by (cases l) (auto simp: body pem_end_def has_prefix_def)
    have i: "index_of body pem_end = Some (length l)" unfolding body by (rule index_of_end [OF l(3)])
    have d: "drop (length l + length pem_end) body = ty @ dashes @ CHR 0x0A # tail_text"
      by (simp add: body)
    have d1: "drop (length l + length pem_end - 1) body = (CHR 0x20 # ty) @ dashes @ CHR 0x0A # tail_text"
      by (simp add: body pem_end_def)
    have gl: "get_line ((CHR 0x20 # ty) @ dashes @ CHR 0x0A # tail_text) = ((CHR 0x20 # ty) @ dashes, tail_text)"
      by (rule get_line_dashes) (use ty(1) in simp)
    have dec: "b64_decode (filter (\<lambda>c. \<not> blank c) (take (length l) body)) = Some der"
      using b64_decode_lines [OF l(4)] by (simp add: body)
    have ln: "\<not> length body - (length l + length pem_end) < length ty + length dashes"
      using arg_cong [OF d, of length] by simp
    have "pem_block ty False body = Some (der, tail_text)"
      unfolding pem_block_def i option.map(2) d Let_def using np tail(1) [of tail_text] tail(2) [of tail_text] tail(3,4) tail(5) [of tail_text] d d1 gl dec ln
      by simp
    with h show ?thesis by simp
  qed
  with b g tail(4) show ?thesis
    by (subst pem_decode.simps) simp
qed

lemma pem_certs_encode:
  "pem_certs (concat (map (pem_encode certificate_type) ders) @ rest) = ders @ pem_certs rest"
proof (induction ders)
  case (Cons der ders)
  have "good_type certificate_type" by (simp add: good_type_def certificate_type_def)
  from pem_decode_encode [OF this, of der "concat (map (pem_encode certificate_type) ders) @ rest"] Cons
  show ?case by (subst pem_certs.simps) simp
qed simp

lemma pem_certs_Nil [simp]: "pem_certs [] = []"
proof -
  have "str_cut [] pem_start = None" by (simp add: str_cut_def pem_start_def)
  then have "pem_begin [] = None" by (simp add: pem_begin_def has_prefix_def pem_start_def)
  then show ?thesis by (simp add: pem_certs.simps [of "[]"] pem_decode.simps [of "[]"])
qed

end
