(* ===== verification/Gencerts.thy ===== *)
theory Gencerts
  imports Pem Rsa
begin

text \<open>
  tools/gencerts: the tool that issues the CA and the region certificates the server loads.
  The disk is an explicit state; crypto/x509 and the key generator are the parameter \<open>lib\<close>,
  the random bytes of the serial numbers are the parameter \<open>rnd\<close>.
\<close>

section \<open>The disk\<close>

text \<open>
  \<open>os.ReadFile\<close> and \<open>os.WriteFile\<close>: a file that is there may be unreadable; a failing write
  leaves whatever \<open>disk_write_fails\<close> says behind.
\<close>

record disk =
  disk_files :: file_system
  disk_unreadable :: "string \<Rightarrow> bool"
  disk_write_fails :: "string \<Rightarrow> bytes option option"

definition disk_read :: "disk \<Rightarrow> string \<Rightarrow> bytes outcome" where
  "disk_read d p =
     (if disk_unreadable d p then Err (IOErr p)
      else case disk_files d p of None \<Rightarrow> Err ErrNotExist | Some b \<Rightarrow> Ok b)"

definition disk_view :: "disk \<Rightarrow> file_system" where
  "disk_view d p = (if disk_unreadable d p then None else disk_files d p)"

definition disk_write :: "string \<Rightarrow> bytes \<Rightarrow> disk \<Rightarrow> unit outcome \<times> disk" where
  "disk_write p data d =
     (case disk_write_fails d p of
        None \<Rightarrow> (Ok (), d\<lparr>disk_files := (disk_files d)(p \<mapsto> data)\<rparr>)
      | Some left \<Rightarrow> (Err (IOErr p), d\<lparr>disk_files := (disk_files d)(p := left)\<rparr>))"

type_synonym 'a job = "disk \<Rightarrow> 'a outcome \<times> disk"

definition job_bind :: "'a job \<Rightarrow> ('a \<Rightarrow> 'b job) \<Rightarrow> 'b job" where
  "job_bind m f d =
     (case m d of (Ok x, d1) \<Rightarrow> f x d1 | (Err e, d1) \<Rightarrow> (Err e, d1) | (Panic, d1) \<Rightarrow> (Panic, d1))"

definition job_lift :: "'a outcome \<Rightarrow> 'a job" where
  "job_lift r d = (r, d)"

lemma job_bind_Ok:
  "job_bind m f d = (Ok y, d') \<longleftrightarrow> (\<exists>x d1. m d = (Ok x, d1) \<and> f x d1 = (Ok y, d'))"
  by (auto simp: job_bind_def split: prod.splits outcome.splits)

lemma job_lift_Ok: "job_lift r d = (Ok x, d') \<longleftrightarrow> r = Ok x \<and> d' = d"
  by (auto simp: job_lift_def)

section \<open>Keys and certificates\<close>

record pkix_name =
  pn_country :: "string list"
  pn_organization :: "string list"
  pn_unit :: "string list"
  pn_common :: string
  pn_extra :: "(nat list \<times> string) list"

datatype key_usage = KeyUsageCertSign | KeyUsageCRLSign | KeyUsageDigitalSignature | KeyUsageKeyEncipherment

text \<open>A time as year, month, day, hour, minute, second, in UTC.\<close>

type_synonym date = "nat \<times> nat \<times> nat \<times> nat \<times> nat \<times> nat"

text \<open>The fields of \<open>x509.Certificate\<close> that the tool sets; every template asks for SHA1WithRSA.\<close>

record cert_template =
  ct_serial :: nat
  ct_subject :: pkix_name
  ct_dns_names :: "string list"
  ct_not_before :: date
  ct_not_after :: date
  ct_is_ca :: bool
  ct_basic_constraints :: bool
  ct_key_usage :: "key_usage set"
  ct_server_auth :: bool

datatype 'c issuer = IssuerTemplate cert_template | IssuerCert 'c

text \<open>
  crypto/x509: \<open>lib_create\<close> is \<open>CreateCertificate\<close> with template, parent, public key and
  signing key; \<open>lib_pkcs8\<close> gives \<open>None\<close> for a key that is not RSA.
\<close>

record ('k, 'c) x509_lib =
  lib_pkcs1 :: "bytes \<Rightarrow> 'k outcome"
  lib_pkcs8 :: "bytes \<Rightarrow> 'k option outcome"
  lib_marshal :: "'k \<Rightarrow> bytes"
  lib_generate :: "'k outcome"
  lib_create :: "cert_template \<Rightarrow> 'c issuer \<Rightarrow> 'k \<Rightarrow> 'k \<Rightarrow> bytes outcome"
  lib_parse :: "bytes \<Rightarrow> 'c outcome"

definition not_before :: date where "not_before = (2000, 1, 1, 0, 0, 0)"
definition not_after :: date where "not_after = (2037, 12, 31, 23, 59, 59)"

definition ca_subject :: pkix_name where
  "ca_subject = \<lparr>pn_country = [''US''], pn_organization = [''VeriSign, Inc.''],
     pn_unit = [''Class 3 Public Primary Certification Authority''], pn_common = [], pn_extra = []\<rparr>"

fun region_hosts :: "string \<Rightarrow> string list" where
  "region_hosts region =
     (if region = ''jp'' then
        [''gate1.jp.dnas.playstation.org'', ''ts01.jp.dnas.playstation.org'',
         ''dnns-p01.jp.dnas.playstation.org'', ''dnns-r01.jp.dnas.playstation.org'',
         ''bbn01.jp.dnas.playstation.org'', ''bbn02.jp.dnas.playstation.org'']
      else if region = ''eu'' then
        [''gate1.eu.dnas.playstation.org'', ''ts01.eu.dnas.playstation.org'',
         ''dnns-p01.eu.dnas.playstation.org'', ''dnns-r01.eu.dnas.playstation.org'']
      else if region = ''us'' then
        [''gate1.us.dnas.playstation.org'', ''ts01.us.dnas.playstation.org'',
         ''dnns-p01.us.dnas.playstation.org'', ''dnns-r01.us.dnas.playstation.org'']
      else [])"

definition region_country :: "string \<Rightarrow> string" where
  "region_country region =
     (if region = ''jp'' then ''JP'' else if region = ''eu'' \<or> region = ''us'' then ''US'' else [])"

definition region_org :: "string \<Rightarrow> string" where
  "region_org region =
     (if region = ''jp'' \<or> region = ''us'' then ''Cyberpunks'' else if region = ''eu'' then ''cyberpunks'' else [])"

definition cert_serial :: "bytes \<Rightarrow> nat" where
  "cert_serial b = be_nat (b[0 := b ! 0 AND 0x7f]) 0"

definition ca_template :: "nat \<Rightarrow> cert_template" where
  "ca_template sn = \<lparr>ct_serial = sn, ct_subject = ca_subject, ct_dns_names = [],
     ct_not_before = not_before, ct_not_after = not_after, ct_is_ca = True,
     ct_basic_constraints = True, ct_key_usage = {KeyUsageCertSign, KeyUsageCRLSign},
     ct_server_auth = False\<rparr>"

text \<open>\<open>hosts[0]\<close>: every region of the tool has host names.\<close>

definition leaf_template :: "string \<Rightarrow> nat \<Rightarrow> cert_template" where
  "leaf_template region sn = \<lparr>ct_serial = sn,
     ct_subject = \<lparr>pn_country = [region_country region], pn_organization = [region_org region],
       pn_unit = [], pn_common = hd (region_hosts region),
       pn_extra = [([1, 2, 840, 113549, 1, 9, 1], ''the_fog@1337.rip'')]\<rparr>,
     ct_dns_names = region_hosts region, ct_not_before = not_before, ct_not_after = not_after,
     ct_is_ca = False, ct_basic_constraints = False,
     ct_key_usage = {KeyUsageDigitalSignature, KeyUsageKeyEncipherment}, ct_server_auth = True\<rparr>"

definition write_pem :: "string \<Rightarrow> string \<Rightarrow> bytes \<Rightarrow> unit job" where
  "write_pem path ty der = disk_write path (bytes_of (pem_encode ty der))"

definition load_rsa_key :: "('k, 'c) x509_lib \<Rightarrow> disk \<Rightarrow> string \<Rightarrow> 'k outcome" where
  "load_rsa_key lib d path =
     obind (disk_read d path) (\<lambda>raw.
     case pem_decode (string_of raw) of
       None \<Rightarrow> Err (NewErr ''no PEM block'')
     | Some (ty, der, rest) \<Rightarrow>
         (case lib_pkcs1 lib der of
            Ok key \<Rightarrow> Ok key
          | Panic \<Rightarrow> Panic
          | Err e1 \<Rightarrow>
              obind (lib_pkcs8 lib der) (\<lambda>k.
                case k of None \<Rightarrow> Err (NewErr ''not an RSA key'') | Some key \<Rightarrow> Ok key)))"

definition rsa_private_key_type :: string where "rsa_private_key_type = ''RSA PRIVATE KEY''"

definition load_or_create_ca_key :: "('k, 'c) x509_lib \<Rightarrow> string \<Rightarrow> 'k job" where
  "load_or_create_ca_key lib path d =
     (case load_rsa_key lib d path of
        Ok key \<Rightarrow> (Ok key, d)
      | Panic \<Rightarrow> (Panic, d)
      | Err e \<Rightarrow>
          if e \<noteq> ErrNotExist then (Err e, d)
          else job_bind (job_lift (lib_generate lib)) (\<lambda>key.
               job_bind (write_pem path rsa_private_key_type (lib_marshal lib key)) (\<lambda>_.
               job_lift (Ok key))) d)"

section \<open>The tool\<close>

definition tool_regions :: "string list" where "tool_regions = [''jp'', ''eu'', ''us'']"

definition cert_file :: "string \<Rightarrow> string" where "cert_file region = ''cert-'' @ region @ ''.pem''"
definition key_file :: "string \<Rightarrow> string" where "key_file region = ''cert-'' @ region @ ''-key.pem''"

definition issue_leaf ::
  "('k, 'c) x509_lib \<Rightarrow> bytes \<Rightarrow> string \<Rightarrow> 'c \<Rightarrow> 'k \<Rightarrow> string \<Rightarrow> unit job" where
  "issue_leaf lib rnd certdir ca_cert ca_key region d =
     job_bind (job_lift (load_rsa_key lib d (join_path [certdir, key_file region]))) (\<lambda>key.
     job_bind (job_lift (lib_create lib (leaf_template region (cert_serial rnd)) (IssuerCert ca_cert) key ca_key)) (\<lambda>der.
     write_pem (join_path [certdir, cert_file region]) certificate_type der)) d"

fun issue_leaves ::
  "('k, 'c) x509_lib \<Rightarrow> (nat \<Rightarrow> bytes) \<Rightarrow> nat \<Rightarrow> string \<Rightarrow> 'c \<Rightarrow> 'k \<Rightarrow> string list \<Rightarrow> unit job" where
  "issue_leaves lib rnd i certdir ca_cert ca_key [] = job_lift (Ok ())"
| "issue_leaves lib rnd i certdir ca_cert ca_key (r # rs) =
     job_bind (issue_leaf lib (rnd i) certdir ca_cert ca_key r)
       (\<lambda>_. issue_leaves lib rnd (Suc i) certdir ca_cert ca_key rs)"

text \<open>\<open>log.Fatal\<close> ends the tool: what was written before stays.\<close>

definition gencerts :: "('k, 'c) x509_lib \<Rightarrow> (nat \<Rightarrow> bytes) \<Rightarrow> string \<Rightarrow> unit job" where
  "gencerts lib rnd certdir =
     job_bind (load_or_create_ca_key lib (join_path [certdir, ''ca-key.pem''])) (\<lambda>ca_key.
     let tmpl = ca_template (cert_serial (rnd 0)) in
     job_bind (job_lift (lib_create lib tmpl (IssuerTemplate tmpl) ca_key ca_key)) (\<lambda>ca_der.
     job_bind (job_lift (lib_parse lib ca_der)) (\<lambda>ca_cert.
     job_bind (write_pem (join_path [certdir, ''ca-cert.pem'']) certificate_type ca_der) (\<lambda>_.
     issue_leaves lib rnd 1 certdir ca_cert ca_key tool_regions))))"

section \<open>Lemmas\<close>

lemma disk_write_Ok:
  "disk_write p data d = (Ok u, d') \<Longrightarrow> d' = d\<lparr>disk_files := (disk_files d)(p \<mapsto> data)\<rparr>"
  by (auto simp: disk_write_def split: option.splits)

lemma join_path_inj:
  assumes "root \<noteq> []" and "proper a" and "proper b"
  shows "join_path [root, a] = join_path [root, b] \<longleftrightarrow> a = b"
proof
  assume e: "join_path [root, a] = join_path [root, b]"
  have "elems (join_path [root, x]) = elems root @ [x]" if "proper x" for x
    using join_below [OF assms(1), of "[x]"] elems_clean_append [of "[x]" root] that by simp
  with e assms(2,3) show "a = b" by (metis append1_eq_conv)
qed simp

lemma cert_serial_bound:
  assumes "length b = 8"
  shows "cert_serial b < 2 ^ 63"
proof -
  from assms obtain x xs where b: "b = x # xs" "length xs = 7" by (cases b) auto
  have "unat (x AND 0x7f) < 128"
    using unat_byte_less word_and_le1 [of x "0x7f"] by (simp add: word_le_nat_alt)
  then have "Suc (unat (x AND 0x7f)) * 256 ^ 7 \<le> 128 * (256 ^ 7 :: nat)"
    by (intro mult_right_mono) simp_all
  moreover have "be_nat xs (unat (x AND 0x7f)) < Suc (unat (x AND 0x7f)) * 256 ^ 7"
    using be_nat_bound [of xs "unat (x AND 0x7f)"] b(2) by simp
  ultimately have "be_nat xs (unat (x AND 0x7f)) < 128 * 256 ^ 7" by linarith
  then show ?thesis by (simp add: cert_serial_def b)
qed

lemma load_rsa_key_cong:
  "disk_files d p = disk_files d' p \<Longrightarrow> disk_unreadable d p = disk_unreadable d' p \<Longrightarrow>
   load_rsa_key lib d p = load_rsa_key lib d' p"
  by (simp add: load_rsa_key_def disk_read_def)

lemma issue_leaf_Ok:
  assumes "issue_leaf lib b root cc ck r d = (Ok u, d')"
  obtains key der where "load_rsa_key lib d (join_path [root, key_file r]) = Ok key"
    and "lib_create lib (leaf_template r (cert_serial b)) (IssuerCert cc) key ck = Ok der"
    and "d' = d\<lparr>disk_files := (disk_files d)(join_path [root, cert_file r] \<mapsto> bytes_of (pem_encode certificate_type der))\<rparr>"
  using assms by (auto simp: issue_leaf_def job_bind_Ok job_lift_Ok write_pem_def dest!: disk_write_Ok)

text \<open>
  Every leaf is written under its own name; the keys are read before and after as they were
  at the beginning.
\<close>

lemma issue_leaves_Ok:
  "issue_leaves lib rnd i root cc ck rs d = (Ok u, d') \<Longrightarrow>
   inj_on (\<lambda>r. join_path [root, cert_file r]) (set rs) \<Longrightarrow> distinct rs \<Longrightarrow>
   (\<forall>r \<in> set rs. \<forall>r' \<in> set rs. join_path [root, key_file r] \<noteq> join_path [root, cert_file r']) \<Longrightarrow>
   disk_unreadable d' = disk_unreadable d \<and>
   (\<forall>p. p \<notin> (\<lambda>r. join_path [root, cert_file r]) ` set rs \<longrightarrow> disk_files d' p = disk_files d p) \<and>
   (\<forall>j < length rs. \<exists>key der. load_rsa_key lib d (join_path [root, key_file (rs ! j)]) = Ok key \<and>
      lib_create lib (leaf_template (rs ! j) (cert_serial (rnd (i + j)))) (IssuerCert cc) key ck = Ok der \<and>
      disk_files d' (join_path [root, cert_file (rs ! j)]) = Some (bytes_of (pem_encode certificate_type der)))"
proof (induction rs arbitrary: i d)
  case (Cons r rs)
  let ?cp = "\<lambda>r. join_path [root, cert_file r]" and ?kp = "\<lambda>r. join_path [root, key_file r]"
  from Cons.prems(1) obtain d1 where i1: "issue_leaf lib (rnd i) root cc ck r d = (Ok (), d1)"
    and i2: "issue_leaves lib rnd (Suc i) root cc ck rs d1 = (Ok u, d')"
    by (auto simp: job_bind_Ok)
  from issue_leaf_Ok [OF i1] obtain key der where key: "load_rsa_key lib d (?kp r) = Ok key"
    and der: "lib_create lib (leaf_template r (cert_serial (rnd i))) (IssuerCert cc) key ck = Ok der"
    and d1: "d1 = d\<lparr>disk_files := (disk_files d)(?cp r \<mapsto> bytes_of (pem_encode certificate_type der))\<rparr>" .
  have inj: "inj_on ?cp (set rs)" "?cp r \<notin> ?cp ` set rs"
    using Cons.prems(2,3) by (auto simp: inj_on_def)
  have IH: "disk_unreadable d' = disk_unreadable d1"
    "\<And>p. p \<notin> ?cp ` set rs \<Longrightarrow> disk_files d' p = disk_files d1 p"
    "\<And>j. j < length rs \<Longrightarrow> \<exists>key der. load_rsa_key lib d1 (?kp (rs ! j)) = Ok key \<and>
      lib_create lib (leaf_template (rs ! j) (cert_serial (rnd (Suc i + j)))) (IssuerCert cc) key ck = Ok der \<and>
      disk_files d' (?cp (rs ! j)) = Some (bytes_of (pem_encode certificate_type der))"
    using Cons.IH [OF i2 inj(1)] Cons.prems(3,4) by auto
  have same: "load_rsa_key lib d1 (?kp r') = load_rsa_key lib d (?kp r')" if "r' \<in> set rs" for r'
    using Cons.prems(4) that by (intro load_rsa_key_cong) (auto simp: d1)
  have "\<exists>key der. load_rsa_key lib d (?kp ((r # rs) ! j)) = Ok key \<and>
      lib_create lib (leaf_template ((r # rs) ! j) (cert_serial (rnd (i + j)))) (IssuerCert cc) key ck = Ok der \<and>
      disk_files d' (?cp ((r # rs) ! j)) = Some (bytes_of (pem_encode certificate_type der))"
    if "j < length (r # rs)" for j
  proof (cases j)
    case 0
    with key der IH(2) [OF inj(2)] show ?thesis by (simp add: d1)
  next
    case (Suc k)
    with that have "k < length rs" by simp
    from IH(3) [OF this] same [of "rs ! k"] this show ?thesis by (simp add: Suc)
  qed
  moreover have "disk_files d' p = disk_files d p" if "p \<notin> ?cp ` set (r # rs)" for p
    using IH(2) [of p] that by (simp add: d1)
  ultimately show ?case using IH(1) by (simp add: d1)
qed (simp add: job_lift_def)

lemma load_pem_certs_written:
  assumes "disk_files d p = Some (bytes_of (pem_encode certificate_type der))" and "\<not> disk_unreadable d p"
  shows "load_pem_certs (disk_view d) p = Ok [der]"
  using assms pem_certs_encode [of "[der]" "[]"]
  by (simp add: load_pem_certs_def read_file_def disk_view_def)

lemma tool_names:
  "list_all proper ([''ca-key.pem'', ''ca-cert.pem''] @ map cert_file tool_regions @ map key_file tool_regions)"
  "distinct ([''ca-key.pem'', ''ca-cert.pem''] @ map cert_file tool_regions @ map key_file tool_regions)"
  by (simp_all add: tool_regions_def cert_file_def key_file_def proper_def)

lemma load_or_create_Ok:
  assumes "load_or_create_ca_key lib path d = (Ok key, d')"
  shows "disk_unreadable d' = disk_unreadable d \<and> (\<forall>p. p \<noteq> path \<longrightarrow> disk_files d' p = disk_files d p) \<and>
    (if load_rsa_key lib d path = Ok key then disk_files d' path = disk_files d path
     else load_rsa_key lib d path = Err ErrNotExist \<and> lib_generate lib = Ok key \<and>
       disk_files d' path = Some (bytes_of (pem_encode rsa_private_key_type (lib_marshal lib key))))"
  using assms
  by (auto simp: load_or_create_ca_key_def job_bind_Ok job_lift_Ok write_pem_def dest!: disk_write_Ok
      split: outcome.splits if_splits)

section \<open>Properties\<close>

text \<open>C28. What gencerts writes the server reads: the PEM file of any certificates, one after the
  other, is loaded as exactly these certificates, byte for byte and in order.\<close>

theorem pem_round_trip:
  assumes "ders \<noteq> []" and "fs path = Some (bytes_of (concat (map (pem_encode certificate_type) ders)))"
  shows "load_pem_certs fs path = Ok ders"
  using assms pem_certs_encode [of ders "[]"] by (simp add: load_pem_certs_def read_file_def)

theorem pem_round_trip_witness:
  "load_pem_certs (\<lambda>_. Some (bytes_of (concat (map (pem_encode certificate_type) [[0x30, 1, 2], []])))) ''ca-cert.pem'' =
   Ok [[0x30, 1, 2], []]"
  by (rule pem_round_trip) simp_all

text \<open>C29. When the tool succeeds, its directory holds a set the server can load: the CA
  certificate, self-issued under the CA key, and for each region a certificate issued by it for
  the region's own key, which is left untouched; an existing CA key is reused unchanged, and a
  new one is written only when there was none.\<close>

theorem gencerts_certificates:
  assumes "gencerts lib rnd certdir d = (Ok (), d')" and "certdir \<noteq> []"
    and "disk_unreadable d = (\<lambda>_. False)"
  shows "\<exists>ca_key ca_der ca_cert.
    (if load_rsa_key lib d (join_path [certdir, ''ca-key.pem'']) = Ok ca_key
     then disk_files d' (join_path [certdir, ''ca-key.pem'']) = disk_files d (join_path [certdir, ''ca-key.pem''])
     else load_rsa_key lib d (join_path [certdir, ''ca-key.pem'']) = Err ErrNotExist \<and> lib_generate lib = Ok ca_key \<and>
       disk_files d' (join_path [certdir, ''ca-key.pem'']) =
         Some (bytes_of (pem_encode rsa_private_key_type (lib_marshal lib ca_key)))) \<and>
    lib_create lib (ca_template (cert_serial (rnd 0))) (IssuerTemplate (ca_template (cert_serial (rnd 0)))) ca_key ca_key = Ok ca_der \<and>
    lib_parse lib ca_der = Ok ca_cert \<and>
    load_pem_certs (disk_view d') (join_path [certdir, ''ca-cert.pem'']) = Ok [ca_der] \<and>
    list_all (\<lambda>(i, r). \<exists>key der. load_rsa_key lib d (join_path [certdir, key_file r]) = Ok key \<and>
        lib_create lib (leaf_template r (cert_serial (rnd i))) (IssuerCert ca_cert) key ca_key = Ok der \<and>
        load_pem_certs (disk_view d') (join_path [certdir, cert_file r]) = Ok [der] \<and>
        disk_files d' (join_path [certdir, key_file r]) = disk_files d (join_path [certdir, key_file r]))
      [(1, ''jp''), (2, ''eu''), (3, ''us'')]"
proof -
  let ?j = "\<lambda>f. join_path [certdir, f]"
  let ?t = "ca_template (cert_serial (rnd 0))"
  note inj = join_path_inj [OF assms(2)]
  from assms(1) obtain ca_key d1 ca_der ca_cert d2 where
    k: "load_or_create_ca_key lib (?j ''ca-key.pem'') d = (Ok ca_key, d1)"
    and c: "lib_create lib ?t (IssuerTemplate ?t) ca_key ca_key = Ok ca_der" "lib_parse lib ca_der = Ok ca_cert"
    and w: "write_pem (?j ''ca-cert.pem'') certificate_type ca_der d1 = (Ok (), d2)"
    and l: "issue_leaves lib rnd 1 certdir ca_cert ca_key tool_regions d2 = (Ok (), d')"
    by (auto simp: gencerts_def Let_def job_bind_Ok job_lift_Ok)
  note k = load_or_create_Ok [OF k]
  have d2: "d2 = d1\<lparr>disk_files := (disk_files d1)(?j ''ca-cert.pem'' \<mapsto> bytes_of (pem_encode certificate_type ca_der))\<rparr>"
    using w by (simp add: write_pem_def disk_write_Ok)
  have pr: "proper ''ca-key.pem''" "proper ''ca-cert.pem''"
    "\<And>r. r \<in> set tool_regions \<Longrightarrow> proper (cert_file r) \<and> proper (key_file r)"
    using tool_names(1) by (auto simp: list_all_iff)
  have ne: "''ca-key.pem'' \<noteq> ''ca-cert.pem''"
    "\<And>r r'. r \<in> set tool_regions \<Longrightarrow> r' \<in> set tool_regions \<Longrightarrow> key_file r \<noteq> cert_file r'"
    "\<And>r. r \<in> set tool_regions \<Longrightarrow> cert_file r \<notin> {''ca-key.pem'', ''ca-cert.pem''} \<and> key_file r \<notin> {''ca-key.pem'', ''ca-cert.pem''}"
    using tool_names(2) by (auto simp: image_iff)
  have icf: "inj_on (\<lambda>r. ?j (cert_file r)) (set tool_regions)"
    using inj pr(3) by (auto simp: inj_on_def cert_file_def)
  have kc: "\<forall>r \<in> set tool_regions. \<forall>r' \<in> set tool_regions. ?j (key_file r) \<noteq> ?j (cert_file r')"
    using inj pr(3) ne(2) by simp
  have "distinct tool_regions" by (simp add: tool_regions_def)
  note lv = issue_leaves_Ok [OF l icf this kc]
  have u: "\<not> disk_unreadable d' p" for p
    using lv k assms(3) by (simp add: d2)
  have keep: "disk_files d' (?j x) = disk_files d2 (?j x)"
    if "proper x" "x \<notin> cert_file ` set tool_regions" for x
    using lv inj [OF that(1)] pr(3) that(2) by (auto simp: image_iff)
  have key: "disk_files d2 (?j (key_file r)) = disk_files d (?j (key_file r))" if "r \<in> set tool_regions" for r
    using k inj pr that ne(3) [OF that] by (simp add: d2)
  have rd: "load_rsa_key lib d2 (?j (key_file r)) = load_rsa_key lib d (?j (key_file r))"
    if "r \<in> set tool_regions" for r
    using key [OF that] k by (intro load_rsa_key_cong) (simp_all add: d2)
  have leaf: "\<exists>key der. load_rsa_key lib d (?j (key_file r)) = Ok key \<and>
        lib_create lib (leaf_template r (cert_serial (rnd i))) (IssuerCert ca_cert) key ca_key = Ok der \<and>
        load_pem_certs (disk_view d') (?j (cert_file r)) = Ok [der] \<and>
        disk_files d' (?j (key_file r)) = disk_files d (?j (key_file r))"
    if "n < length tool_regions" and r: "r = tool_regions ! n" and "i = Suc n" for n r i
  proof -
    have m: "r \<in> set tool_regions" using that by simp
    from lv that obtain key der where "load_rsa_key lib d2 (?j (key_file r)) = Ok key"
      "lib_create lib (leaf_template r (cert_serial (rnd i))) (IssuerCert ca_cert) key ca_key = Ok der"
      "disk_files d' (?j (cert_file r)) = Some (bytes_of (pem_encode certificate_type der))" by auto
    moreover have "key_file r \<notin> cert_file ` set tool_regions" using ne(2) m by auto
    ultimately show ?thesis
      using rd [OF m] key [OF m] keep [of "key_file r"] pr(3) [OF m] load_pem_certs_written [OF _ u] by auto
  qed
  have ca: "''ca-cert.pem'' \<notin> cert_file ` set tool_regions" "''ca-key.pem'' \<notin> cert_file ` set tool_regions"
    by (auto simp: cert_file_def tool_regions_def)
  have "load_pem_certs (disk_view d') (?j ''ca-cert.pem'') = Ok [ca_der]"
    by (rule load_pem_certs_written [OF _ u]) (simp add: keep [OF pr(2) ca(1)] d2)
  moreover have "disk_files d' (?j ''ca-key.pem'') = disk_files d1 (?j ''ca-key.pem'')"
    using keep [OF pr(1) ca(2)] inj [OF pr(1,2)] by (simp add: d2)
  moreover have "list_all (\<lambda>(i, r). \<exists>key der. load_rsa_key lib d (?j (key_file r)) = Ok key \<and>
        lib_create lib (leaf_template r (cert_serial (rnd i))) (IssuerCert ca_cert) key ca_key = Ok der \<and>
        load_pem_certs (disk_view d') (?j (cert_file r)) = Ok [der] \<and>
        disk_files d' (?j (key_file r)) = disk_files d (?j (key_file r)))
      [(1, ''jp''), (2, ''eu''), (3, ''us'')]"
    unfolding list.pred_inject prod.case
    by (intro conjI TrueI leaf [of 0] leaf [of 1] leaf [of 2]) (simp_all add: tool_regions_def)
  moreover have "if load_rsa_key lib d (?j ''ca-key.pem'') = Ok ca_key
     then disk_files d1 (?j ''ca-key.pem'') = disk_files d (?j ''ca-key.pem'')
     else load_rsa_key lib d (?j ''ca-key.pem'') = Err ErrNotExist \<and> lib_generate lib = Ok ca_key \<and>
       disk_files d1 (?j ''ca-key.pem'') =
         Some (bytes_of (pem_encode rsa_private_key_type (lib_marshal lib ca_key)))"
    using k by (rule conjunct2 [OF conjunct2])
  ultimately show ?thesis
    using c by (intro exI [of _ ca_key] exI [of _ ca_der] exI [of _ ca_cert] conjI) simp_all
qed

definition demo_lib :: "(nat, unit) x509_lib" where
  "demo_lib = \<lparr>lib_pkcs1 = (\<lambda>der. Ok (length der)), lib_pkcs8 = (\<lambda>_. Ok None), lib_marshal = (\<lambda>_. [9]),
     lib_generate = Ok 7, lib_create = (\<lambda>t i k ck. Ok [of_nat (length (ct_dns_names t))]),
     lib_parse = (\<lambda>_. Ok ())\<rparr>"

definition demo_disk :: disk where
  "demo_disk = \<lparr>disk_files = (\<lambda>_. Some (bytes_of (pem_encode rsa_private_key_type [1, 2]))),
     disk_unreadable = (\<lambda>_. False), disk_write_fails = (\<lambda>_. None)\<rparr>"

lemma demo_key:
  "disk_files d p = Some (bytes_of (pem_encode rsa_private_key_type [1, 2])) \<Longrightarrow> \<not> disk_unreadable d p \<Longrightarrow>
   load_rsa_key demo_lib d p = Ok 2"
proof -
  have "good_type rsa_private_key_type" by (simp add: good_type_def rsa_private_key_type_def)
  from pem_decode_encode [OF this, of "[1, 2]" "[]"]
  show "disk_files d p = Some (bytes_of (pem_encode rsa_private_key_type [1, 2])) \<Longrightarrow> \<not> disk_unreadable d p \<Longrightarrow>
    load_rsa_key demo_lib d p = Ok 2"
    by (simp add: load_rsa_key_def disk_read_def demo_lib_def)
qed

lemma demo_paths:
  "join_path [''c'', ''ca-key.pem''] = ''c/ca-key.pem''" "join_path [''c'', ''ca-cert.pem''] = ''c/ca-cert.pem''"
  "join_path [''c'', key_file ''jp''] = ''c/cert-jp-key.pem''" "join_path [''c'', cert_file ''jp''] = ''c/cert-jp.pem''"
  "join_path [''c'', key_file ''eu''] = ''c/cert-eu-key.pem''" "join_path [''c'', cert_file ''eu''] = ''c/cert-eu.pem''"
  "join_path [''c'', key_file ''us''] = ''c/cert-us-key.pem''" "join_path [''c'', cert_file ''us''] = ''c/cert-us.pem''"
  by code_simp+

definition demo_ready :: "disk \<Rightarrow> bool" where
  "demo_ready d \<longleftrightarrow> disk_unreadable d = (\<lambda>_. False) \<and> disk_write_fails d = (\<lambda>_. None) \<and>
     list_all (\<lambda>r. disk_files d (join_path [''c'', key_file r]) =
       Some (bytes_of (pem_encode rsa_private_key_type [1, 2]))) tool_regions"

lemma demo_leaf:
  assumes "demo_ready d" and "r \<in> set tool_regions"
  shows "\<exists>d'. issue_leaf demo_lib b ''c'' () k r d = (Ok (), d') \<and> demo_ready d'"
proof -
  have "load_rsa_key demo_lib d (join_path [''c'', key_file r]) = Ok 2"
    by (rule demo_key) (use assms in \<open>auto simp: demo_ready_def list_all_iff\<close>)
  moreover have "lib_create demo_lib t i a c = Ok [of_nat (length (ct_dns_names t))]" for t i a c
    by (simp add: demo_lib_def)
  moreover have "demo_ready (d\<lparr>disk_files := (disk_files d)(join_path [''c'', cert_file r] \<mapsto> x)\<rparr>)" for x
    using assms demo_paths by (auto simp: demo_ready_def tool_regions_def)
  ultimately show ?thesis
    using assms(1) by (simp add: issue_leaf_def job_bind_def job_lift_def write_pem_def disk_write_def)
      (simp add: demo_ready_def)
qed

lemma demo_leaves:
  "demo_ready d \<Longrightarrow> set rs \<subseteq> set tool_regions \<Longrightarrow> \<exists>d'. issue_leaves demo_lib rnd i ''c'' () k rs d = (Ok (), d')"
proof (induction rs arbitrary: i d)
  case (Cons r rs)
  then obtain d1 where "issue_leaf demo_lib (rnd i) ''c'' () k r d = (Ok (), d1)" "demo_ready d1"
    using demo_leaf [of d r "rnd i" k] by auto
  with Cons.IH [of d1 "Suc i"] Cons.prems(2) show ?case by (simp add: job_bind_def)
qed (simp add: job_lift_def)

lemma demo_gencerts: "\<exists>d'. gencerts demo_lib (\<lambda>_. replicate 8 255) ''c'' demo_disk = (Ok (), d')"
proof -
  have k: "load_or_create_ca_key demo_lib p demo_disk = (Ok 2, demo_disk)" for p
    by (simp add: load_or_create_ca_key_def demo_key demo_disk_def)
  have "demo_ready (demo_disk\<lparr>disk_files := (disk_files demo_disk)(join_path [''c'', ''ca-cert.pem''] \<mapsto> x)\<rparr>)" for x
    using demo_paths by (auto simp: demo_ready_def tool_regions_def demo_disk_def)
  from demo_leaves [OF this order_refl]
  have "\<exists>d'. issue_leaves demo_lib rnd i ''c'' () k tool_regions
      (demo_disk\<lparr>disk_files := (disk_files demo_disk)(join_path [''c'', ''ca-cert.pem''] \<mapsto> x)\<rparr>) = (Ok (), d')" for rnd i k x
    by blast
  moreover have "lib_create demo_lib t i a c = Ok [of_nat (length (ct_dns_names t))]"
    "lib_parse demo_lib der = Ok ()" for t i a c der
    by (simp_all add: demo_lib_def)
  moreover have "disk_write_fails demo_disk p = None" for p by (simp add: demo_disk_def)
  ultimately show ?thesis
    by (simp add: gencerts_def job_bind_def job_lift_def k Let_def write_pem_def disk_write_def)
qed

theorem gencerts_certificates_witness:
  "\<exists>d' ca_der. gencerts demo_lib (\<lambda>_. replicate 8 255) ''c'' demo_disk = (Ok (), d') \<and>
     load_pem_certs (disk_view d') (join_path [''c'', ''ca-cert.pem'']) = Ok [ca_der]"
proof -
  obtain d' where d: "gencerts demo_lib (\<lambda>_. replicate 8 255) ''c'' demo_disk = (Ok (), d')"
    using demo_gencerts by blast
  have "disk_unreadable demo_disk = (\<lambda>_. False)" by (simp add: demo_disk_def)
  from gencerts_certificates [OF d _ this] d show ?thesis by auto
qed

end
