(* ===== verification/HttpText.thy ===== *)
theory HttpText
  imports GoStrings
begin

text \<open>
  The text of an HTTP head: lines without carriage returns joined by CRLF, and what the
  searching, splitting, trimming and field functions of Go do on them.  The parser and the
  reply forms of the server share these lemmas.
\<close>

section \<open>Visible characters\<close>

definition visible :: "char \<Rightarrow> bool" where
  "visible c \<longleftrightarrow> 33 \<le> (of_char c :: nat) \<and> (of_char c :: nat) \<le> 126"

abbreviation space :: char where
  "space \<equiv> CHR 0x20"

abbreviation cr :: char where
  "cr \<equiv> CHR 0x0D"

lemma white_spaces_ends:
  "\<forall>w \<in> set white_spaces. w \<noteq> [] \<and> \<not> visible (hd w) \<and> \<not> visible (last w)"
  by code_simp

lemma visible_not_cr: "list_all visible v \<Longrightarrow> cr \<notin> set v"
  by (auto simp: list_all_iff visible_def)

lemma space_at_visible: "visible c \<Longrightarrow> space_at (c # s) = None"
proof -
  assume c: "visible c"
  have "\<not> has_prefix (c # s) w" if "w \<in> set white_spaces" for w
    using white_spaces_ends that c by (cases w) (auto simp: has_prefix_iff)
  then show ?thesis by (simp add: space_at_def find_None_iff)
qed

lemma space_at_space: "space_at (space # s) = Some [space]"
  by (simp add: space_at_def white_spaces_def has_prefix_def)

lemma space_end_visible: "v \<noteq> [] \<Longrightarrow> visible (last v) \<Longrightarrow> space_end v = None"
proof -
  assume v: "v \<noteq> []" "visible (last v)"
  have "\<not> has_suffix v w" if "w \<in> set white_spaces" for w
    using white_spaces_ends that v by (auto simp: has_suffix_iff)
  then show ?thesis by (simp add: space_end_def find_None_iff)
qed

lemma trim_left_visible: "list_all visible v \<Longrightarrow> trim_left v = v"
  by (cases v) (simp_all add: trim_left.simps space_at_visible)

lemma trim_right_visible: "list_all visible v \<Longrightarrow> trim_right v = v"
proof (cases "v = []")
  case True
  then show ?thesis using space_end_Some [of v] by (cases "space_end v") (simp_all add: trim_right.simps)
next
  case False
  assume "list_all visible v"
  with False have "visible (last v)" by (simp add: list_all_iff)
  with False show ?thesis by (simp add: trim_right.simps space_end_visible)
qed

lemma trim_space_visible: "list_all visible v \<Longrightarrow> trim_space v = v"
  by (simp add: trim_space_def trim_left_visible trim_right_visible)

lemma trim_space_space: "list_all visible v \<Longrightarrow> trim_space (space # v) = v"
proof -
  assume v: "list_all visible v"
  have "trim_left (space # v) = trim_left v"
    by (subst trim_left.simps) (simp add: space_at_space)
  with v show ?thesis by (simp add: trim_space_def trim_left_visible trim_right_visible)
qed

lemma fields_from_visible:
  "list_all visible v \<Longrightarrow> fields_from cur (v @ s) = fields_from (cur @ v) s"
proof (induction v arbitrary: cur)
  case (Cons c v)
  then have "fields_from cur ((c # v) @ s) = fields_from (cur @ [c]) (v @ s)"
    by (subst fields_from.simps) (simp add: space_at_visible)
  with Cons show ?case by simp
qed simp

lemma fields_from_space:
  "cur \<noteq> [] \<Longrightarrow> fields_from cur (space # s) = cur # fields_from [] s"
  by (subst fields_from.simps) (simp add: space_at_space)

lemma fields_from_end: "cur \<noteq> [] \<Longrightarrow> fields_from cur [] = [cur]"
  by (simp add: fields_from.simps)

lemma str_fields_word:
  "list_all visible v \<Longrightarrow> v \<noteq> [] \<Longrightarrow> str_fields (v @ space # s) = v # str_fields s"
  by (simp add: str_fields_def fields_from_visible fields_from_space)

lemma str_fields_last: "list_all visible v \<Longrightarrow> v \<noteq> [] \<Longrightarrow> str_fields v = [v]"
  using fields_from_visible [of v "[]" "[]"] by (simp add: str_fields_def fields_from_end)

section \<open>Lines\<close>

lemma has_prefix_first:
  "p \<noteq> [] \<Longrightarrow> x \<noteq> hd p \<Longrightarrow> \<not> has_prefix (x # xs) p"
  by (cases p) (auto simp: has_prefix_iff)

lemma index_of_skip:
  "p \<noteq> [] \<Longrightarrow> hd p \<notin> set l \<Longrightarrow> index_of (l @ s) p = map_option ((+) (length l)) (index_of s p)"
proof (induction l)
  case Nil
  then show ?case by (cases "index_of s p") simp_all
next
  case (Cons x l)
  then have "\<not> has_prefix ((x # l) @ s) p" using has_prefix_first [of p x] by auto
  with Cons show ?case by (simp add: option.map_comp o_def)
qed

lemma index_of_append_some: "index_of s p = Some i \<Longrightarrow> index_of (s @ t) p = Some i"
proof (induction s arbitrary: i)
  case Nil
  then have "p = []" "i = 0" by (auto split: if_splits)
  then show ?case by (cases t) (simp_all add: has_prefix_def)
next
  case (Cons x s)
  show ?case
  proof (cases "has_prefix (x # s) p")
    case True
    then obtain u where "x # s = p @ u" by (auto simp: has_prefix_iff)
    then have "x # s @ t = p @ u @ t" by (metis append_Cons append_assoc)
    then have "has_prefix (x # s @ t) p" unfolding has_prefix_iff by blast
    with True Cons.prems show ?thesis by simp
  next
    case False
    with Cons.prems obtain j where j: "index_of s p = Some j" "i = Suc j" by auto
    have "\<not> has_prefix (x # s @ t) p"
    proof
      assume h: "has_prefix (x # s @ t) p"
      have "length p \<le> length s" using index_of_Some [OF j(1)] by simp
      then have "length p - length (x # s) = 0" by simp
      then have "take (length p) ((x # s) @ t) = take (length p) (x # s)" by (simp only: take_append take_0 append_Nil2)
      with h have "take (length p) (x # s) = p" by (simp add: has_prefix_def del: take_append)
      with False show False by (simp add: has_prefix_def)
    qed
    with j Cons.IH [OF j(1)] show ?thesis by simp
  qed
qed

lemma index_of_map: "inj f \<Longrightarrow> index_of (map f s) (map f p) = index_of s p"
proof (induction s)
  case (Cons x s)
  have "has_prefix (map f (x # s)) (map f p) = has_prefix (x # s) p"
    using Cons.prems by (simp add: has_prefix_def take_map inj_map_eq_map del: list.map)
  with Cons show ?case by simp
qed simp

lemma index_of_bytes: "index_of (bytes_of s) (bytes_of p) = index_of s p"
proof -
  have "inj (of_char :: char \<Rightarrow> byte)"
    by (rule inj_onI) (metis unat_of_char of_char_eq_iff)
  then show ?thesis by (simp add: bytes_of_def index_of_map)
qed

lemma crlf_simps [simp]: "crlf \<noteq> []" "hd crlf = cr" "length crlf = 2"
  by (simp_all add: crlf_def)

lemma str_cut_line: "cr \<notin> set l \<Longrightarrow> str_cut (l @ crlf @ s) crlf = Some (l, s)"
proof -
  assume l: "cr \<notin> set l"
  have "index_of (crlf @ s) crlf = Some 0" by (simp add: crlf_def has_prefix_def)
  with l have "index_of (l @ crlf @ s) crlf = Some (length l)" by (simp add: index_of_skip)
  then show ?thesis by (simp add: str_cut_def)
qed

lemma str_cut_no_line: "cr \<notin> set l \<Longrightarrow> str_cut l crlf = None"
  using index_of_skip [of crlf l "[]"] by (simp add: str_cut_def)

lemma split_on_lines:
  "ls \<noteq> [] \<Longrightarrow> \<forall>l \<in> set ls. cr \<notin> set l \<Longrightarrow> split_on (join ls crlf) crlf = ls"
proof (induction ls)
  case (Cons l ls)
  then show ?case
    by (cases "ls = []") (simp_all add: split_on.simps [of _ crlf] str_cut_no_line str_cut_line join_Cons)
qed simp

text \<open>The blank line after lines that are not blank is the first one.\<close>

lemma index_of_head:
  "ls \<noteq> [] \<Longrightarrow> \<forall>l \<in> set ls. cr \<notin> set l \<and> l \<noteq> [] \<Longrightarrow>
   index_of (join ls crlf @ crlf @ crlf @ s) (crlf @ crlf) = Some (length (join ls crlf))"
proof (induction ls)
  case (Cons l ls)
  have skip: "index_of (l @ t) (crlf @ crlf) = map_option ((+) (length l)) (index_of t (crlf @ crlf))" for t
    using Cons.prems(2) by (intro index_of_skip) simp_all
  show ?case
  proof (cases "ls = []")
    case True
    have "index_of (crlf @ crlf @ s) (crlf @ crlf) = Some 0" by (simp add: crlf_def has_prefix_def)
    then show ?thesis using True skip [of "crlf @ crlf @ s"] by simp
  next
    case False
    let ?t = "join ls crlf @ crlf @ crlf @ s"
    obtain m ms where ls: "ls = m # ms" using False by (cases ls) auto
    then obtain x xs where m: "m = x # xs" "x \<noteq> cr" using Cons.prems(2) by (cases m) auto
    have "join ls crlf = x # tl (join ls crlf)"
      by (cases ms) (simp_all add: ls m)
    then obtain u where u: "?t = x # u" by (metis append_Cons)
    have "index_of (crlf @ ?t) (crlf @ crlf) = map_option ((+) 2) (index_of ?t (crlf @ crlf))"
      using m(2) unfolding u by (simp add: crlf_def has_prefix_def option.map_comp o_def)
    also have "\<dots> = Some (2 + length (join ls crlf))" using Cons False by simp
    finally show ?thesis
      using False skip [of "crlf @ ?t"] by (simp add: join_Cons)
  qed
qed simp

end
