(* ===== verification/Http.thy ===== *)
theory Http
  imports GoUrl HttpText
begin

text \<open>
  tls10.go, the HTTP side without the connection: header fields as net/http keeps them,
  \<open>parseHTTPRequest\<close> on the bytes received so far, and the two reply forms.
\<close>

section \<open>Header fields\<close>

text \<open>\<open>http.Header\<close>: the values of each field in order; an absent key is \<open>None\<close>.\<close>

type_synonym http_header = "string \<rightharpoonup> string list"

definition upper_char :: "char \<Rightarrow> char" where
  "upper_char c = (if char_in 97 122 c then char_of ((of_char c :: nat) - 32) else c)"

text \<open>\<open>validHeaderFieldByte\<close>, which is also what a method may consist of (\<open>isTokenRune\<close>).\<close>

definition token_char :: "char \<Rightarrow> bool" where
  "token_char c \<longleftrightarrow> is_alpha c \<or> is_digit c \<or> c \<in> set ''!#$%&*+-.^_`|~'' \<or> c = CHR 0x27"

fun canonical_chars :: "bool \<Rightarrow> string \<Rightarrow> string" where
  "canonical_chars upper [] = []"
| "canonical_chars upper (c # s) =
     (let d = (if upper then upper_char c else lower_char c)
      in d # canonical_chars (d = CHR ''-'') s)"

definition canonical_key :: "string \<Rightarrow> string" where
  "canonical_key s = (if list_all token_char s then canonical_chars True s else s)"

definition header_values :: "http_header \<Rightarrow> string \<Rightarrow> string list" where
  "header_values h k = (case h k of None \<Rightarrow> [] | Some vs \<Rightarrow> vs)"

definition header_add :: "http_header \<Rightarrow> string \<Rightarrow> string \<Rightarrow> http_header" where
  "header_add h k v = h(canonical_key k \<mapsto> header_values h (canonical_key k) @ [v])"

definition header_set :: "http_header \<Rightarrow> string \<Rightarrow> string \<Rightarrow> http_header" where
  "header_set h k v = h(canonical_key k \<mapsto> [v])"

definition header_get :: "http_header \<Rightarrow> string \<Rightarrow> string" where
  "header_get h k = (case header_values h (canonical_key k) of [] \<Rightarrow> [] | v # _ \<Rightarrow> v)"

section \<open>Requests\<close>

record http_request =
  req_method :: string
  req_path :: string
  req_header :: http_header
  req_body :: bytes
  req_remote :: string

definition head_end :: bytes where
  "head_end = bytes_of (crlf @ crlf)"

fun add_lines :: "http_header \<Rightarrow> string list \<Rightarrow> http_header" where
  "add_lines h [] = h"
| "add_lines h (l # ls) =
     add_lines (case str_cut l '':'' of None \<Rightarrow> h
                | Some (k, v) \<Rightarrow> header_add h (trim_space k) (trim_space v)) ls"

text \<open>
  \<open>Ok None\<close>: not complete yet.  The slice of the body is out of range, a run-time panic,
  when the Content-Length is negative: the length check before it only rejects too long ones.
\<close>

definition parse_http_request :: "bytes \<Rightarrow> http_request option outcome" where
  "parse_http_request buf =
     (case index_of buf head_end of
        None \<Rightarrow> Ok None
      | Some idx \<Rightarrow>
          obind (go_upto (int idx) buf) (\<lambda>head.
          let lines = split_on (string_of head) crlf in
          obind (go_index 0 lines) (\<lambda>line.
          let parts = str_fields line in
          if length parts < 2 then Ok None
          else obind (go_from 1 lines) (\<lambda>field_lines.
          let header = add_lines Map.empty field_lines;
              content_len = atoi (header_get header ''Content-Length'');
              body_start = int idx + 4
          in if int (length buf) - body_start < content_len then Ok None
          else obind (go_index 0 parts) (\<lambda>meth.
          obind (go_index 1 parts) (\<lambda>path.
          obind (go_slice body_start (body_start + content_len) buf) (\<lambda>body.
          Ok (Some \<lparr>req_method = meth, req_path = path, req_header = header, req_body = body,
                    req_remote = []\<rparr>))))))))"

text \<open>All its slices but the last are in range.\<close>

lemma parse_http_request_eq:
  "parse_http_request buf =
     (case index_of buf head_end of
        None \<Rightarrow> Ok None
      | Some idx \<Rightarrow>
          let head = string_of (take idx buf);
              lines = split_on head crlf;
              parts = str_fields (hd lines)
          in if length parts < 2 then Ok None
             else
               let header = add_lines Map.empty (tl lines);
                   content_len = atoi (header_get header ''Content-Length'');
                   body_start = idx + 4
               in if int (length buf) - int body_start < content_len then Ok None
                  else if content_len < 0 then Panic
                  else Ok (Some \<lparr>req_method = parts ! 0, req_path = parts ! 1, req_header = header,
                         req_body = gslice body_start (body_start + nat content_len) buf,
                         req_remote = []\<rparr>))"
proof (cases "index_of buf head_end")
  case None
  then show ?thesis by (simp add: parse_http_request_def)
next
  case (Some idx)
  have l: "idx + 4 \<le> length buf" using index_of_Some [OF Some] by (simp add: head_end_def)
  define lines where "lines = split_on (string_of (take idx buf)) crlf"
  have u: "go_upto (int idx) buf = Ok (take idx buf)" using l by (intro go_upto_Ok) simp
  have ne: "lines \<noteq> []" by (simp add: lines_def split_on_nonempty crlf_def)
  then have h: "go_index 0 lines = Ok (hd lines)" "go_from 1 lines = Ok (tl lines)"
    using go_from_Ok [of 1 lines] by (auto simp: go_index_def hd_conv_nth drop_Suc Suc_le_eq)
  define parts where "parts = str_fields (hd lines)"
  define n where "n = atoi (header_get (add_lines Map.empty (tl lines)) ''Content-Length'')"
  note unf = parse_http_request_def Some option.case u obind.simps lines_def [symmetric] Let_def h
    parts_def [symmetric] n_def [symmetric]
  show ?thesis
  proof (cases "length parts < 2 \<or> int (length buf) - int (idx + 4) < n")
    case True
    then show ?thesis unfolding unf by (auto simp: of_nat_add)
  next
    case False
    have i: "go_index 0 parts = Ok (parts ! 0)" "go_index 1 parts = Ok (parts ! 1)"
      using False by (auto simp: go_index_def)
    have s: "go_slice (int idx + 4) (int idx + 4 + n) buf =
        (if n < 0 then Panic else Ok (gslice (idx + 4) (idx + 4 + nat n) buf))"
      using False by (auto simp: go_slice_def nat_add_distrib)
    have g: "(length parts < 2) = False" "(int (length buf) - (int idx + 4) < n) = False"
      "(int (length buf) - int (idx + 4) < n) = False"
      using False by simp_all
    show ?thesis unfolding unf g if_False i s by simp
  qed
qed

section \<open>Replies\<close>

definition http_response :: "string \<Rightarrow> bytes \<Rightarrow> bytes" where
  "http_response content_type body =
     bytes_of (''HTTP/1.0 200 OK'' @ crlf @ ''Content-Type: '' @ content_type @ crlf
       @ ''Content-Length: '' @ itoa (length body) @ crlf @ ''Connection: close'' @ crlf @ crlf) @ body"

definition http_status :: "string \<Rightarrow> bytes" where
  "http_status status =
     bytes_of (''HTTP/1.0 '' @ status @ crlf @ ''Content-Length: 0'' @ crlf
       @ ''Connection: close'' @ crlf @ crlf)"

section \<open>Requests as clients print them\<close>

definition field_line :: "string \<times> string \<Rightarrow> string" where
  "field_line kv = fst kv @ '': '' @ snd kv"

definition print_head :: "string \<Rightarrow> string \<Rightarrow> (string \<times> string) list \<Rightarrow> string" where
  "print_head meth path flds =
     join ((meth @ '' '' @ path @ '' HTTP/1.0'') # map field_line flds) crlf"

definition print_request :: "string \<Rightarrow> string \<Rightarrow> (string \<times> string) list \<Rightarrow> bytes \<Rightarrow> bytes" where
  "print_request meth path flds body =
     bytes_of (print_head meth path flds @ crlf @ crlf) @ body"

definition good_field :: "string \<times> string \<Rightarrow> bool" where
  "good_field kv \<longleftrightarrow> list_all visible (fst kv) \<and> CHR '':'' \<notin> set (fst kv) \<and> list_all visible (snd kv)"

definition header_of :: "(string \<times> string) list \<Rightarrow> http_header" where
  "header_of flds = fold (\<lambda>(k, v) h. header_add h k v) flds Map.empty"

lemma add_lines_fields:
  "list_all good_field flds \<Longrightarrow>
   add_lines h (map field_line flds) = fold (\<lambda>(k, v) h. header_add h k v) flds h"
proof (induction flds arbitrary: h)
  case (Cons kv flds)
  obtain k v where kv: "kv = (k, v)" by fastforce
  have g: "list_all visible k" "CHR '':'' \<notin> set k" "list_all visible v"
    using Cons.prems by (simp_all add: kv good_field_def)
  have "index_of (k @ CHR '':'' # space # v) '':'' = Some (length k)"
    using index_of_skip [of "'':''" k "CHR '':'' # space # v"] g(2) by (simp add: has_prefix_def)
  then have "str_cut (field_line kv) '':'' = Some (k, space # v)"
    by (simp add: field_line_def kv str_cut_def)
  then show ?case
    using Cons g by (simp add: kv trim_space_visible trim_space_space)
qed simp

lemma head_lines:
  assumes "list_all visible meth" "meth \<noteq> []" "list_all visible path" "path \<noteq> []"
    and "list_all good_field flds"
  defines "ls \<equiv> (meth @ '' '' @ path @ '' HTTP/1.0'') # map field_line flds"
  shows "\<forall>l \<in> set ls. cr \<notin> set l \<and> l \<noteq> []"
    and "split_on (print_head meth path flds) crlf = ls"
    and "index_of (bytes_of (print_head meth path flds @ crlf @ crlf) @ b) head_end =
      Some (length (print_head meth path flds))"
proof -
  have "cr \<notin> set (field_line kv) \<and> field_line kv \<noteq> []" if "kv \<in> set flds" for kv
    using assms(5) that visible_not_cr [of "fst kv"] visible_not_cr [of "snd kv"]
    by (auto simp: list_all_iff good_field_def field_line_def)
  then show l: "\<forall>l \<in> set ls. cr \<notin> set l \<and> l \<noteq> []"
    using visible_not_cr [OF assms(1)] visible_not_cr [OF assms(3)] by (auto simp: ls_def)
  then show "split_on (print_head meth path flds) crlf = ls"
    using split_on_lines [of ls] by (simp add: print_head_def ls_def)
  have "index_of (print_head meth path flds @ crlf @ crlf @ string_of b) (crlf @ crlf) =
      Some (length (print_head meth path flds))"
    using index_of_head [OF _ l, of "string_of b"] by (simp add: print_head_def ls_def)
  then show "index_of (bytes_of (print_head meth path flds @ crlf @ crlf) @ b) head_end =
      Some (length (print_head meth path flds))"
    using index_of_bytes [of "print_head meth path flds @ crlf @ crlf @ string_of b" "crlf @ crlf"]
    by (simp add: head_end_def)
qed

lemma request_line_fields:
  assumes "list_all visible meth" "meth \<noteq> []" "list_all visible path" "path \<noteq> []"
  shows "str_fields (meth @ '' '' @ path @ '' HTTP/1.0'') = [meth, path, ''HTTP/1.0'']"
  using str_fields_word [OF assms(1,2), of "path @ '' HTTP/1.0''"] str_fields_word [OF assms(3,4), of "''HTTP/1.0''"]
    str_fields_last [of "''HTTP/1.0''"]
  by (simp add: visible_def)

lemma parse_printed:
  assumes "list_all visible meth" "meth \<noteq> []" "list_all visible path" "path \<noteq> []"
    and "list_all good_field flds"
    and "atoi (header_get (header_of flds) ''Content-Length'') = int (length body)"
  shows "parse_http_request (print_request meth path flds (body @ rest)) =
    Ok (Some \<lparr>req_method = meth, req_path = path, req_header = header_of flds, req_body = body,
      req_remote = []\<rparr>)"
proof -
  define h where "h = print_head meth path flds"
  note l = head_lines [OF assms(1-5), folded h_def]
  have i: "index_of (print_request meth path flds (body @ rest)) head_end = Some (length h)"
    using l(3) [of "body @ rest"] by (simp add: print_request_def h_def)
  have t: "string_of (take (length h) (print_request meth path flds (body @ rest))) = h"
    by (simp add: print_request_def h_def)
  have f: "str_fields (hd (split_on h crlf)) = [meth, path, ''HTTP/1.0'']"
    using request_line_fields [OF assms(1-4)] by (simp add: l(2))
  have a: "add_lines Map.empty (tl (split_on h crlf)) = header_of flds"
    using add_lines_fields [OF assms(5), of Map.empty] by (simp add: l(2) header_of_def)
  have n: "length (print_request meth path flds (body @ rest)) = length h + 4 + length body + length rest"
    by (simp add: print_request_def h_def)
  have g: "gslice (length h + 4) (length h + 4 + length body) (print_request meth path flds (body @ rest)) = body"
    by (simp add: print_request_def h_def gslice_def)
  show ?thesis
    unfolding parse_http_request_eq i option.case t Let_def f a assms(6) n
    using g by simp
qed

section \<open>Growing buffers\<close>

lemma parse_http_request_append:
  assumes "parse_http_request buf = Ok (Some req)"
  shows "parse_http_request (buf @ extra) = Ok (Some req)"
proof -
  obtain idx where i: "index_of buf head_end = Some idx"
    using assms by (auto simp: parse_http_request_eq split: option.splits)
  have b: "idx + 4 \<le> length buf" using index_of_Some [OF i] by (simp add: head_end_def)
  have i2: "index_of (buf @ extra) head_end = Some idx" by (rule index_of_append_some [OF i])
  have t: "take idx (buf @ extra) = take idx buf" using b by simp
  have g: "gslice (idx + 4) (idx + 4 + nat n) (buf @ extra) = gslice (idx + 4) (idx + 4 + nat n) buf"
    if "\<not> int (length buf) - int (idx + 4) < n" for n
    using that b by (intro gslice_append_left) arith
  show ?thesis
    using assms i i2 t g
    by (auto simp: parse_http_request_eq Let_def split: if_splits)
qed

lemma parse_http_request_panic:
  "parse_http_request buf = Panic \<longleftrightarrow>
   (\<exists>idx lines. index_of buf head_end = Some idx \<and>
      lines = split_on (string_of (take idx buf)) crlf \<and> 2 \<le> length (str_fields (hd lines)) \<and>
      atoi (header_get (add_lines Map.empty (tl lines)) ''Content-Length'') < 0)"
proof (cases "index_of buf head_end")
  case None
  then show ?thesis by (simp add: parse_http_request_eq)
next
  case (Some idx)
  have "idx + 4 \<le> length buf" using index_of_Some [OF Some] by (simp add: head_end_def)
  then have "\<not> int (length buf) - int (idx + 4) < n" if "n < 0" for n using that by linarith
  then show ?thesis
    by (auto simp: parse_http_request_eq Let_def Some not_le)
qed

lemma parse_http_request_no_error: "parse_http_request buf \<noteq> Err e"
  by (simp add: parse_http_request_eq Let_def split: option.split)

lemma parse_panic_append:
  "parse_http_request buf = Panic \<Longrightarrow> parse_http_request (buf @ extra) = Panic"
proof -
  assume "parse_http_request buf = Panic"
  then obtain idx where i: "index_of buf head_end = Some idx"
    and p: "2 \<le> length (str_fields (hd (split_on (string_of (take idx buf)) crlf)))"
      "atoi (header_get (add_lines Map.empty (tl (split_on (string_of (take idx buf)) crlf))) ''Content-Length'') < 0"
    unfolding parse_http_request_panic by blast
  have "take idx (buf @ extra) = take idx buf" using index_of_Some [OF i] by simp
  with p index_of_append_some [OF i] show ?thesis
    unfolding parse_http_request_panic by (intro exI [of _ idx]) auto
qed

section \<open>Replies as clients cut them\<close>

definition cut_reply :: "bytes \<Rightarrow> (string list \<times> bytes) option" where
  "cut_reply b =
     (case index_of b head_end of
        None \<Rightarrow> None
      | Some i \<Rightarrow> Some (split_on (string_of (take i b)) crlf, drop (i + 4) b))"

lemma cut_reply_lines:
  assumes "ls \<noteq> []" and "\<forall>l \<in> set ls. cr \<notin> set l \<and> l \<noteq> []"
  shows "cut_reply (bytes_of (join ls crlf @ crlf @ crlf) @ body) = Some (ls, body)"
proof -
  have "index_of (join ls crlf @ crlf @ crlf @ string_of body) (crlf @ crlf) = Some (length (join ls crlf))"
    by (rule index_of_head [OF assms])
  then have "index_of (bytes_of (join ls crlf @ crlf @ crlf) @ body) head_end = Some (length (join ls crlf))"
    using index_of_bytes [of "join ls crlf @ crlf @ crlf @ string_of body" "crlf @ crlf"]
    by (simp add: head_end_def)
  then show ?thesis
    using split_on_lines [of ls] assms by (simp add: cut_reply_def)
qed

lemma itoa_no_cr: "cr \<notin> set (itoa n)"
proof
  assume "cr \<in> set (itoa n)"
  then obtain d :: nat where "d < 10" "cr = char_of (48 + d)"
    using itoa_digits [of cr n] by (auto simp: digit_char_def)
  then have "(of_char cr :: nat) = (48 + d) mod 256" by (simp only: of_char_of)
  with \<open>d < 10\<close> show False by simp
qed

section \<open>Properties\<close>

text \<open>C30. A request printed by a client, with any token method, any path, any fields without
  spaces, and a Content-Length that says how long its body is, is parsed back: method, path,
  fields under their canonical names, and the body without what follows it.\<close>

theorem request_round_trip:
  assumes "list_all visible meth" "meth \<noteq> []" "list_all visible path" "path \<noteq> []"
    and "list_all good_field flds"
    and "atoi (header_get (header_of flds) ''Content-Length'') = int (length body)"
  shows "parse_http_request (print_request meth path flds (body @ rest)) =
    Ok (Some \<lparr>req_method = meth, req_path = path, req_header = header_of flds, req_body = body,
      req_remote = []\<rparr>)"
  by (rule parse_printed [OF assms])

theorem request_round_trip_witness:
  "parse_http_request (print_request ''POST'' ''/us-gw/v2.5_others''
      [(''Host'', ''gate1''), (''content-length'', ''3'')] ([1, 2, 3] @ [9])) =
    Ok (Some \<lparr>req_method = ''POST'', req_path = ''/us-gw/v2.5_others'',
      req_header = header_of [(''Host'', ''gate1''), (''content-length'', ''3'')],
      req_body = [1, 2, 3], req_remote = []\<rparr>)"
  by (rule request_round_trip)
    (simp_all add: visible_def good_field_def, code_simp)

text \<open>A client that cuts a reply at the first blank line gets the status, the three header
  lines, among them the true length of the body, and the body byte for byte, whatever it holds.\<close>

lemma reply_cut:
  assumes "cr \<notin> set content_type"
  shows "cut_reply (http_response content_type body) =
    Some ([''HTTP/1.0 200 OK'', ''Content-Type: '' @ content_type,
           ''Content-Length: '' @ itoa (length body), ''Connection: close''], body)"
  using cut_reply_lines [of "[''HTTP/1.0 200 OK'', ''Content-Type: '' @ content_type,
      ''Content-Length: '' @ itoa (length body), ''Connection: close'']" body] assms itoa_no_cr
  by (simp add: http_response_def)

end
