(* ===== verification/Proxy.thy ===== *)
theory Proxy
  imports Http Server
begin

text \<open>
  proxy.go: the rules of the -proxy flag, the longest-prefix match, and the forwarding of
  one request to a backend.  The backend, the other end of the network, is a parameter.
\<close>

definition maxProxyBody :: nat where "maxProxyBody = 8 * 2 ^ 20"

definition hop_by_hop :: "string set" where
  "hop_by_hop = set [''Connection'', ''Keep-Alive'', ''Proxy-Authenticate'',
     ''Proxy-Authorization'', ''Proxy-Connection'', ''Te'', ''Trailer'', ''Transfer-Encoding'',
     ''Upgrade'', ''Content-Length'']"

section \<open>The rules\<close>

definition proxy_error :: "string \<Rightarrow> go_error" where
  "proxy_error v = FmtErr ''invalid -proxy %q (want /prefix=http://host[:port][/path])'' [v]"

definition target_error :: "string \<Rightarrow> go_error" where
  "target_error raw = FmtErr ''invalid -proxy target %q (want http://host[:port][/path])'' [raw]"

definition parse_proxy_rule :: "string \<Rightarrow> proxy_rule outcome" where
  "parse_proxy_rule v =
     (case str_cut v ''='' of
        None \<Rightarrow> Err (proxy_error v)
      | Some (pre, raw) \<Rightarrow>
          if \<not> has_prefix pre slash then Err (proxy_error v)
          else case url_parse raw of
            None \<Rightarrow> Err (target_error raw)
          | Some target \<Rightarrow>
              if (url_scheme target \<noteq> ''http'' \<and> url_scheme target \<noteq> ''https'')
                \<or> url_host target = [] \<or> url_raw_query target \<noteq> [] \<or> url_fragment target \<noteq> []
              then Err (target_error raw)
              else Ok \<lparr>proxy_prefix = pre,
                       proxy_target = target\<lparr>url_path := trim_suffix (url_path target) slash\<rparr>\<rparr>)"

fun parse_proxy_list :: "string list \<Rightarrow> proxy_rule list outcome" where
  "parse_proxy_list [] = Ok []"
| "parse_proxy_list (v # vs) =
     obind (parse_proxy_rule v) (\<lambda>r. obind (parse_proxy_list vs) (\<lambda>rs. Ok (r # rs)))"

definition sort_proxies :: "proxy_rule list \<Rightarrow> proxy_rule list" where
  "sort_proxies rules = sort_key (\<lambda>r. - int (length (proxy_prefix r))) rules"

definition parse_proxy_rules :: "string list \<Rightarrow> proxy_rule list outcome" where
  "parse_proxy_rules values = obind (parse_proxy_list values) (\<lambda>rs. Ok (sort_proxies rs))"

fun proxy_for :: "proxy_rule list \<Rightarrow> string \<Rightarrow> proxy_rule option" where
  "proxy_for [] url = None"
| "proxy_for (r # rs) url = (if has_prefix url (proxy_prefix r) then Some r else proxy_for rs url)"

section \<open>Forwarding\<close>

text \<open>
  What the client of net/http is handed, and what comes back: an error, or a status, the
  header fields in the order the range over the map visits them, the body up to its end
  or to a read error.
\<close>

record out_request =
  out_method :: string
  out_url :: url
  out_header :: http_header
  out_host :: string
  out_body :: bytes

record backend_response =
  resp_status :: string
  resp_header :: "(string \<times> string list) list"
  resp_body :: bytes
  resp_body_fails :: bool

type_synonym backend = "out_request \<Rightarrow> backend_response option"

text \<open>\<open>http.NewRequest\<close>: the method must be a token and the URL must parse.\<close>

definition remove_empty_port :: "string \<Rightarrow> string" where
  "remove_empty_port host =
     (case last_index (CHR '':'') host of
        Some i \<Rightarrow>
          if (case last_index (CHR '']'') host of None \<Rightarrow> True | Some j \<Rightarrow> j < i)
          then trim_suffix host '':'' else host
      | None \<Rightarrow> host)"

definition new_request :: "string \<Rightarrow> string \<Rightarrow> bytes \<Rightarrow> out_request option" where
  "new_request method raw body =
     (let m = (if method = [] then ''GET'' else method)
      in if \<not> list_all token_char m then None
         else case url_parse raw of
           None \<Rightarrow> None
         | Some u \<Rightarrow>
             let u' = u\<lparr>url_host := remove_empty_port (url_host u)\<rparr>
             in Some \<lparr>out_method = m, out_url = u', out_header = Map.empty,
                      out_host = url_host u', out_body = body\<rparr>)"

definition forward_header :: "http_header \<Rightarrow> string \<Rightarrow> http_header" where
  "forward_header h remote =
     (let copied = (\<lambda>k. if k \<in> hop_by_hop then None else h k);
          forwarded = (if remote \<noteq> [] then header_add copied ''X-Forwarded-For'' remote else copied)
      in header_set forwarded ''X-Forwarded-Proto'' ''https'')"

definition reply_head :: "backend_response \<Rightarrow> nat \<Rightarrow> string" where
  "reply_head resp n =
     ''HTTP/1.0 '' @ resp_status resp @ crlf
     @ concat (map (\<lambda>(k, vs). if k \<in> hop_by_hop then []
                       else concat (map (\<lambda>v. k @ '': '' @ v @ crlf) vs)) (resp_header resp))
     @ ''Content-Length: '' @ itoa n @ crlf @ ''Connection: close'' @ crlf @ crlf"

definition proxy_url :: "url \<Rightarrow> string \<Rightarrow> string" where
  "proxy_url t path = url_scheme t @ ''://'' @ url_host t @ url_path t @ path"

definition proxy :: "backend \<Rightarrow> proxy_rule \<Rightarrow> http_request \<Rightarrow> bytes" where
  "proxy backend rule req =
     (case new_request (req_method req) (proxy_url (proxy_target rule) (req_path req)) (req_body req) of
        None \<Rightarrow> http_status ''400 Bad Request''
      | Some out0 \<Rightarrow>
          let out = out0\<lparr>out_header := forward_header (req_header req) (req_remote req),
                         out_host := header_get (req_header req) ''Host''\<rparr>
          in case backend out of
               None \<Rightarrow> http_status ''502 Bad Gateway''
             | Some resp \<Rightarrow>
                 let body = take (maxProxyBody + 1) (resp_body resp)
                 in if length body > maxProxyBody \<or> resp_body_fails resp
                    then http_status ''502 Bad Gateway''
                    else bytes_of (reply_head resp (length body)) @ body)"

section \<open>The rules\<close>

definition good_rule :: "proxy_rule \<Rightarrow> bool" where
  "good_rule r \<longleftrightarrow> has_prefix (proxy_prefix r) slash \<and>
     (url_scheme (proxy_target r) = ''http'' \<or> url_scheme (proxy_target r) = ''https'') \<and>
     url_host (proxy_target r) \<noteq> [] \<and> url_raw_query (proxy_target r) = [] \<and>
     url_fragment (proxy_target r) = []"

lemma parse_proxy_rule_good: "parse_proxy_rule v = Ok r \<Longrightarrow> good_rule r"
  by (auto simp: parse_proxy_rule_def good_rule_def split: option.splits if_splits)

lemma parse_proxy_rule_total: "parse_proxy_rule v \<noteq> Panic"
  by (simp add: parse_proxy_rule_def split: option.split)

lemma parse_proxy_list_good: "parse_proxy_list vs = Ok rs \<Longrightarrow> list_all good_rule rs \<and> length rs = length vs"
  by (induction vs arbitrary: rs) (auto simp: obind_Ok parse_proxy_rule_good)

lemma parse_proxy_list_total: "parse_proxy_list vs \<noteq> Panic"
  by (induction vs) (auto simp: obind_Panic parse_proxy_rule_total)

definition longest_first :: "proxy_rule list \<Rightarrow> bool" where
  "longest_first rs \<longleftrightarrow> sorted_wrt (\<lambda>r r'. length (proxy_prefix r') \<le> length (proxy_prefix r)) rs"

lemma sort_proxies_longest_first: "longest_first (sort_proxies rs)"
proof -
  have "sorted (map (\<lambda>r. - int (length (proxy_prefix r))) (sort_proxies rs))"
    unfolding sort_proxies_def by (rule sorted_sort_key)
  then show ?thesis by (simp add: longest_first_def sorted_map)
qed

lemma proxy_for_Some:
  "longest_first rs \<Longrightarrow> proxy_for rs u = Some r \<Longrightarrow>
   r \<in> set rs \<and> has_prefix u (proxy_prefix r) \<and>
   (\<forall>r' \<in> set rs. has_prefix u (proxy_prefix r') \<longrightarrow> length (proxy_prefix r') \<le> length (proxy_prefix r))"
  by (induction rs) (auto simp: longest_first_def split: if_splits)

lemma proxy_for_None: "proxy_for rs u = None \<longleftrightarrow> (\<forall>r \<in> set rs. \<not> has_prefix u (proxy_prefix r))"
  by (induction rs) auto

section \<open>Header fields on their way\<close>

lemma canonical_forwarded:
  "canonical_key ''X-Forwarded-For'' = ''X-Forwarded-For''"
  "canonical_key ''X-Forwarded-Proto'' = ''X-Forwarded-Proto''"
  by code_simp+

lemma forward_header_pointwise:
  "forward_header h remote k =
   (if k = ''X-Forwarded-Proto'' then Some [''https'']
    else if k = ''X-Forwarded-For'' \<and> remote \<noteq> [] then Some (header_values h k @ [remote])
    else if k \<in> hop_by_hop then None else h k)"
proof -
  have "''X-Forwarded-For'' \<notin> hop_by_hop" by code_simp
  then show ?thesis
    by (simp add: forward_header_def Let_def header_set_def header_add_def canonical_forwarded header_values_def)
qed

definition reply_lines :: "backend_response \<Rightarrow> nat \<Rightarrow> string list" where
  "reply_lines resp n =
     (''HTTP/1.0 '' @ resp_status resp)
     # concat (map (\<lambda>(k, vs). if k \<in> hop_by_hop then [] else map (\<lambda>v. k @ '': '' @ v) vs) (resp_header resp))
     @ [''Content-Length: '' @ itoa n, ''Connection: close'']"

lemma join_snoc_crlf: "ls \<noteq> [] \<Longrightarrow> join ls crlf @ crlf = concat (map (\<lambda>l. l @ crlf) ls)"
proof (induction ls)
  case (Cons l ls)
  then show ?case by (cases "ls = []") (simp_all add: join_Cons)
qed simp

lemma reply_head_lines: "reply_head resp n = join (reply_lines resp n) crlf @ crlf @ crlf"
proof -
  have "concat (map (\<lambda>l. l @ crlf) (concat (map (\<lambda>(k, vs). if k \<in> hop_by_hop then []
        else map (\<lambda>v. k @ '': '' @ v) vs) hs)))
      = concat (map (\<lambda>(k, vs). if k \<in> hop_by_hop then [] else concat (map (\<lambda>v. k @ '': '' @ v @ crlf) vs)) hs)" for hs
  proof (induction hs)
    case (Cons a hs)
    then show ?case by (cases a) (simp add: o_def)
  qed simp
  moreover have "join (reply_lines resp n) crlf @ crlf = concat (map (\<lambda>l. l @ crlf) (reply_lines resp n))"
    by (rule join_snoc_crlf) (simp add: reply_lines_def)
  ultimately have "join (reply_lines resp n) crlf @ crlf @ crlf =
      (''HTTP/1.0 '' @ resp_status resp @ crlf
       @ concat (map (\<lambda>(k, vs). if k \<in> hop_by_hop then [] else concat (map (\<lambda>v. k @ '': '' @ v @ crlf) vs)) (resp_header resp))
       @ ''Content-Length: '' @ itoa n @ crlf @ ''Connection: close'' @ crlf) @ crlf"
    by (simp add: reply_lines_def append_assoc [symmetric] del: append_assoc)
  then show ?thesis by (simp add: reply_head_def)
qed

definition clean_response :: "backend_response \<Rightarrow> bool" where
  "clean_response resp \<longleftrightarrow> cr \<notin> set (resp_status resp) \<and>
     list_all (\<lambda>(k, vs). cr \<notin> set k \<and> list_all (\<lambda>v. cr \<notin> set v) vs) (resp_header resp)"

lemma reply_lines_clean:
  assumes "clean_response resp" and "l \<in> set (reply_lines resp n)"
  shows "cr \<notin> set l \<and> l \<noteq> []"
  using assms itoa_no_cr [of n]
  by (auto simp: reply_lines_def clean_response_def list_all_iff split: if_splits)

section \<open>Properties\<close>

text \<open>C34. Parsing the -proxy values never panics; when it succeeds there is one rule per value,
  each with a path prefix and an http or https target with a host and without query and
  fragment, and the rules are ordered by falling prefix length.\<close>

theorem parse_proxy_rules_good:
  "parse_proxy_rules values \<noteq> Panic \<and>
   (case parse_proxy_rules values of
      Ok rs \<Rightarrow> length rs = length values \<and> list_all good_rule rs \<and> longest_first rs
    | _ \<Rightarrow> True)"
proof (cases "parse_proxy_list values")
  case (Ok rs)
  then show ?thesis
    using parse_proxy_list_good [OF Ok] sort_proxies_longest_first [of rs]
    by (simp add: parse_proxy_rules_def sort_proxies_def list_all_iff)
qed (use parse_proxy_list_total in \<open>simp_all add: parse_proxy_rules_def\<close>)

text \<open>C32. Under the rules that were parsed, a request goes to the rule with the longest prefix of
  its path, and stays with this server exactly when no rule's prefix fits.\<close>

theorem proxy_longest_prefix:
  assumes "parse_proxy_rules values = Ok rs"
  shows "case proxy_for rs u of
      None \<Rightarrow> \<forall>r \<in> set rs. \<not> has_prefix u (proxy_prefix r)
    | Some r \<Rightarrow> r \<in> set rs \<and> has_prefix u (proxy_prefix r) \<and>
        (\<forall>r' \<in> set rs. has_prefix u (proxy_prefix r') \<longrightarrow>
           length (proxy_prefix r') \<le> length (proxy_prefix r))"
proof -
  have "longest_first rs"
    using assms sort_proxies_longest_first by (auto simp: parse_proxy_rules_def obind_Ok)
  then show ?thesis
    using proxy_for_Some [of rs u] proxy_for_None [of rs u] by (cases "proxy_for rs u") auto
qed

definition demo_proxies :: "proxy_rule list" where
  "demo_proxies =
     [\<lparr>proxy_prefix = ''/a/b/'', proxy_target = empty_url\<lparr>url_scheme := ''https'', url_host := ''h2:8443'', url_path := ''/p''\<rparr>\<rparr>,
      \<lparr>proxy_prefix = ''/a/'', proxy_target = empty_url\<lparr>url_scheme := ''http'', url_host := ''h1''\<rparr>\<rparr>]"

lemma demo_proxies_parsed:
  "parse_proxy_rules [''/a/=http://h1'', ''/a/b/=https://h2:8443/p/''] = Ok demo_proxies"
  by code_simp

theorem proxy_longest_prefix_witness:
  "filter (\<lambda>r. has_prefix ''/a/b/c'' (proxy_prefix r) \<and> 5 < length (proxy_prefix r)) demo_proxies = []"
  using proxy_longest_prefix [OF demo_proxies_parsed, of "''/a/b/c''"]
  by (simp add: demo_proxies_def has_prefix_def)

text \<open>C33. What a backend is sent: one request with the client's method and body, the path of
  the target followed by the whole request path, the client's Host, and a header without the
  ten hop-by-hop fields, that states the protocol, appends the client's address to
  X-Forwarded-For, and keeps every other field with exactly its values.  Whatever a backend
  does, the reply depends on it only through its answer to this request.\<close>

theorem forwarded_request:
  assumes "list_all token_char (req_method req)" and "req_method req \<noteq> []"
    and "t = proxy_target rule"
    and "url_parse (url_scheme t @ ''://'' @ url_host t @ url_path t @ req_path req) = Some u"
  shows "\<exists>out. (\<forall>backend. backend out = None \<longrightarrow>
        proxy backend rule req = http_status ''502 Bad Gateway'') \<and>
      (\<forall>backend backend'. backend out = backend' out \<longrightarrow>
        proxy backend rule req = proxy backend' rule req) \<and>
      out_method out = req_method req \<and> out_body out = req_body req \<and>
      out_url out = u\<lparr>url_host := remove_empty_port (url_host u)\<rparr> \<and>
      out_host out = header_get (req_header req) ''Host'' \<and>
      (\<forall>k. out_header out k =
        (if k = ''X-Forwarded-Proto'' then Some [''https'']
         else if k = ''X-Forwarded-For'' \<and> req_remote req \<noteq> []
           then Some (header_values (req_header req) k @ [req_remote req])
         else if k \<in> {''Connection'', ''Keep-Alive'', ''Proxy-Authenticate'', ''Proxy-Authorization'',
             ''Proxy-Connection'', ''Te'', ''Trailer'', ''Transfer-Encoding'', ''Upgrade'',
             ''Content-Length''} then None
         else req_header req k))"
proof -
  let ?u = "u\<lparr>url_host := remove_empty_port (url_host u)\<rparr>"
  define out where "out = \<lparr>out_method = req_method req, out_url = ?u,
    out_header = forward_header (req_header req) (req_remote req),
    out_host = header_get (req_header req) ''Host'', out_body = req_body req\<rparr>"
  have p: "proxy backend rule req =
      (case backend out of
         None \<Rightarrow> http_status ''502 Bad Gateway''
       | Some resp \<Rightarrow>
           let body = take (maxProxyBody + 1) (resp_body resp)
           in if length body > maxProxyBody \<or> resp_body_fails resp
              then http_status ''502 Bad Gateway''
              else bytes_of (reply_head resp (length body)) @ body)" for backend
    using assms by (simp add: proxy_def new_request_def proxy_url_def out_def Let_def)
  show ?thesis
    by (intro exI [of _ out] conjI allI impI)
      (simp_all add: p, simp_all add: out_def forward_header_pointwise hop_by_hop_def)
qed

text \<open>C31. What a backend answers reaches the client unchanged: the status, the header fields that
  are not hop-by-hop, in order, a Content-Length that is the length of the body, and the body
  byte for byte; a body over 8 MiB or cut off becomes a 502 reply, a missing answer too.\<close>

theorem proxy_reply:
  assumes "new_request (req_method req) (proxy_url (proxy_target rule) (req_path req)) (req_body req) = Some out0"
    and "out = out0\<lparr>out_header := forward_header (req_header req) (req_remote req),
                    out_host := header_get (req_header req) ''Host''\<rparr>"
  shows "case backend out of
      None \<Rightarrow> proxy backend rule req = http_status ''502 Bad Gateway''
    | Some resp \<Rightarrow>
        (if length (resp_body resp) > maxProxyBody \<or> resp_body_fails resp
         then proxy backend rule req = http_status ''502 Bad Gateway''
         else \<not> clean_response resp \<or>
           cut_reply (proxy backend rule req) =
             Some (reply_lines resp (length (resp_body resp)), resp_body resp))"
proof (cases "backend out")
  case None
  then show ?thesis using assms by (simp add: proxy_def)
next
  case (Some resp)
  let ?n = "length (resp_body resp)"
  show ?thesis
  proof (cases "?n > maxProxyBody \<or> resp_body_fails resp")
    case True
    then have "length (take (maxProxyBody + 1) (resp_body resp)) > maxProxyBody \<or> resp_body_fails resp"
      by auto
    then show ?thesis using assms Some True by (simp add: proxy_def Let_def)
  next
    case False
    then have t: "take (maxProxyBody + 1) (resp_body resp) = resp_body resp" by simp
    have p: "proxy backend rule req = bytes_of (reply_head resp ?n) @ resp_body resp"
      using assms Some False t by (simp add: proxy_def Let_def)
    have "cut_reply (proxy backend rule req) = Some (reply_lines resp ?n, resp_body resp)"
      if "clean_response resp"
      unfolding p reply_head_lines
      by (rule cut_reply_lines) (use reply_lines_clean [OF that] in \<open>auto simp: reply_lines_def\<close>)
    then show ?thesis using Some False by auto
  qed
qed

definition demo_backend :: backend where
  "demo_backend out = Some \<lparr>resp_status = ''201 Created'',
     resp_header = [(''Connection'', [''close'']), (''Set-Cookie'', [''a=1'', ''b=2''])],
     resp_body = out_body out, resp_body_fails = False\<rparr>"

definition demo_request :: http_request where
  "demo_request = \<lparr>req_method = ''POST'', req_path = ''/a/b/x?y=1'', req_header = Map.empty,
     req_body = [1, 13, 10], req_remote = ''192.0.2.7''\<rparr>"

lemma demo_new_request:
  "\<exists>out0. new_request ''POST'' (proxy_url (proxy_target (hd demo_proxies)) ''/a/b/x?y=1'') [1, 13, 10] = Some out0
     \<and> out_body out0 = [1, 13, 10]"
proof -
  have "url_parse (proxy_url (proxy_target (hd demo_proxies)) ''/a/b/x?y=1'') \<noteq> None" by code_simp
  moreover have "list_all token_char ''POST''" by code_simp
  ultimately show ?thesis by (auto simp: new_request_def Let_def)
qed

theorem proxy_reply_witness:
  "cut_reply (proxy demo_backend (hd demo_proxies) demo_request) =
     Some ([''HTTP/1.0 201 Created'', ''Set-Cookie: a=1'', ''Set-Cookie: b=2'', ''Content-Length: 3'',
            ''Connection: close''], [1, 13, 10])"
proof -
  obtain out0 where n: "new_request (req_method demo_request)
      (proxy_url (proxy_target (hd demo_proxies)) (req_path demo_request)) (req_body demo_request) = Some out0"
    and b: "out_body out0 = [1, 13, 10]"
    using demo_new_request by (auto simp: demo_request_def)
  have i: "itoa (Suc (Suc (Suc 0))) = ''3''" by code_simp
  show ?thesis
    using proxy_reply [OF n refl, of demo_backend] b i
    by (simp add: demo_backend_def maxProxyBody_def clean_response_def reply_lines_def hop_by_hop_def)
qed

definition chunked_request :: http_request where
  "chunked_request = \<lparr>req_method = ''POST'', req_path = ''/a/b/x?y=1'',
     req_header = [''Transfer-Encoding'' \<mapsto> [''chunked''], ''Cookie'' \<mapsto> [''a=1''],
       ''X-Forwarded-For'' \<mapsto> [''10.0.0.1'']],
     req_body = [1, 13, 10], req_remote = ''192.0.2.7''\<rparr>"

theorem forwarded_request_witness:
  "\<exists>out. proxy (\<lambda>r. if r = out then None else demo_backend r) (hd demo_proxies) chunked_request =
      http_status ''502 Bad Gateway'' \<and>
    out_header out ''Transfer-Encoding'' = None \<and> out_header out ''Cookie'' = Some [''a=1''] \<and>
    out_header out ''X-Forwarded-For'' = Some [''10.0.0.1'', ''192.0.2.7''] \<and>
    out_header out ''X-Forwarded-Proto'' = Some [''https'']"
proof -
  let ?t = "proxy_target (hd demo_proxies)"
  have "url_parse (url_scheme ?t @ ''://'' @ url_host ?t @ url_path ?t @ req_path chunked_request) \<noteq> None"
    unfolding chunked_request_def by code_simp
  then obtain u where u: "url_parse (url_scheme ?t @ ''://'' @ url_host ?t @ url_path ?t @
      req_path chunked_request) = Some u" by blast
  have m: "list_all token_char (req_method chunked_request)" "req_method chunked_request \<noteq> []"
    unfolding chunked_request_def by code_simp+
  from forwarded_request [OF m refl u] obtain out where
    "\<And>backend. backend out = None \<Longrightarrow> proxy backend (hd demo_proxies) chunked_request = http_status ''502 Bad Gateway''"
    and k: "\<And>k. out_header out k =
        (if k = ''X-Forwarded-Proto'' then Some [''https'']
         else if k = ''X-Forwarded-For'' \<and> req_remote chunked_request \<noteq> []
           then Some (header_values (req_header chunked_request) k @ [req_remote chunked_request])
         else if k \<in> {''Connection'', ''Keep-Alive'', ''Proxy-Authenticate'', ''Proxy-Authorization'',
             ''Proxy-Connection'', ''Te'', ''Trailer'', ''Transfer-Encoding'', ''Upgrade'',
             ''Content-Length''} then None
         else req_header chunked_request k)" by blast
  then show ?thesis
    by (intro exI [of _ out]) (simp add: k, simp add: chunked_request_def header_values_def)
qed

end
