(* ===== verification/Dns.thy ===== *)
theory Dns
  imports Config Hints
begin

text \<open>
  dns.go: the UDP redirector.  A query whose name matches a rule is answered here with
  that rule's address, every other query goes to the upstream resolver, which is the
  parameter \<open>forward\<close>.  The component's state is the hint store.
\<close>

section \<open>Lookup\<close>

definition rule_matches :: "string \<Rightarrow> dns_rule \<Rightarrow> bool" where
  "rule_matches name r \<longleftrightarrow> name = rule_suffix r \<or> has_suffix name (''.'' @ rule_suffix r)"

definition dns_lookup :: "(string \<Rightarrow> string) \<Rightarrow> dns_rule list \<Rightarrow> string \<Rightarrow> ip" where
  "dns_lookup ul rules name0 =
     (let name = to_lower ul (trim_suffix name0 ''.'')
      in case find (rule_matches name) rules of None \<Rightarrow> None | Some r \<Rightarrow> rule_ip r)"

section \<open>Messages\<close>

text \<open>
  The labels of the name at \<open>pos\<close> and the position after it; \<open>None\<close> for a name that is cut
  off or compressed.  Every index and slice into the packet is checked as Go checks it.
\<close>

function parse_labels :: "bytes \<Rightarrow> nat \<Rightarrow> (string list \<times> nat) option outcome" where
  "parse_labels msg pos =
     (if pos \<ge> length msg then Ok None
      else obind (go_index (int pos) msg) (\<lambda>b.
        let l = unat b; start = Suc pos in
        if l = 0 then Ok (Some ([], start))
        else if b AND 0xc0 \<noteq> 0 then Ok None
        else if start + l > length msg then Ok None
        else obind (go_slice (int start) (int (start + l)) msg) (\<lambda>lab.
             obind (parse_labels msg (start + l)) (\<lambda>r.
             Ok (map_option (\<lambda>(ls, p). (string_of lab # ls, p)) r)))))"
  by pat_completeness auto
termination
  by (relation "measure (\<lambda>(msg, pos). length msg - pos)") auto

declare parse_labels.simps [simp del]

definition parse_question :: "bytes \<Rightarrow> (string \<times> nat) option outcome" where
  "parse_question msg =
     (if length msg < 12 then Ok None
      else obind (go_be16 4 msg) (\<lambda>qdcount.
        if qdcount < 1 then Ok None
        else obind (parse_labels msg 12) (\<lambda>r.
          case r of
            None \<Rightarrow> Ok None
          | Some (labels, pos) \<Rightarrow>
              if pos + 4 > length msg then Ok None
              else obind (go_be16 (int pos) msg) (\<lambda>qtype.
                   Ok (Some (join labels ''.'', qtype))))))"

text \<open>The scan of \<open>buildAResponse\<close> for the end of the name.\<close>

function name_end :: "bytes \<Rightarrow> nat \<Rightarrow> nat outcome" where
  "name_end query q =
     (if q \<ge> length query then Err (NewErr ''malformed question'')
      else obind (go_index (int q) query) (\<lambda>b.
        let l = unat b in if l = 0 then Ok (Suc q) else name_end query (Suc q + l)))"
  by pat_completeness auto
termination
  by (relation "measure (\<lambda>(query, q). length query - q)") auto

declare name_end.simps [simp del]

definition dns_answer :: "bytes \<Rightarrow> bytes" where
  "dns_answer ip4 =
     [0xc0, 0x0c, 0x00, 0x01, 0x00, 0x01, 0x00, 0x00, 0x01, 0x2c, 0x00, 0x04] @ ip4"

text \<open>\<open>binary.BigEndian.PutUint16(b[i:i+2], n)\<close>\<close>

definition go_put16 :: "int \<Rightarrow> nat \<Rightarrow> bytes \<Rightarrow> bytes outcome" where
  "go_put16 i n b = obind (go_slice i (i + 2) b) (\<lambda>_. Ok (splice_at (nat i) (put16 n) b))"

definition dns_header :: "bytes \<Rightarrow> bytes \<Rightarrow> bytes outcome" where
  "dns_header query resp =
     obind (go_index 2 query) (\<lambda>q2.
     obind (go_update 2 (0x81 OR (q2 AND 0x01)) resp) (\<lambda>resp.
     obind (go_update 3 0x80 resp) (\<lambda>resp.
     obind (go_put16 6 1 resp) (\<lambda>resp.
     obind (go_put16 8 0 resp) (\<lambda>resp.
     go_put16 10 0 resp)))))"

definition build_a_response :: "bytes \<Rightarrow> bytes \<Rightarrow> bytes outcome" where
  "build_a_response query ip =
     (case to4 ip of
        None \<Rightarrow> Err (NewErr ''redirect IP is not IPv4'')
      | Some ip4 \<Rightarrow>
          obind (name_end query 12) (\<lambda>e.
          let qend = e + 4 in
          if qend > length query then Err (NewErr ''truncated question'')
          else obind (go_upto (int qend) query) (\<lambda>resp0.
               obind (dns_header query resp0) (\<lambda>resp.
               obind (go_slice 0 4 ip4) (\<lambda>addr.
               Ok (resp @ dns_answer addr))))))"

section \<open>The handler\<close>

text \<open>
  \<open>forward\<close>: \<open>exchange\<close> is the UDP exchange with the upstream resolver (dial, deadline, write,
  read; \<open>None\<close>: an error); the buffer of the read cuts an answer off after 512 bytes.
\<close>

type_synonym exchange = "bytes \<Rightarrow> bytes option"

definition dns_forward :: "exchange \<Rightarrow> exchange" where
  "dns_forward exchange query = map_option (take 512) (exchange query)"

definition dns_forward_reply :: "exchange \<Rightarrow> bytes \<Rightarrow> bytes list" where
  "dns_forward_reply forward query =
     (case forward query of Some resp \<Rightarrow> [resp] | None \<Rightarrow> [])"

text \<open>
  \<open>handle\<close>: the packets written to the client and the hint store afterwards.  \<open>src\<close> is
  the client's address as text, \<open>now\<close> the clock; the results of \<open>WriteTo\<close> are ignored.  First
  the part that decides: the name and the answer when the query is redirected.  An error of
  \<open>buildAResponse\<close> sends the query upstream; a panic in it, or in the parser, is not caught.
\<close>

definition dns_redirect ::
  "(string \<Rightarrow> string) \<Rightarrow> dns_rule list \<Rightarrow> bytes \<Rightarrow> (string \<times> bytes) option outcome" where
  "dns_redirect ul rules query =
     obind (parse_question query) (\<lambda>q.
     case q of
       Some (name, qtype) \<Rightarrow>
         if qtype = 1 then
           (case dns_lookup ul rules name of
              Some ip \<Rightarrow>
                (case build_a_response query ip of
                   Ok resp \<Rightarrow> Ok (Some (name, resp))
                 | Err e \<Rightarrow> Ok None
                 | Panic \<Rightarrow> Panic)
            | None \<Rightarrow> Ok None)
         else Ok None
     | None \<Rightarrow> Ok None)"

text \<open>What it writes, and then the region it notes.\<close>

definition dns_packets ::
  "(string \<Rightarrow> string) \<Rightarrow> dns_rule list \<Rightarrow> exchange \<Rightarrow> bytes \<Rightarrow> bytes list outcome" where
  "dns_packets ul rules forward query =
     obind (dns_redirect ul rules query) (\<lambda>r.
     Ok (case r of
           Some (name, resp) \<Rightarrow> [resp]
         | None \<Rightarrow> dns_forward_reply forward query))"

definition dns_note ::
  "(string \<Rightarrow> string) \<Rightarrow> dns_rule list \<Rightarrow> bytes \<Rightarrow> string option outcome" where
  "dns_note ul rules query =
     obind (dns_redirect ul rules query) (\<lambda>r.
     Ok (case r of
           Some (name, resp) \<Rightarrow> region_from_name ul name
         | None \<Rightarrow> None))"

definition dns_handle ::
  "(string \<Rightarrow> string) \<Rightarrow> dns_rule list \<Rightarrow> exchange \<Rightarrow> nat \<Rightarrow> string \<Rightarrow> bytes \<Rightarrow>
   region_hints option \<Rightarrow> (bytes list \<times> region_hints option) outcome" where
  "dns_handle ul rules forward now src query hs =
     obind (dns_packets ul rules forward query) (\<lambda>out.
     obind (dns_note ul rules query) (\<lambda>noted.
     Ok (out, (case (noted, hs) of
                 (Some region, Some h) \<Rightarrow> Some (hints_set now h (client_ip src) region)
               | _ \<Rightarrow> hs))))"

section \<open>The parsers without their run-time checks\<close>

text \<open>
  Every index and slice is in range, whatever the packet: the guards of the code are enough.
  So the parsers are the following functions, over which the rest is proved.
\<close>

function labels_at :: "bytes \<Rightarrow> nat \<Rightarrow> (string list \<times> nat) option" where
  "labels_at msg pos =
     (if length msg \<le> pos then None
      else let l = unat (msg ! pos)
           in if l = 0 then Some ([], Suc pos)
              else if msg ! pos AND 0xc0 \<noteq> 0 then None
              else if length msg < Suc pos + l then None
              else map_option (\<lambda>(ls, p). (string_of (gslice (Suc pos) (Suc pos + l) msg) # ls, p))
                     (labels_at msg (Suc pos + l)))"
  by pat_completeness auto
termination
  by (relation "measure (\<lambda>(msg, pos). length msg - pos)") auto

declare labels_at.simps [simp del]

definition question_of :: "bytes \<Rightarrow> (string \<times> nat) option" where
  "question_of msg =
     (if length msg < 12 then None
      else if be16 msg 4 < 1 then None
      else case labels_at msg 12 of
             None \<Rightarrow> None
           | Some (labels, pos) \<Rightarrow>
               if length msg < pos + 4 then None
               else Some (join labels ''.'', be16 msg pos))"

function name_end_at :: "bytes \<Rightarrow> nat \<Rightarrow> nat option" where
  "name_end_at query q =
     (if length query \<le> q then None
      else let l = unat (query ! q)
           in if l = 0 then Some (Suc q) else name_end_at query (Suc q + l))"
  by pat_completeness auto
termination
  by (relation "measure (\<lambda>(query, q). length query - q)") auto

declare name_end_at.simps [simp del]

definition header_bytes :: "bytes \<Rightarrow> bytes \<Rightarrow> bytes" where
  "header_bytes query resp =
     resp[2 := 0x81 OR (query ! 2 AND 0x01), 3 := 0x80,
          6 := 0, 7 := 1, 8 := 0, 9 := 0, 10 := 0, 11 := 0]"

definition a_response :: "bytes \<Rightarrow> bytes \<Rightarrow> bytes outcome" where
  "a_response query ip =
     (case to4 ip of
        None \<Rightarrow> Err (NewErr ''redirect IP is not IPv4'')
      | Some ip4 \<Rightarrow>
          (case name_end_at query 12 of
             None \<Rightarrow> Err (NewErr ''malformed question'')
           | Some e \<Rightarrow>
               if length query < e + 4 then Err (NewErr ''truncated question'')
               else Ok (header_bytes query (take (e + 4) query) @ dns_answer ip4)))"

definition redirect_of :: "(string \<Rightarrow> string) \<Rightarrow> dns_rule list \<Rightarrow> bytes \<Rightarrow> (string \<times> bytes) option" where
  "redirect_of ul rules query =
     (case question_of query of
        Some (name, qtype) \<Rightarrow>
          if qtype = 1 then
            (case dns_lookup ul rules name of
               Some ip \<Rightarrow> (case a_response query ip of Ok resp \<Rightarrow> Some (name, resp) | _ \<Rightarrow> None)
             | None \<Rightarrow> None)
          else None
      | None \<Rightarrow> None)"

lemma parse_labels_eq: "parse_labels msg pos = Ok (labels_at msg pos)"
proof (induction msg pos rule: labels_at.induct)
  case (1 msg pos)
  show ?case
  proof (cases "pos < length msg")
    case False
    then show ?thesis by (simp add: parse_labels.simps [of msg pos] labels_at.simps [of msg pos])
  next
    case True
    then have i: "go_index (int pos) msg = Ok (msg ! pos)" by (rule go_index_Ok)
    define l where "l = unat (msg ! pos)"
    have s: "go_slice (int (Suc pos)) (int (Suc pos + l)) msg = Ok (gslice (Suc pos) (Suc pos + l) msg)"
      if "\<not> Suc pos + l > length msg" using that by (intro go_slice_Ok) simp_all
    have ih: "parse_labels msg (Suc pos + l) = Ok (labels_at msg (Suc pos + l))"
      if "l \<noteq> 0" "\<not> msg ! pos AND 0xc0 \<noteq> 0" "\<not> length msg < Suc pos + l"
      using "1.IH" that True by (simp add: l_def)
    show ?thesis
      unfolding parse_labels.simps [of msg pos] labels_at.simps [of msg pos] i obind.simps Let_def
        l_def [symmetric]
      using True s ih by auto
  qed
qed

lemma parse_question_eq: "parse_question msg = Ok (question_of msg)"
proof -
  have b: "go_be16 4 msg = Ok (be16 msg 4)" if "\<not> length msg < 12"
    using go_be16_Ok [of 4 msg] that by simp
  have b2: "go_be16 (int pos) msg = Ok (be16 msg pos)" if "\<not> length msg < pos + 4" for pos
    using go_be16_Ok [of pos msg] that by simp
  show ?thesis
    by (auto simp: parse_question_def question_of_def parse_labels_eq b b2 split: option.split)
qed

lemma name_end_eq:
  "name_end query q = (case name_end_at query q of None \<Rightarrow> Err (NewErr ''malformed question'') | Some e \<Rightarrow> Ok e)"
proof (induction query q rule: name_end_at.induct)
  case (1 query q)
  show ?case
  proof (cases "q < length query")
    case False
    then show ?thesis by (simp add: name_end.simps [of query q] name_end_at.simps [of query q])
  next
    case True
    then have i: "go_index (int q) query = Ok (query ! q)" by (rule go_index_Ok)
    show ?thesis
      unfolding name_end.simps [of query q] name_end_at.simps [of query q] i obind.simps Let_def
      using True "1.IH" by auto
  qed
qed

lemma go_put16_Ok: "i + 2 \<le> length b \<Longrightarrow> go_put16 (int i) n b = Ok (splice_at i (put16 n) b)"
  using go_slice_Ok [of i "i + 2" b] by (simp add: go_put16_def add.commute)

lemma splice_put16:
  assumes "Suc i < length b"
  shows "splice_at i (put16 n) b = b[i := of_nat (n div 256), Suc i := of_nat n]"
proof -
  have d: "drop i b = b ! i # b ! Suc i # drop (Suc (Suc i)) b"
    using assms by (simp add: Cons_nth_drop_Suc)
  define xs where "xs = take i b"
  have "b = xs @ b ! i # b ! Suc i # drop (Suc (Suc i)) b"
    unfolding xs_def d [symmetric] by simp
  moreover have "length xs = i" using assms by (simp add: xs_def)
  ultimately obtain x y zs where "b = xs @ x # y # zs" "length xs = i" by blast
  then show ?thesis by (simp add: splice_at_def put16_def list_update_append)
qed

lemma dns_header_eq:
  assumes "12 \<le> length resp" and "12 \<le> length query"
  shows "dns_header query resp = Ok (header_bytes query resp)"
proof -
  have u: "go_index 2 query = Ok (query ! 2)"
    "length r = length resp \<Longrightarrow> go_update 2 x r = Ok (r[2 := x])"
    "length r = length resp \<Longrightarrow> go_update 3 x r = Ok (r[3 := x])"
    "length r = length resp \<Longrightarrow> go_put16 6 1 r = Ok (r[6 := 0, 7 := 1])"
    "length r = length resp \<Longrightarrow> go_put16 8 0 r = Ok (r[8 := 0, 9 := 0])"
    "length r = length resp \<Longrightarrow> go_put16 10 0 r = Ok (r[10 := 0, 11 := 0])" for r :: bytes and x
    using assms go_index_Ok [of 2 query] go_update_Ok [of 2 r x] go_update_Ok [of 3 r x]
      go_put16_Ok [of 6 r 1] go_put16_Ok [of 8 r 0] go_put16_Ok [of 10 r 0]
      splice_put16 [of 6 r 1] splice_put16 [of 8 r 0] splice_put16 [of 10 r 0] by simp_all
  show ?thesis by (simp add: dns_header_def header_bytes_def u del: One_nat_def)
qed

section \<open>Lookup finds the longest match\<close>

lemma has_suffix_cases:
  "has_suffix n a \<Longrightarrow> has_suffix n b \<Longrightarrow> length a = length b \<Longrightarrow> a = b"
  by (simp add: has_suffix_def)

lemma rule_matches_suffix: "rule_matches name r \<Longrightarrow> has_suffix name (rule_suffix r)"
  by (auto simp: rule_matches_def has_suffix_iff)

lemma matches_length_unique:
  "rule_matches name r \<Longrightarrow> rule_matches name r' \<Longrightarrow>
   length (rule_suffix r) = length (rule_suffix r') \<Longrightarrow> rule_suffix r = rule_suffix r'"
  by (rule has_suffix_cases) (auto dest: rule_matches_suffix)

lemma find_sorted_longest:
  "sorted (map (\<lambda>r. - int (length (rule_suffix r))) rs) \<Longrightarrow> r \<in> set rs \<Longrightarrow> rule_matches name r \<Longrightarrow>
   \<exists>b. find (rule_matches name) rs = Some b \<and> b \<in> set rs \<and> rule_matches name b \<and>
       length (rule_suffix r) \<le> length (rule_suffix b)"
  by (induction rs) auto

text \<open>The rule that answers a name: the first of the list among those with the longest suffix.\<close>

lemma lookup_sorted_rule:
  assumes "r \<in> set rules" and "rule_matches (to_lower ul (trim_suffix name ''.'')) r"
    and "distinct (map rule_suffix rules)"
    and "\<forall>r' \<in> set rules. rule_matches (to_lower ul (trim_suffix name ''.'')) r' \<longrightarrow>
           length (rule_suffix r') \<le> length (rule_suffix r)"
  shows "dns_lookup ul (sort_rules rules) name = rule_ip r"
proof -
  let ?n = "to_lower ul (trim_suffix name ''.'')"
  from find_sorted_longest [OF sort_rules_sorted, of r rules ?n] assms(1,2)
  obtain b where b: "find (rule_matches ?n) (sort_rules rules) = Some b" "b \<in> set rules"
    "rule_matches ?n b" "length (rule_suffix r) \<le> length (rule_suffix b)" by auto
  with assms(4) have "length (rule_suffix b) = length (rule_suffix r)" by fastforce
  with b(3) assms(2) have "rule_suffix b = rule_suffix r" by (rule matches_length_unique)
  with b(2) assms(1,3) have "b = r" by (simp add: distinct_map inj_on_def)
  with b(1) show ?thesis by (simp add: dns_lookup_def)
qed

lemma lookup_none:
  "\<forall>r \<in> set rules. \<not> rule_matches (to_lower ul (trim_suffix name ''.'')) r \<Longrightarrow>
   dns_lookup ul (sort_rules rules) name = None"
proof -
  assume "\<forall>r \<in> set rules. \<not> rule_matches (to_lower ul (trim_suffix name ''.'')) r"
  then have "find (rule_matches (to_lower ul (trim_suffix name ''.''))) (sort_rules rules) = None"
    by (simp add: find_None_iff)
  then show ?thesis by (simp add: dns_lookup_def)
qed

section \<open>Parsing and building agree\<close>

lemma labels_at_Some:
  assumes "labels_at msg pos = Some (ls, p)"
  obtains "pos < length msg" and "unat (msg ! pos) = 0" and "ls = []" and "p = Suc pos"
  | ls' where "pos < length msg" and "unat (msg ! pos) \<noteq> 0" and "msg ! pos AND 0xc0 = 0"
      and "Suc pos + unat (msg ! pos) \<le> length msg"
      and "labels_at msg (Suc pos + unat (msg ! pos)) = Some (ls', p)"
      and "ls = string_of (gslice (Suc pos) (Suc pos + unat (msg ! pos)) msg) # ls'"
  using assms
  by (subst (asm) labels_at.simps) (auto simp: Let_def not_le not_less split: if_splits)

lemma labels_at_name_end_at:
  "labels_at msg pos = Some (ls, p) \<Longrightarrow> name_end_at msg pos = Some p"
proof (induction "length msg - pos" arbitrary: pos ls rule: less_induct)
  case less
  from less.prems show ?case
  proof (cases rule: labels_at_Some)
    case 1
    then show ?thesis by (subst name_end_at.simps) simp
  next
    case (2 ls')
    then have "name_end_at msg (Suc pos + unat (msg ! pos)) = Some p"
      by (intro less.hyps [of _ ls']) auto
    with 2 show ?thesis by (subst name_end_at.simps) (simp add: Let_def)
  qed
qed

lemma labels_at_bounds:
  "labels_at msg pos = Some (ls, p) \<Longrightarrow> pos < p \<and> p \<le> length msg"
proof (induction "length msg - pos" arbitrary: pos ls rule: less_induct)
  case less
  from less.prems show ?case
  proof (cases rule: labels_at_Some)
    case (2 ls')
    then have "Suc pos + unat (msg ! pos) < p \<and> p \<le> length msg"
      by (intro less.hyps [of _ ls']) auto
    then show ?thesis by simp
  qed simp
qed

lemma name_end_at_Some:
  assumes "name_end_at q n = Some p"
  obtains "n < length q" and "unat (q ! n) = 0" and "p = Suc n"
  | "n < length q" and "unat (q ! n) \<noteq> 0" and "name_end_at q (Suc n + unat (q ! n)) = Some p"
  using assms by (subst (asm) name_end_at.simps) (auto simp: Let_def not_le split: if_splits)

lemma name_end_at_bounds: "name_end_at q n = Some p \<Longrightarrow> n < p \<and> p \<le> length q"
proof (induction "length q - n" arbitrary: n rule: less_induct)
  case less
  from less.prems show ?case
  proof (cases rule: name_end_at_Some)
    case 2
    then have "Suc n + unat (q ! n) < p \<and> p \<le> length q"
      by (intro less.hyps) auto
    then show ?thesis by simp
  qed simp
qed

lemma header_bytes_simps [simp]:
  "length (header_bytes q r) = length r"
  by (simp add: header_bytes_def)

lemma question_of_builds:
  "question_of query = Some (name, qtype) \<Longrightarrow> to4 ip = Some ip4 \<Longrightarrow>
   \<exists>qend. 16 \<le> qend \<and> qend \<le> length query \<and> name_end_at query 12 = Some (qend - 4) \<and>
     a_response query ip = Ok (header_bytes query (take qend query) @ dns_answer ip4)"
proof -
  assume q: "question_of query = Some (name, qtype)" and ip: "to4 ip = Some ip4"
  from q obtain ls p where p: "labels_at query 12 = Some (ls, p)" "p + 4 \<le> length query"
    by (auto simp: question_of_def split: if_splits option.splits)
  have "12 < p" using labels_at_bounds [OF p(1)] by simp
  with p ip labels_at_name_end_at [OF p(1)] show ?thesis
    by (intro exI [of _ "p + 4"]) (simp add: a_response_def)
qed

section \<open>The response\<close>

lemma header_bytes_nth:
  assumes "12 \<le> length r" and "i < length r"
  shows "i \<notin> {2, 3, 6, 7, 8, 9, 10, 11} \<Longrightarrow> header_bytes q r ! i = r ! i"
    and "header_bytes q r ! 2 = 0x81 OR (q ! 2 AND 0x01)"
    and "header_bytes q r ! 3 = 0x80"
    and "header_bytes q r ! 6 = 0" and "header_bytes q r ! 7 = 1"
  using assms by (simp_all add: header_bytes_def nth_list_update)

lemma header_bytes_drop: "12 \<le> n \<Longrightarrow> drop n (header_bytes q r) = drop n r"
  by (simp add: header_bytes_def)

lemma labels_at_local:
  "labels_at msg pos = Some (ls, p) \<Longrightarrow> p \<le> length msg' \<Longrightarrow>
   (\<And>i. pos \<le> i \<Longrightarrow> i < p \<Longrightarrow> msg' ! i = msg ! i) \<Longrightarrow>
   labels_at msg' pos = Some (ls, p)"
proof (induction "length msg - pos" arbitrary: pos ls rule: less_induct)
  case less
  have p: "pos < p" using labels_at_bounds [OF less.prems(1)] by simp
  then have at: "pos < length msg'" "msg' ! pos = msg ! pos"
    using less.prems(2,3) by simp_all
  from less.prems(1) show ?case
  proof (cases rule: labels_at_Some)
    case 1
    with at show ?thesis by (subst labels_at.simps) simp
  next
    case (2 ls')
    let ?q = "Suc pos + unat (msg ! pos)"
    have b: "?q < p" "p \<le> length msg" using labels_at_bounds [OF 2(5)] by simp_all
    have rec: "labels_at msg' ?q = Some (ls', p)"
      by (rule less.hyps [OF _ 2(5)]) (use 2 less.prems b in auto)
    have "gslice (Suc pos) ?q msg' = gslice (Suc pos) ?q msg"
      by (rule nth_equalityI) (use b less.prems in \<open>auto simp: gslice_def\<close>)
    with at 2 rec b less.prems(2) show ?thesis
      by (subst labels_at.simps) (simp add: Let_def)
  qed
qed

text \<open>What a redirected query is answered with: the question unchanged and one address.\<close>

lemma a_response_spec:
  assumes q: "question_of query = Some (name, qtype)" and ip: "to4 ip = Some ip4"
  shows "\<exists>resp. a_response query ip = Ok resp \<and>
    question_of resp = Some (name, qtype) \<and>
    take 2 resp = take 2 query \<and> be16 resp 6 = 1 \<and>
    resp ! 2 AND 0x80 = 0x80 \<and>
    drop (length resp - 16) resp = dns_answer ip4"
proof -
  from q obtain ls p where p: "labels_at query 12 = Some (ls, p)" "p + 4 \<le> length query"
    and nm: "name = join ls ''.''" "qtype = be16 query p" and qd: "\<not> be16 query 4 < 1"
    by (auto simp: question_of_def split: if_splits option.splits)
  have p12: "12 < p" using labels_at_bounds [OF p(1)] by simp
  let ?h = "header_bytes query (take (p + 4) query)"
  let ?resp = "?h @ dns_answer ip4"
  have len: "length ?h = p + 4" using p by simp
  have r: "a_response query ip = Ok ?resp"
    using p p12 ip labels_at_name_end_at [OF p(1)] by (simp add: a_response_def)
  have hn: "?h ! i = query ! i" if "i < p + 4" "i \<notin> {2, 3, 6, 7, 8, 9, 10, 11}" for i
    using that p p12 header_bytes_nth(1) [of "take (p + 4) query" i query] by simp
  then have nth: "?resp ! i = query ! i" if "i < p + 4" "i \<notin> {2, 3, 6, 7, 8, 9, 10, 11}" for i
    using that len by (simp add: nth_append)
  have "labels_at ?resp 12 = Some (ls, p)"
    by (rule labels_at_local [OF p(1)]) (use len nth in auto)
  moreover have "be16 ?resp 4 = be16 query 4" "be16 ?resp p = be16 query p"
    using nth [of 4] nth [of 5] nth [of p] nth [of "Suc p"] p12 by (simp_all add: be16_def)
  ultimately have "question_of ?resp = Some (name, qtype)"
    using nm qd p12 len by (simp add: question_of_def)
  moreover have "take 2 ?resp = take 2 query"
    by (rule nth_equalityI) (use hn p p12 in auto)
  moreover have "be16 ?resp 6 = 1"
    using p p12 header_bytes_nth [of "take (p + 4) query" 0 query]
    by (simp add: be16_def nth_append)
  moreover have "?resp ! 2 AND 0x80 = 0x80"
    using p p12 header_bytes_nth [of "take (p + 4) query" 0 query]
    by (simp add: nth_append bit.conj_disj_distrib2 and.assoc)
  moreover have "length ip4 = 4" by (rule to4_length [OF ip])
  ultimately show ?thesis using r by (auto simp: dns_answer_def)
qed

lemma dns_flags:
  assumes "a_response query ip = Ok resp"
  shows "resp ! 2 = 0x81"
proof -
  from assms obtain e ip4 where e: "name_end_at query 12 = Some e" "e + 4 \<le> length query"
    and r: "resp = header_bytes query (take (e + 4) query) @ dns_answer ip4"
    by (auto simp: a_response_def Let_def split: option.splits if_splits)
  have "12 < e" using name_end_at_bounds [OF e(1)] by simp
  with e r have "resp ! 2 = 0x81 OR (query ! 2 AND 0x01)"
    using header_bytes_nth(2) [of "take (e + 4) query" 2 query] by (simp add: nth_append)
  also have "\<dots> = 0x81"
    by (rule bit_word_eqI) (auto simp: bit_simps)
  finally show ?thesis .
qed

section \<open>Queries\<close>

text \<open>
  A query as the tests of the repository build it: the header, the labels of the name,
  the root label, the type and the class IN.
\<close>

definition encode_label :: "string \<Rightarrow> bytes" where
  "encode_label l = of_nat (length l) # bytes_of l"

definition build_query :: "string \<Rightarrow> nat \<Rightarrow> bytes" where
  "build_query name qtype =
     put16 0x1234 @ put16 0x0100 @ put16 1 @ replicate 6 0
     @ concat (map encode_label (split_char (CHR ''.'') name)) @ [0] @ put16 qtype @ put16 1"

lemma small_no_pointer: "unat (b :: byte) < 64 \<Longrightarrow> b AND 0xc0 = 0"
proof -
  assume "unat b < 64"
  then have "take_bit 6 (unat b) = unat b" by (simp add: take_bit_eq_mod)
  then have "unat (take_bit 6 b) = unat b" by (simp only: unsigned_take_bit_eq)
  then have b: "b = take_bit 6 b" by (simp add: word_unat_eq_iff)
  have "take_bit 6 b AND 0xc0 = 0"
    by (rule bit_word_eqI) (auto simp: bit_simps less_Suc_eq numeral_eq_Suc)
  with b show ?thesis by simp
qed

lemma labels_at_encode:
  "\<forall>l \<in> set ls. l \<noteq> [] \<and> length l < 64 \<Longrightarrow>
   labels_at (pre @ concat (map encode_label ls) @ 0 # rest) (length pre) =
     Some (ls, length pre + length (concat (map encode_label ls)) + 1)"
proof (induction ls arbitrary: pre)
  case Nil
  then show ?case by (subst labels_at.simps) simp
next
  case (Cons l ls)
  let ?msg = "pre @ concat (map encode_label (l # ls)) @ 0 # rest"
  let ?pre = "pre @ encode_label l"
  have l: "l \<noteq> []" "length l < 64" using Cons.prems by simp_all
  have n: "unat (of_nat (length l) :: byte) = length l" using l by (simp add: unat_of_nat_byte)
  have at: "?msg ! length pre = of_nat (length l)" by (simp add: encode_label_def [of l] nth_append)
  have rec: "labels_at ?msg (Suc (length pre) + length l) =
      Some (ls, length ?pre + length (concat (map encode_label ls)) + 1)"
    using Cons.IH [of ?pre] Cons.prems by (simp add: encode_label_def [of l])
  have sl: "gslice (Suc (length pre)) (Suc (length pre) + length l) ?msg = bytes_of l"
    by (simp add: gslice_def encode_label_def [of l])
  show ?case
    using l n rec sl small_no_pointer [of "of_nat (length l)"]
    by (subst labels_at.simps) (simp add: at Let_def encode_label_def [of l])
qed

lemma question_of_built:
  assumes "\<forall>l \<in> set (split_char (CHR ''.'') name). l \<noteq> [] \<and> length l < 64" and "qtype < 65536"
  shows "question_of (build_query name qtype) = Some (name, qtype)"
proof -
  let ?ls = "split_char (CHR ''.'') name"
  let ?pre = "put16 0x1234 @ put16 0x0100 @ put16 1 @ replicate 6 0 :: bytes"
  let ?body = "concat (map encode_label ?ls)"
  have pl: "length ?pre = 12" by simp
  have msg: "build_query name qtype = ?pre @ ?body @ 0 # put16 qtype @ put16 1"
    by (simp add: build_query_def)
  have p: "labels_at (build_query name qtype) 12 = Some (?ls, 12 + length ?body + 1)"
    using labels_at_encode [OF assms(1), of ?pre "put16 qtype @ put16 1"] pl msg by simp
  have "be16 (build_query name qtype) 4 = 1"
    using be16_append_put16 [of "put16 0x1234 @ put16 0x0100" 1] by (simp add: build_query_def)
  moreover have "be16 (build_query name qtype) (12 + length ?body + 1) = qtype"
    using be16_append_put16 [of "?pre @ ?body @ [0]" qtype "put16 1"] assms(2)
    by (simp add: msg del: replicate.simps)
  moreover have "join ?ls ''.'' = name"
    by (rule join_split_char)
  ultimately show ?thesis
    using p by (simp add: question_of_def build_query_def)
qed

section \<open>The hint a query leaves\<close>

text \<open>The region a query from a client makes the redirector note, if any.\<close>

definition noted_region :: "(string \<Rightarrow> string) \<Rightarrow> dns_rule list \<Rightarrow> bytes \<Rightarrow> string option" where
  "noted_region ul rules query =
     (case question_of query of
        Some (name, qtype) \<Rightarrow>
          (case dns_lookup ul rules name of
             Some ip \<Rightarrow>
               if qtype = 1 \<and> to4 ip \<noteq> None then region_from_name ul name else None
           | None \<Rightarrow> None)
      | None \<Rightarrow> None)"

lemma build_a_response_eq: "build_a_response query ip = a_response query ip"
proof (cases "to4 ip")
  case None
  then show ?thesis by (simp add: build_a_response_def a_response_def)
next
  case (Some ip4)
  have l: "length ip4 = 4" by (rule to4_length [OF Some])
  have u: "go_upto (int (e + 4)) query = Ok (take (e + 4) query)" if "\<not> length query < e + 4" for e
    using that by (intro go_upto_Ok) simp
  have h: "dns_header query (take (e + 4) query) = Ok (header_bytes query (take (e + 4) query))"
    if "name_end_at query 12 = Some e" "\<not> length query < e + 4" for e
    using name_end_at_bounds [OF that(1)] that(2) by (intro dns_header_eq) simp_all
  have a: "go_slice 0 4 ip4 = Ok ip4" using l by (simp add: go_slice_def gslice_def)
  show ?thesis
    using u h by (auto simp: build_a_response_def a_response_def Some name_end_eq a Let_def split: option.split)
qed

text \<open>No packet makes the handler panic: it decides as \<open>redirect_of\<close> does.\<close>

lemma dns_redirect_eq: "dns_redirect ul rules query = Ok (redirect_of ul rules query)"
proof -
  have "a_response query ip \<noteq> Panic" for ip by (simp add: a_response_def split: option.split)
  then show ?thesis
    by (auto simp: dns_redirect_def redirect_of_def parse_question_eq build_a_response_eq
        split: option.split outcome.split)
qed

definition packets_of :: "(string \<Rightarrow> string) \<Rightarrow> dns_rule list \<Rightarrow> exchange \<Rightarrow> bytes \<Rightarrow> bytes list" where
  "packets_of ul rules forward query =
     (case redirect_of ul rules query of
        Some (name, resp) \<Rightarrow> [resp]
      | None \<Rightarrow> dns_forward_reply forward query)"

lemma dns_packets_eq: "dns_packets ul rules forward query = Ok (packets_of ul rules forward query)"
  by (simp add: dns_packets_def packets_of_def dns_redirect_eq)

lemma redirect_region:
  "(case redirect_of ul rules query of Some (name, resp) \<Rightarrow> region_from_name ul name | None \<Rightarrow> None) =
   noted_region ul rules query"
proof (cases "question_of query")
  case None
  then show ?thesis by (simp add: redirect_of_def noted_region_def)
next
  case (Some q)
  obtain name qtype where q: "q = (name, qtype)" by fastforce
  have "a_response query ip = Err e \<Longrightarrow> to4 ip = None" for ip e
    using a_response_spec [of query name qtype ip] Some q by (cases "to4 ip") auto
  moreover have "a_response query ip = Ok r \<Longrightarrow> to4 ip \<noteq> None" for ip r
    by (auto simp: a_response_def split: option.splits)
  moreover have "a_response query ip \<noteq> Panic" for ip by (simp add: a_response_def split: option.split)
  ultimately show ?thesis
    by (fastforce simp: redirect_of_def noted_region_def Some q split: option.split outcome.split)
qed

lemma dns_note_eq: "dns_note ul rules query = Ok (noted_region ul rules query)"
  by (simp add: dns_note_def dns_redirect_eq redirect_region)

lemma dns_handle_eq:
  "dns_handle ul rules forward now src query hs =
     Ok (packets_of ul rules forward query,
       (case (noted_region ul rules query, hs) of
          (Some region, Some h) \<Rightarrow> Some (hints_set now h (client_ip src) region)
        | _ \<Rightarrow> hs))"
  by (simp add: dns_handle_def dns_packets_eq dns_note_eq)

section \<open>Properties\<close>

text \<open>C35. An A query for a name under some rule is answered by the rule with the longest suffix:
  one packet, with the query's ID and question, one answer and that rule's IPv4 address; the
  upstream resolver is not asked, and the region of the name is noted for the client.\<close>

theorem dns_redirects_longest:
  assumes "parse_question query = Ok (Some (name, 1))" and "n = to_lower ul (trim_suffix name ''.'')"
    and "r \<in> set rules" and "rule_matches n r" and "distinct (map rule_suffix rules)"
    and "\<forall>r' \<in> set rules. rule_matches n r' \<longrightarrow> length (rule_suffix r') \<le> length (rule_suffix r)"
    and "rule_ip r = Some ip" and "to4 ip = Some ip4"
  shows "\<exists>resp. dns_handle ul (sort_rules rules) forward now src query (Some h) =
      Ok ([resp], Some (case region_from_name ul name of
         None \<Rightarrow> h | Some region \<Rightarrow> hints_set now h (client_ip src) region)) \<and>
    parse_question resp = Ok (Some (name, 1)) \<and> take 2 resp = take 2 query \<and> be16 resp 6 = 1 \<and>
    resp ! 2 AND 0x80 = 0x80 \<and> drop (length resp - 16) resp = dns_answer ip4"
proof -
  have l: "dns_lookup ul (sort_rules rules) name = Some ip"
    using lookup_sorted_rule [OF assms(3) _ assms(5), of ul name] assms(2,4,6,7) by simp
  have q: "question_of query = Some (name, 1)" using assms(1) by (simp add: parse_question_eq)
  obtain resp where b: "a_response query ip = Ok resp" and
    "parse_question resp = Ok (Some (name, 1))" "take 2 resp = take 2 query" "be16 resp 6 = 1"
    "resp ! 2 AND 0x80 = 0x80" "drop (length resp - 16) resp = dns_answer ip4"
    using a_response_spec [OF q assms(8)] by (auto simp: parse_question_eq)
  moreover have "dns_handle ul (sort_rules rules) forward now src query (Some h) =
      Ok ([resp], Some (case region_from_name ul name of
         None \<Rightarrow> h | Some region \<Rightarrow> hints_set now h (client_ip src) region))"
    using q l b assms(8)
    by (simp add: dns_handle_eq packets_of_def redirect_of_def noted_region_def split: option.split)
  ultimately show ?thesis by blast
qed

definition demo_rules :: "dns_rule list" where
  "demo_rules =
     [\<lparr>rule_suffix = ''dnas.playstation.org'', rule_ip = Some (ipv4 10 0 0 1)\<rparr>,
      \<lparr>rule_suffix = ''us.dnas.playstation.org'', rule_ip = Some (ipv4 10 0 0 2)\<rparr>]"

definition demo_name :: string where "demo_name = ''Gate1.US.dnas.playstation.org''"

lemma demo_query_parsed: "parse_question (build_query demo_name 1) = Ok (Some (demo_name, 1))"
  unfolding parse_question_eq outcome.inject by (rule question_of_built) (simp_all add: demo_name_def)

theorem dns_redirects_longest_witness:
  "\<exists>resp. dns_handle (\<lambda>x. x) (sort_rules demo_rules) (\<lambda>_. None) 7 ''192.0.2.7:1030'' (build_query demo_name 1)
      (Some new_region_hints) = Ok ([resp], Some (hints_set 7 new_region_hints ''192.0.2.7'' ''us'')) \<and>
    drop (length resp - 16) resp = dns_answer [10, 0, 0, 2]"
proof -
  have n: "''gate1.us.dnas.playstation.org'' = to_lower (\<lambda>x. x) (trim_suffix demo_name ''.'')" by code_simp
  have r: "region_from_name (\<lambda>x. x) demo_name = Some ''us''" by code_simp
  have c: "client_ip ''192.0.2.7:1030'' = ''192.0.2.7''" by code_simp
  have m: "rule_matches ''gate1.us.dnas.playstation.org'' (demo_rules ! 1)" by code_simp
  have i: "rule_ip (demo_rules ! 1) = Some (ipv4 10 0 0 2)" "to4 (ipv4 10 0 0 2) = Some [10, 0, 0, 2]" by code_simp+
  show ?thesis
    using dns_redirects_longest [OF demo_query_parsed n _ m _ _ i, of demo_rules "\<lambda>_. None" 7 "''192.0.2.7:1030''" new_region_hints]
    by (auto simp: demo_rules_def r c)
qed

text \<open>C36. The labels of a query as clients build it are read back: name and type, for every name
  whose labels are not empty and under 64 bytes.\<close>

theorem query_round_trip:
  assumes "\<forall>l \<in> set (split_char (CHR ''.'') name). l \<noteq> [] \<and> length l < 64" and "qtype < 65536"
  shows "parse_question (build_query name qtype) = Ok (Some (name, qtype))"
  unfolding parse_question_eq question_of_built [OF assms] ..

theorem query_round_trip_witness: "parse_question (build_query ''a.b'' 28) = Ok (Some (''a.b'', 28))"
  by (rule query_round_trip) simp_all

text \<open>The flags of a redirected answer do not depend on the query: the byte is 0x81, so the
  authoritative bit (0x04) is never set and the recursion-desired bit is set even when the
  query did not set it, against what the comment on that line says.\<close>

lemma dns_flags_fixed:
  assumes "build_a_response query ip = Ok resp"
  shows "resp ! 2 = 0x81 \<and> resp ! 2 AND 0x04 = 0"
  using dns_flags [OF assms [unfolded build_a_response_eq]] by simp

end
