(* ===== verification/Startup.thy ===== *)
theory Startup
  imports Gencerts Proxy Dns
begin

text \<open>
  main.go: the flags and their defaults, the certificates, the redirect rules, and the server
  and redirector that come out of it.  The parameters are the network (\<open>dial\<close>), the order
  of a range over a map (\<open>pick\<close>) and crypto/tls and crypto/x509 (\<open>key_pair\<close>, \<open>parse_leaf\<close>).
\<close>

section \<open>Flags\<close>

text \<open>\<open>stringList\<close> and \<open>proxyList\<close>, the values of the repeatable flags.\<close>

definition string_list_set :: "string list \<Rightarrow> string \<Rightarrow> string list" where
  "string_list_set xs v = xs @ filter (\<lambda>p. p \<noteq> []) (map trim_space (split_char (CHR '','') v))"

definition string_list_string :: "string list \<Rightarrow> string" where
  "string_list_string xs = join xs '',''"

definition proxy_list_set :: "string list \<Rightarrow> string \<Rightarrow> string list" where
  "proxy_list_set xs v = xs @ [trim_space v]"

definition proxy_list_string :: "string list \<Rightarrow> string" where
  "proxy_list_string xs = join xs '' ''"

text \<open>The variables of \<open>main\<close>; \<open>opt_given\<close> are the flags that were on the command line.\<close>

record options =
  opt_docroot :: string
  opt_certdir :: string
  opt_dns :: string
  opt_upstream :: string
  opt_redirect_ip :: string
  opt_region :: string
  opt_dns_config :: string
  opt_https :: "string list"
  opt_force_success :: success_mode
  opt_suffixes :: "string list"
  opt_proxies :: "string list"
  opt_given :: "string list"

definition default_options :: options where
  "default_options =
     \<lparr>opt_docroot = ''./gate'', opt_certdir = ''./certs'', opt_dns = '':53'',
      opt_upstream = ''1.1.1.1:53'', opt_redirect_ip = [], opt_region = ''jp'',
      opt_dns_config = ''dns.config'', opt_https = [], opt_force_success = SuccessOff,
      opt_suffixes = [], opt_proxies = [], opt_given = []\<rparr>"

text \<open>One flag with its value; an unknown flag or a value its type refuses ends the program.\<close>

definition set_flag :: "(string \<Rightarrow> string) \<Rightarrow> string \<Rightarrow> string \<Rightarrow> options \<Rightarrow> options outcome" where
  "set_flag ul name v o1 =
     (let o2 = o1\<lparr>opt_given := name # opt_given o1\<rparr> in
      if name = ''docroot'' then Ok (o2\<lparr>opt_docroot := v\<rparr>)
      else if name = ''certdir'' then Ok (o2\<lparr>opt_certdir := v\<rparr>)
      else if name = ''dns'' then Ok (o2\<lparr>opt_dns := v\<rparr>)
      else if name = ''upstream'' then Ok (o2\<lparr>opt_upstream := v\<rparr>)
      else if name = ''redirect-ip'' then Ok (o2\<lparr>opt_redirect_ip := v\<rparr>)
      else if name = ''default-region'' then Ok (o2\<lparr>opt_region := v\<rparr>)
      else if name = ''dns-config'' then Ok (o2\<lparr>opt_dns_config := v\<rparr>)
      else if name = ''https'' then Ok (o2\<lparr>opt_https := string_list_set (opt_https o1) v\<rparr>)
      else if name = ''force-success'' then
        (case success_mode_set ul v of Inl e \<Rightarrow> Err e | Inr m \<Rightarrow> Ok (o2\<lparr>opt_force_success := m\<rparr>))
      else if name = ''dns-suffix'' then Ok (o2\<lparr>opt_suffixes := string_list_set (opt_suffixes o1) v\<rparr>)
      else if name = ''proxy'' then Ok (o2\<lparr>opt_proxies := proxy_list_set (opt_proxies o1) v\<rparr>)
      else Err (FmtErr ''flag provided but not defined: -%s'' [name]))"

fun set_flags :: "(string \<Rightarrow> string) \<Rightarrow> (string \<times> string) list \<Rightarrow> options \<Rightarrow> options outcome" where
  "set_flags ul [] o1 = Ok o1"
| "set_flags ul ((name, v) # fs) o1 = obind (set_flag ul name v o1) (set_flags ul fs)"

definition is_flag_set :: "options \<Rightarrow> string \<Rightarrow> bool" where
  "is_flag_set o1 name \<longleftrightarrow> name \<in> set (opt_given o1)"

definition with_defaults :: "options \<Rightarrow> options" where
  "with_defaults o1 =
     (let o2 = (if opt_https o1 = [] then o1\<lparr>opt_https := ['':443'']\<rparr> else o1)
      in if opt_suffixes o2 = [] then o2\<lparr>opt_suffixes := [''dnas.playstation.org'']\<rparr> else o2)"

section \<open>Certificates\<close>

definition main_regions :: "string list" where "main_regions = [''jp'', ''eu'', ''us'']"

text \<open>
  One region: a certificate that cannot be loaded or parsed is skipped with a warning;
  \<open>cert.Certificate[0]\<close> of an empty chain would be a panic.
\<close>

definition load_region ::
  "(string \<Rightarrow> string \<Rightarrow> certificate outcome) \<Rightarrow> (bytes \<Rightarrow> leaf_info outcome) \<Rightarrow> string \<Rightarrow> bytes list \<Rightarrow>
   string \<Rightarrow> (string \<rightharpoonup> certificate) \<Rightarrow> (string \<rightharpoonup> certificate) outcome" where
  "load_region key_pair parse_leaf certdir chain region certs =
     (let cert_path = join_path [certdir, ''cert-'' @ region @ ''.pem''];
          key_path = join_path [certdir, ''cert-'' @ region @ ''-key.pem'']
      in case key_pair cert_path key_path of
           Err e \<Rightarrow> Ok certs
         | Panic \<Rightarrow> Panic
         | Ok cert \<Rightarrow>
             let chain' = append_chain (cert_chain cert) chain in
             (case chain' of
                [] \<Rightarrow> Panic
              | leaf_der # _ \<Rightarrow>
                  (case parse_leaf leaf_der of
                     Err e \<Rightarrow> Ok certs
                   | Panic \<Rightarrow> Panic
                   | Ok leaf \<Rightarrow> Ok (certs(region \<mapsto> cert\<lparr>cert_chain := chain', cert_leaf := Some leaf\<rparr>)))))"

fun load_regions ::
  "(string \<Rightarrow> string \<Rightarrow> certificate outcome) \<Rightarrow> (bytes \<Rightarrow> leaf_info outcome) \<Rightarrow> string \<Rightarrow> bytes list \<Rightarrow>
   string list \<Rightarrow> (string \<rightharpoonup> certificate) \<Rightarrow> (string \<rightharpoonup> certificate) outcome" where
  "load_regions key_pair parse_leaf certdir chain [] certs = Ok certs"
| "load_regions key_pair parse_leaf certdir chain (r # rs) certs =
     obind (load_region key_pair parse_leaf certdir chain r certs)
       (load_regions key_pair parse_leaf certdir chain rs)"

text \<open>Without a CA file the chain is empty, which is only a warning.\<close>

definition load_chain :: "disk \<Rightarrow> string \<Rightarrow> bytes list" where
  "load_chain d certdir =
     (case load_pem_certs (disk_view d) (join_path [certdir, ''ca-cert.pem'']) of Ok cs \<Rightarrow> cs | _ \<Rightarrow> [])"

definition choose_region :: "((string \<rightharpoonup> certificate) \<Rightarrow> string) \<Rightarrow> (string \<rightharpoonup> certificate) \<Rightarrow> string \<Rightarrow> string" where
  "choose_region pick certs region = (case certs region of None \<Rightarrow> pick certs | Some _ \<Rightarrow> region)"

section \<open>Rules\<close>

text \<open>
  \<open>outboundIP\<close>: \<open>dial\<close> is the local address of the socket dialled to the resolver, or the error
  of dialling; \<open>To4\<close> of it decides later whether it can be an answer.
\<close>

definition outbound_ip :: "bytes outcome \<Rightarrow> bytes" where
  "outbound_ip dial = (case dial of Ok addr \<Rightarrow> addr | _ \<Rightarrow> ipv4 127 0 0 1)"

definition redirect_ip :: "bytes outcome \<Rightarrow> options \<Rightarrow> ip" where
  "redirect_ip dial o1 =
     (case parse_ip (opt_redirect_ip o1) of None \<Rightarrow> Some (outbound_ip dial) | Some a \<Rightarrow> Some a)"

text \<open>The rules of dns.config; a missing file is only an error when the flag names it.\<close>

definition config_rules :: "(string \<Rightarrow> string) \<Rightarrow> disk \<Rightarrow> options \<Rightarrow> ip \<Rightarrow> dns_rule list outcome" where
  "config_rules ul d o1 target =
     (case load_dns_config ul (opt_dns_config o1) (disk_read d (opt_dns_config o1)) target of
        Ok extra \<Rightarrow> Ok extra
      | Panic \<Rightarrow> Panic
      | Err e \<Rightarrow>
          if e \<noteq> ErrNotExist then Err (WrapErr ''dns'' e)
          else if is_flag_set o1 ''dns-config''
          then Err (FmtErr ''dns: config file %s not found'' [opt_dns_config o1])
          else Ok [])"

definition merge_rules :: "(string \<Rightarrow> string) \<Rightarrow> dns_rule list \<Rightarrow> string list \<Rightarrow> ip \<Rightarrow> dns_rule list" where
  "merge_rules ul extra sfx target =
     sort_rules (dedupe_rules (extra @ rules_from_suffixes ul sfx target))"

section \<open>main\<close>

text \<open>What is running after \<open>main\<close> has set everything up; no redirector with an empty -dns.\<close>

record redirector =
  rd_rules :: "dns_rule list"
  rd_upstream :: string
  rd_addr :: string

record service =
  sv_server :: server
  sv_hints :: "region_hints option"
  sv_redirector :: "redirector option"
  sv_https :: "string list"

definition build_server ::
  "((string \<rightharpoonup> certificate) \<Rightarrow> string) \<Rightarrow> (string \<Rightarrow> string \<Rightarrow> certificate outcome) \<Rightarrow>
   (bytes \<Rightarrow> leaf_info outcome) \<Rightarrow> disk \<Rightarrow> options \<Rightarrow> server outcome" where
  "build_server pick key_pair parse_leaf d o1 =
     obind (parse_proxy_rules (opt_proxies o1)) (\<lambda>proxies.
     obind (load_regions key_pair parse_leaf (opt_certdir o1) (load_chain d (opt_certdir o1)) main_regions Map.empty) (\<lambda>certs.
     if list_all (\<lambda>r. certs r = None) main_regions
     then Err (FmtErr ''no certificates loaded from %s'' [opt_certdir o1])
     else Ok \<lparr>doc_root = opt_docroot o1, srv_certs = certs,
              default_region = choose_region pick certs (opt_region o1),
              force_success = opt_force_success o1, srv_proxies = proxies\<rparr>))"

definition build_redirector ::
  "(string \<Rightarrow> string) \<Rightarrow> bytes outcome \<Rightarrow> disk \<Rightarrow> options \<Rightarrow> redirector option outcome" where
  "build_redirector ul dial d o1 =
     (if opt_dns o1 = [] then Ok None
      else let target = redirect_ip dial o1 in
        obind (config_rules ul d o1 target) (\<lambda>extra.
        Ok (Some \<lparr>rd_rules = merge_rules ul extra (opt_suffixes o1) target,
                  rd_upstream = opt_upstream o1, rd_addr = opt_dns o1\<rparr>)))"

definition startup ::
  "(string \<Rightarrow> string) \<Rightarrow> bytes outcome \<Rightarrow> ((string \<rightharpoonup> certificate) \<Rightarrow> string) \<Rightarrow>
   (string \<Rightarrow> string \<Rightarrow> certificate outcome) \<Rightarrow> (bytes \<Rightarrow> leaf_info outcome) \<Rightarrow> disk \<Rightarrow>
   (string \<times> string) list \<Rightarrow> service outcome" where
  "startup ul dial pick key_pair parse_leaf d args =
     obind (set_flags ul args default_options) (\<lambda>o0.
     let o1 = with_defaults o0 in
     obind (build_server pick key_pair parse_leaf d o1) (\<lambda>s.
     obind (build_redirector ul dial d o1) (\<lambda>r.
     Ok \<lparr>sv_server = s, sv_hints = (if opt_dns o1 = [] then None else Some new_region_hints),
         sv_redirector = r, sv_https = opt_https o1\<rparr>)))"

section \<open>The certificates that are loaded\<close>

text \<open>What a loaded certificate is: the region's own one with the CA chain behind it.\<close>

definition from_region ::
  "(string \<Rightarrow> string \<Rightarrow> certificate outcome) \<Rightarrow> string \<Rightarrow> bytes list \<Rightarrow> string \<Rightarrow> certificate \<Rightarrow> bool" where
  "from_region key_pair certdir ca r cert \<longleftrightarrow>
     (\<exists>c. key_pair (join_path [certdir, ''cert-'' @ r @ ''.pem''])
            (join_path [certdir, ''cert-'' @ r @ ''-key.pem'']) = Ok c \<and>
          cert_key cert = cert_key c \<and> has_prefix (cert_chain cert) (cert_chain c) \<and>
          set (cert_chain cert) = set (cert_chain c) \<union> set ca)"

lemma load_region_Ok:
  assumes "load_region key_pair parse_leaf certdir ca r certs = Ok certs'"
  shows "certs' = certs \<or> (\<exists>cert. certs' = certs(r \<mapsto> cert) \<and> from_region key_pair certdir ca r cert)"
proof -
  from assms consider "certs' = certs"
    | c leaf_info where "key_pair (join_path [certdir, ''cert-'' @ r @ ''.pem''])
        (join_path [certdir, ''cert-'' @ r @ ''-key.pem'']) = Ok c"
      "certs' = certs(r \<mapsto> c\<lparr>cert_chain := append_chain (cert_chain c) ca, cert_leaf := Some leaf_info\<rparr>)"
    by (auto simp: load_region_def Let_def split: outcome.splits list.splits)
  then show ?thesis
  proof cases
    case 2
    obtain m where "append_chain (cert_chain c) ca = cert_chain c @ m" using append_chain_prefix by blast
    with 2 append_chain_set [of "cert_chain c" ca] show ?thesis
      by (intro disjI2) (auto simp: from_region_def has_prefix_iff)
  qed simp
qed

lemma load_regions_Ok:
  "load_regions key_pair parse_leaf certdir ca rs certs = Ok certs' \<Longrightarrow> certs' r = Some cert \<Longrightarrow>
   certs r = Some cert \<or> r \<in> set rs \<and> from_region key_pair certdir ca r cert"
proof (induction rs arbitrary: certs)
  case (Cons r' rs)
  then obtain certs1 where l: "load_region key_pair parse_leaf certdir ca r' certs = Ok certs1"
    and "load_regions key_pair parse_leaf certdir ca rs certs1 = Ok certs'" by (auto simp: obind_Ok)
  with Cons.IH [of certs1] Cons.prems(2) load_region_Ok [OF l] show ?case by (auto split: if_splits)
qed simp

lemma build_server_Ok:
  assumes "build_server pick key_pair parse_leaf d o1 = Ok s"
  obtains certs where "load_regions key_pair parse_leaf (opt_certdir o1) (load_chain d (opt_certdir o1)) main_regions Map.empty = Ok certs"
    and "srv_certs s = certs" and "default_region s = choose_region pick certs (opt_region o1)"
    and "\<exists>r \<in> set main_regions. certs r \<noteq> None"
proof -
  from assms obtain proxies certs where
    l: "load_regions key_pair parse_leaf (opt_certdir o1) (load_chain d (opt_certdir o1)) main_regions Map.empty = Ok certs"
    and n: "\<not> list_all (\<lambda>r. certs r = None) main_regions"
    and s: "s = \<lparr>doc_root = opt_docroot o1, srv_certs = certs,
              default_region = choose_region pick certs (opt_region o1),
              force_success = opt_force_success o1, srv_proxies = proxies\<rparr>"
    unfolding build_server_def by (auto simp: obind_Ok simp del: load_regions.simps split: if_splits)
  from n have "\<exists>r \<in> set main_regions. certs r \<noteq> None" unfolding list_all_iff by blast
  with that [OF l] s show ?thesis by simp
qed

lemma build_server_cert:
  assumes "build_server pick key_pair parse_leaf d o1 = Ok s"
    and pick: "\<forall>certs. (\<exists>r \<in> set main_regions. certs r \<noteq> None) \<longrightarrow> certs (pick certs) \<noteq> None"
  shows "\<exists>cert source. cert_for (srv_certs s) (default_region s) hs ago addr = (Some cert, source) \<and>
    (\<exists>r \<in> set main_regions. from_region key_pair (opt_certdir o1) (load_chain d (opt_certdir o1)) r cert)"
proof -
  obtain certs where l: "load_regions key_pair parse_leaf (opt_certdir o1) (load_chain d (opt_certdir o1)) main_regions Map.empty = Ok certs"
    and s: "srv_certs s = certs" "default_region s = choose_region pick certs (opt_region o1)"
    and "\<exists>r \<in> set main_regions. certs r \<noteq> None" by (rule build_server_Ok [OF assms(1)])
  with pick have "certs (default_region s) \<noteq> None"
    by (auto simp: choose_region_def split: option.splits)
  then obtain cert source where c: "cert_for (srv_certs s) (default_region s) hs ago addr = (Some cert, source)"
    using cert_for_some [of certs "default_region s" hs ago addr] s(1)
    by (cases "cert_for certs (default_region s) hs ago addr") auto
  have "\<exists>r. certs r = Some cert"
    using c s(1) by (auto simp: cert_for_def split: option.splits)
  with load_regions_Ok [OF l] c show ?thesis by auto
qed

section \<open>The rules that are in force\<close>

lemma merge_rules_find:
  "find (\<lambda>r. rule_suffix r = n) (merge_rules ul extra sfx target) =
   (case find (\<lambda>r. rule_suffix r = n) extra of
      Some r \<Rightarrow> Some r
    | None \<Rightarrow> if n \<noteq> [] \<and> n \<in> normalize_name ul ` set sfx then Some \<lparr>rule_suffix = n, rule_ip = target\<rparr> else None)"
proof -
  let ?all = "extra @ rules_from_suffixes ul sfx target"
  let ?f = "\<lambda>rs. find (\<lambda>r. rule_suffix r = n) rs"
  have d: "distinct (map rule_suffix (sort_rules (dedupe_rules ?all)))"
    by (rule sort_rules_distinct [OF dedupe_rules_distinct])
  have "?f (merge_rules ul extra sfx target) = ?f (dedupe_rules ?all)"
  proof (cases "?f (dedupe_rules ?all)")
    case None
    then have "\<forall>r \<in> set (dedupe_rules ?all). rule_suffix r \<noteq> n" by (auto simp: find_None_iff)
    then have "?f (sort_rules (dedupe_rules ?all)) = None" by (auto simp: find_None_iff)
    with None show ?thesis by (simp add: merge_rules_def)
  next
    case (Some r)
    then have "r \<in> set (dedupe_rules ?all)" "rule_suffix r = n" by (auto simp: find_Some_iff)
    with find_distinct [OF d, of r] Some show ?thesis by (simp add: merge_rules_def)
  qed
  also have "\<dots> = ?f ?all" by (rule dedupe_rules_find)
  also have "?f ?all = (case ?f extra of Some r \<Rightarrow> Some r | None \<Rightarrow> ?f (rules_from_suffixes ul sfx target))"
    by (induction extra) simp_all
  also have "?f (rules_from_suffixes ul sfx target) =
      (if n \<noteq> [] \<and> n \<in> normalize_name ul ` set sfx then Some \<lparr>rule_suffix = n, rule_ip = target\<rparr> else None)"
    by (induction sfx) (auto simp: Let_def)
  finally show ?thesis by (simp split: option.split)
qed

lemma merge_rules_sorted:
  "distinct (map rule_suffix (merge_rules ul extra sfx target))"
  "sorted_wrt (\<lambda>a b. length (rule_suffix b) \<le> length (rule_suffix a)) (merge_rules ul extra sfx target)"
  unfolding merge_rules_def
  by (rule sort_rules_distinct [OF dedupe_rules_distinct], rule sort_rules_longest)

lemma startup_Ok:
  assumes "startup ul dial pick key_pair parse_leaf d args = Ok sv"
    and "set_flags ul args default_options = Ok o0" and "o1 = with_defaults o0"
  shows "build_server pick key_pair parse_leaf d o1 = Ok (sv_server sv)"
    and "build_redirector ul dial d o1 = Ok (sv_redirector sv)"
    and "sv_hints sv = (if opt_dns o1 = [] then None else Some new_region_hints)"
  using assms by (auto simp: startup_def obind_Ok Let_def)

section \<open>Properties\<close>

text \<open>C26. A service that has started always has a certificate to present, whatever the client has
  or has not looked up: it is the key pair of one of the three regions, with its own chain first
  and every CA certificate behind it, so a connection never fails for want of one.\<close>

theorem startup_certificate:
  assumes "startup ul dial pick key_pair parse_leaf d args = Ok sv"
    and "set_flags ul args default_options = Ok o0" and "dir_name = opt_certdir (with_defaults o0)"
    and "\<forall>certs. (\<exists>r \<in> set main_regions. certs r \<noteq> None) \<longrightarrow> certs (pick certs) \<noteq> None"
  shows "\<exists>cert source. cert_for (srv_certs (sv_server sv)) (default_region (sv_server sv)) hs ago addr = (Some cert, source) \<and>
    (\<exists>r \<in> set main_regions. from_region key_pair dir_name (load_chain d dir_name) r cert)"
  using build_server_cert [OF startup_Ok(1) [OF assms(1,2) refl] assms(4)] assms(3) by blast

text \<open>
  The rule in force for one name: the first of dns.config, else a default.  Looking a name up
  in the merged list finds the longest one in force among the names it lies under.
\<close>

definition rule_in_force ::
  "(string \<Rightarrow> string) \<Rightarrow> dns_rule list \<Rightarrow> string list \<Rightarrow> ip \<Rightarrow> string \<Rightarrow> ip option" where
  "rule_in_force ul extra sfx target suff =
     (case find (\<lambda>r. rule_suffix r = suff) extra of
        Some r \<Rightarrow> Some (rule_ip r)
      | None \<Rightarrow> if suff \<noteq> [] \<and> suff \<in> normalize_name ul ` set sfx then Some target else None)"

lemma rule_in_force_iff:
  "rule_in_force ul extra sfx target suff = Some ip \<longleftrightarrow>
   (\<exists>r \<in> set (merge_rules ul extra sfx target). rule_suffix r = suff \<and> rule_ip r = ip)"
proof -
  let ?m = "merge_rules ul extra sfx target"
  have "rule_in_force ul extra sfx target suff = map_option rule_ip (find (\<lambda>r. rule_suffix r = suff) ?m)"
    by (auto simp: rule_in_force_def merge_rules_find split: option.split)
  moreover have "find (\<lambda>r. rule_suffix r = suff) ?m = Some r \<longleftrightarrow> r \<in> set ?m \<and> rule_suffix r = suff" for r
    using find_distinct [OF merge_rules_sorted(1), of r ul extra sfx target]
    by (auto simp: find_Some_iff)
  ultimately show ?thesis by auto
qed

lemma merged_lookup:
  assumes "n = to_lower ul (trim_suffix name ''.'')"
    and "covers = (\<lambda>s. n = s \<or> (\<exists>p. n = p @ ''.'' @ s))"
    and "rule = rule_in_force ul extra sfx target"
  shows "(\<exists>s ip. covers s \<and> rule s = Some ip \<and>
        (\<forall>s'. covers s' \<and> rule s' \<noteq> None \<longrightarrow> length s' \<le> length s) \<and>
        dns_lookup ul (merge_rules ul extra sfx target) name = ip) \<or>
      (\<forall>s. covers s \<longrightarrow> rule s = None) \<and> dns_lookup ul (merge_rules ul extra sfx target) name = None"
proof -
  let ?m = "merge_rules ul extra sfx target"
  have u: "rule_matches n r \<longleftrightarrow> covers (rule_suffix r)" for r
    by (simp add: rule_matches_def assms(2) has_suffix_iff)
  have look: "dns_lookup ul ?m name = (case find (rule_matches n) ?m of None \<Rightarrow> None | Some r \<Rightarrow> rule_ip r)"
    by (simp add: dns_lookup_def assms(1))
  show ?thesis
  proof (cases "find (rule_matches n) ?m")
    case None
    then have "rule s = None" if "covers s" for s
      using rule_in_force_iff [of ul extra sfx target s] that u
      by (cases "rule s") (auto simp: assms(3) find_None_iff)
    with None look show ?thesis by simp
  next
    case (Some r)
    then have r: "r \<in> set ?m" "covers (rule_suffix r)" by (auto simp: find_Some_iff u)
    have "length s' \<le> length (rule_suffix r)" if "covers s'" "rule s' \<noteq> None" for s'
    proof -
      from that(2) obtain r' where r': "r' \<in> set ?m" "rule_suffix r' = s'"
        using rule_in_force_iff [of ul extra sfx target s'] by (auto simp: assms(3))
      then have "rule_matches n r'" using u that(1) by simp
      from find_sorted_longest [OF sort_rules_sorted r'(1) [unfolded merge_rules_def] this] Some r'(2)
      show ?thesis by (simp add: merge_rules_def)
    qed
    moreover have "rule (rule_suffix r) = Some (rule_ip r)"
      using r(1) rule_in_force_iff [of ul extra sfx target "rule_suffix r" "rule_ip r"]
      by (auto simp: assms(3))
    ultimately show ?thesis using r(2) Some look by auto
  qed
qed

text \<open>C27. What a started redirector does with a name: it goes to the address of the longest name in
  force that equals the queried one or that the queried one lies under, label by label; where
  none is, it is not redirected.  In force are the names of dns.config, each with the address
  of its first line there, and those -dns-suffix defaults that dns.config does not name, with
  the redirect address.\<close>

theorem startup_rules:
  assumes "startup ul dial pick key_pair parse_leaf d args = Ok sv"
    and "set_flags ul args default_options = Ok o0" and "o1 = with_defaults o0"
    and "sv_redirector sv = Some rd"
    and "n = to_lower ul (trim_suffix name ''.'')"
    and "covers = (\<lambda>s. n = s \<or> (\<exists>p. n = p @ ''.'' @ s))"
  shows "\<exists>extra rule. config_rules ul d o1 (redirect_ip dial o1) = Ok extra \<and>
    rule = (\<lambda>s. case find (\<lambda>r. rule_suffix r = s) extra of
         Some r \<Rightarrow> Some (rule_ip r)
       | None \<Rightarrow> if s \<noteq> [] \<and> s \<in> normalize_name ul ` set (opt_suffixes o1)
                then Some (redirect_ip dial o1) else None) \<and>
    ((\<exists>s ip. covers s \<and> rule s = Some ip \<and>
        (\<forall>s'. covers s' \<and> rule s' \<noteq> None \<longrightarrow> length s' \<le> length s) \<and>
        dns_lookup ul (rd_rules rd) name = ip) \<or>
     (\<forall>s. covers s \<longrightarrow> rule s = None) \<and> dns_lookup ul (rd_rules rd) name = None)"
proof -
  obtain extra where e: "config_rules ul d o1 (redirect_ip dial o1) = Ok extra"
    and m: "rd_rules rd = merge_rules ul extra (opt_suffixes o1) (redirect_ip dial o1)"
    using startup_Ok(2) [OF assms(1-3)] assms(4)
    by (auto simp: build_redirector_def obind_Ok Let_def split: if_splits)
  from merged_lookup [OF assms(5,6) refl, of extra "opt_suffixes o1" "redirect_ip dial o1"] e
  show ?thesis unfolding m rule_in_force_def [abs_def] by blast
qed

definition demo_pair :: "string \<Rightarrow> string \<Rightarrow> certificate outcome" where
  "demo_pair cert key =
     (if cert = ''certs/cert-eu.pem'' then Err ErrNotExist
      else Ok \<lparr>cert_chain = [[0x30, 1]], cert_key = OtherKey, cert_leaf = None\<rparr>)"

definition demo_pick :: "(string \<rightharpoonup> certificate) \<Rightarrow> string" where
  "demo_pick certs = (if certs ''jp'' \<noteq> None then ''jp'' else if certs ''eu'' \<noteq> None then ''eu'' else ''us'')"

definition demo_leaf_info :: leaf_info where
  "demo_leaf_info = \<lparr>leaf_cn = ''gate1'', leaf_alg = ''SHA1-RSA'', leaf_not_before = ''2000-01-01'', leaf_not_after = ''2037-12-31''\<rparr>"

definition empty_disk :: disk where
  "empty_disk = \<lparr>disk_files = (\<lambda>_. None), disk_unreadable = (\<lambda>_. False), disk_write_fails = (\<lambda>_. None)\<rparr>"

definition demo_options :: options where
  "demo_options = default_options\<lparr>opt_given := [''default-region''], opt_region := ''eu''\<rparr>"

lemma demo_flags: "set_flags (\<lambda>x. x) [(''default-region'', ''eu'')] default_options = Ok demo_options"
  by (simp add: set_flag_def Let_def demo_options_def default_options_def)

lemma demo_cert_paths:
  "join_path [''./certs'', ''cert-jp.pem''] = ''certs/cert-jp.pem''"
  "join_path [''./certs'', ''cert-eu.pem''] = ''certs/cert-eu.pem''"
  "join_path [''./certs'', ''cert-us.pem''] = ''certs/cert-us.pem''"
  by code_simp+

lemma demo_startup:
  "\<exists>sv rd. startup (\<lambda>x. x) (Ok (ipv4 10 0 0 9)) demo_pick demo_pair (\<lambda>_. Ok demo_leaf_info) empty_disk
     [(''default-region'', ''eu'')] = Ok sv \<and> sv_redirector sv = Some rd"
proof -
  let ?o = "with_defaults demo_options"
  have o: "opt_certdir ?o = ''./certs''" "opt_dns ?o = '':53''" "opt_proxies ?o = []" "opt_dns_config ?o = ''dns.config''"
    "opt_given ?o = [''default-region'']"
    by (simp_all add: with_defaults_def demo_options_def default_options_def)
  have ch: "load_chain empty_disk x = []" for x
    by (simp add: load_chain_def load_pem_certs_def read_file_def disk_view_def empty_disk_def)
  have "\<exists>s. build_server demo_pick demo_pair (\<lambda>_. Ok demo_leaf_info) empty_disk ?o = Ok s"
    using demo_cert_paths [simplified]
    by (simp add: build_server_def o ch main_regions_def load_region_def demo_pair_def Let_def
        parse_proxy_rules_def sort_proxies_def)
  moreover have "\<exists>rd. build_redirector (\<lambda>x. x) (Ok (ipv4 10 0 0 9)) empty_disk ?o = Ok (Some rd)"
    by (simp add: build_redirector_def o config_rules_def load_dns_config_def disk_read_def empty_disk_def
        is_flag_set_def Let_def)
  ultimately show ?thesis by (auto simp: startup_def demo_flags Let_def simp del: set_flags.simps)
qed

theorem startup_certificate_witness:
  "\<exists>sv cert source. startup (\<lambda>x. x) (Ok (ipv4 10 0 0 9)) demo_pick demo_pair (\<lambda>_. Ok demo_leaf_info) empty_disk
     [(''default-region'', ''eu'')] = Ok sv \<and>
     cert_for (srv_certs (sv_server sv)) (default_region (sv_server sv)) None (\<lambda>_. []) ''192.0.2.7'' = (Some cert, source)"
proof -
  obtain sv where sv: "startup (\<lambda>x. x) (Ok (ipv4 10 0 0 9)) demo_pick demo_pair (\<lambda>_. Ok demo_leaf_info) empty_disk
     [(''default-region'', ''eu'')] = Ok sv" using demo_startup by blast
  have "\<forall>certs. (\<exists>r \<in> set main_regions. certs r \<noteq> None) \<longrightarrow> certs (demo_pick certs) \<noteq> None"
    by (auto simp: main_regions_def demo_pick_def)
  from startup_certificate [OF sv demo_flags refl this, of None "\<lambda>_. []" "''192.0.2.7''"] sv
  show ?thesis by blast
qed

theorem startup_rules_witness:
  "\<exists>sv rd. startup (\<lambda>x. x) (Ok (ipv4 10 0 0 9)) demo_pick demo_pair (\<lambda>_. Ok demo_leaf_info) empty_disk
     [(''default-region'', ''eu'')] = Ok sv \<and> sv_redirector sv = Some rd \<and>
     dns_lookup (\<lambda>x. x) (rd_rules rd) ''Gate1.jp.DNAS.playstation.org.'' =
       redirect_ip (Ok (ipv4 10 0 0 9)) (with_defaults demo_options)"
proof -
  let ?o = "with_defaults demo_options" and ?n = "''gate1.jp.dnas.playstation.org''"
  obtain sv rd where sv: "startup (\<lambda>x. x) (Ok (ipv4 10 0 0 9)) demo_pick demo_pair (\<lambda>_. Ok demo_leaf_info) empty_disk
     [(''default-region'', ''eu'')] = Ok sv" "sv_redirector sv = Some rd" using demo_startup by blast
  have n: "?n = to_lower (\<lambda>x. x) (trim_suffix ''Gate1.jp.DNAS.playstation.org.'' ''.'')" by code_simp
  have o: "opt_suffixes ?o = [''dnas.playstation.org'']" "opt_dns_config ?o = ''dns.config''"
    "opt_given ?o = [''default-region'']"
    by (simp_all add: with_defaults_def demo_options_def default_options_def)
  have norm: "normalize_name (\<lambda>x. x) ''dnas.playstation.org'' = ''dnas.playstation.org''" by code_simp
  have c: "config_rules (\<lambda>x. x) empty_disk ?o t = Ok []" for t
    by (simp add: o config_rules_def load_dns_config_def disk_read_def empty_disk_def is_flag_set_def)
  define covers where "covers = (\<lambda>s. ?n = s \<or> (\<exists>p. ?n = p @ ''.'' @ s))"
  let ?t = "redirect_ip (Ok (ipv4 10 0 0 9)) ?o"
  from startup_rules [OF sv(1) demo_flags refl sv(2) n covers_def] obtain extra rule where
    e: "config_rules (\<lambda>x. x) empty_disk ?o ?t = Ok extra"
    and r: "rule = (\<lambda>s. case find (\<lambda>r. rule_suffix r = s) extra of
         Some r \<Rightarrow> Some (rule_ip r)
       | None \<Rightarrow> if s \<noteq> [] \<and> s \<in> normalize_name (\<lambda>x. x) ` set (opt_suffixes ?o) then Some ?t else None)"
    and d: "(\<exists>s ip. covers s \<and> rule s = Some ip \<and>
        (\<forall>s'. covers s' \<and> rule s' \<noteq> None \<longrightarrow> length s' \<le> length s) \<and>
        dns_lookup (\<lambda>x. x) (rd_rules rd) ''Gate1.jp.DNAS.playstation.org.'' = ip) \<or>
      (\<forall>s. covers s \<longrightarrow> rule s = None) \<and>
      dns_lookup (\<lambda>x. x) (rd_rules rd) ''Gate1.jp.DNAS.playstation.org.'' = None" by blast
  have rule: "rule = (\<lambda>s. if s = ''dnas.playstation.org'' then Some ?t else None)"
    using e c [of ?t] by (auto simp: r o norm)
  have "?n = ''gate1.jp'' @ ''.'' @ ''dnas.playstation.org''" by simp
  then have "covers ''dnas.playstation.org''" unfolding covers_def by blast
  with d have "dns_lookup (\<lambda>x. x) (rd_rules rd) ''Gate1.jp.DNAS.playstation.org.'' = ?t"
    unfolding rule by (metis option.distinct(1) option.inject)
  with sv show ?thesis by blast
qed

end
