(* ===== verification/Hashes.thy ===== *)
theory Hashes
  imports GoConv
begin

text \<open>
  The hash functions the program takes from Go's standard library: SHA-1 (FIPS 180-4),
  MD5 (RFC 1321) and HMAC (RFC 2104) over them.  They are defined in full, so that the
  key derivation and the PRF of the program compute.
\<close>

section \<open>Words and padding\<close>

type_synonym w32 = "32 word"

definition rotl :: "nat \<Rightarrow> w32 \<Rightarrow> w32" where
  "rotl n x = push_bit n x OR drop_bit (32 - n) x"

definition be32 :: "bytes \<Rightarrow> w32" where
  "be32 b = foldl (\<lambda>w x. push_bit 8 w OR ucast x) 0 b"

definition le32 :: "bytes \<Rightarrow> w32" where
  "le32 b = be32 (rev b)"

definition put32 :: "w32 \<Rightarrow> bytes" where
  "put32 w = map (\<lambda>i. ucast (drop_bit (8 * i) w)) [3, 2, 1, 0]"

definition put32le :: "w32 \<Rightarrow> bytes" where
  "put32le w = rev (put32 w)"

lemma length_put32 [simp, lens]: "length (put32 w) = 4" "length (put32le w) = 4"
  by (simp_all add: put32_def put32le_def)

fun chunks :: "nat \<Rightarrow> 'a list \<Rightarrow> 'a list list" where
  "chunks n xs =
     (if n = 0 \<or> xs = [] then [] else take n xs # chunks n (drop n xs))"

declare chunks.simps [simp del]

lemma concat_chunks: "0 < n \<Longrightarrow> concat (chunks n xs) = xs"
proof (induction n xs rule: chunks.induct)
  case (1 n xs)
  then show ?case by (subst chunks.simps) simp
qed

definition md_pad :: "bytes \<Rightarrow> bytes \<Rightarrow> bytes" where
  "md_pad msg len = msg @ 0x80 # replicate ((119 - length msg mod 64) mod 64) 0 @ len"

lemma pad_count: "(n + (119 - n mod 64) mod 64 + 9) mod 64 = (0 :: nat)"
proof -
  define q r where "q = n div 64" and "r = n mod 64"
  have n: "n = 64 * q + r" and r: "r < 64" by (simp_all add: q_def r_def)
  have "(n + (119 - n mod 64) mod 64) mod 64 = (n + (119 - r)) mod 64"
    unfolding r_def by (rule mod_add_right_eq)
  also have "n + (119 - r) = 64 * q + 119" using n r by linarith
  also have "(64 * q + 119) mod 64 = (55 :: nat)" by simp
  finally have "(n + (119 - n mod 64) mod 64) mod 64 = 55" .
  then show ?thesis
    using mod_add_left_eq [of "n + (119 - n mod 64) mod 64" 64 9] by simp
qed

lemma length_md_pad: "length len = 8 \<Longrightarrow> length (md_pad msg len) mod 64 = 0"
  using pad_count [of "length msg"] by (simp add: md_pad_def ac_simps)

section \<open>SHA-1\<close>

type_synonym sha1_state = "w32 \<times> w32 \<times> w32 \<times> w32 \<times> w32"

text \<open>The message schedule, most recent word first.\<close>

fun sha1_expand :: "nat \<Rightarrow> w32 list \<Rightarrow> w32 list" where
  "sha1_expand 0 ws = ws"
| "sha1_expand (Suc n) ws =
     sha1_expand n (rotl 1 (ws ! 2 XOR ws ! 7 XOR ws ! 13 XOR ws ! 15) # ws)"

definition sha1_f :: "nat \<Rightarrow> w32 \<Rightarrow> w32 \<Rightarrow> w32 \<Rightarrow> w32" where
  "sha1_f t b c d =
     (if t < 20 then (b AND c) OR (NOT b AND d)
      else if t < 40 then b XOR c XOR d
      else if t < 60 then (b AND c) OR (b AND d) OR (c AND d)
      else b XOR c XOR d)"

definition sha1_k :: "nat \<Rightarrow> w32" where
  "sha1_k t =
     (if t < 20 then 0x5a827999 else if t < 40 then 0x6ed9eba1
      else if t < 60 then 0x8f1bbcdc else 0xca62c1d6)"

fun sha1_rounds :: "nat \<Rightarrow> w32 list \<Rightarrow> sha1_state \<Rightarrow> sha1_state" where
  "sha1_rounds t [] s = s"
| "sha1_rounds t (w # ws) (a, b, c, d, e) =
     sha1_rounds (Suc t) ws
       (rotl 5 a + sha1_f t b c d + e + sha1_k t + w, a, rotl 30 b, c, d)"

definition sha1_block :: "sha1_state \<Rightarrow> bytes \<Rightarrow> sha1_state" where
  "sha1_block s blk =
     (let ws = rev (sha1_expand 64 (rev (map be32 (chunks 4 blk))));
          (a, b, c, d, e) = s;
          (a', b', c', d', e') = sha1_rounds 0 ws s
      in (a + a', b + b', c + c', d + d', e + e'))"

definition sha1 :: "bytes \<Rightarrow> bytes" where
  "sha1 msg =
     (let p = md_pad msg (put64 (of_nat (8 * length msg)));
          (a, b, c, d, e) = foldl sha1_block
            (0x67452301, 0xefcdab89, 0x98badcfe, 0x10325476, 0xc3d2e1f0) (chunks 64 p)
      in put32 a @ put32 b @ put32 c @ put32 d @ put32 e)"

lemma length_sha1 [simp, lens]: "length (sha1 msg) = 20"
  by (simp add: sha1_def Let_def split: prod.split)

section \<open>MD5\<close>

type_synonym md5_state = "w32 \<times> w32 \<times> w32 \<times> w32"

definition md5_k :: "w32 list" where
  "md5_k =
     [
      0xd76aa478, 0xe8c7b756, 0x242070db, 0xc1bdceee, 0xf57c0faf, 0x4787c62a,
      0xa8304613, 0xfd469501, 0x698098d8, 0x8b44f7af, 0xffff5bb1, 0x895cd7be,
      0x6b901122, 0xfd987193, 0xa679438e, 0x49b40821, 0xf61e2562, 0xc040b340,
      0x265e5a51, 0xe9b6c7aa, 0xd62f105d, 0x02441453, 0xd8a1e681, 0xe7d3fbc8,
      0x21e1cde6, 0xc33707d6, 0xf4d50d87, 0x455a14ed, 0xa9e3e905, 0xfcefa3f8,
      0x676f02d9, 0x8d2a4c8a, 0xfffa3942, 0x8771f681, 0x6d9d6122, 0xfde5380c,
      0xa4beea44, 0x4bdecfa9, 0xf6bb4b60, 0xbebfbc70, 0x289b7ec6, 0xeaa127fa,
      0xd4ef3085, 0x04881d05, 0xd9d4d039, 0xe6db99e5, 0x1fa27cf8, 0xc4ac5665,
      0xf4292244, 0x432aff97, 0xab9423a7, 0xfc93a039, 0x655b59c3, 0x8f0ccc92,
      0xffeff47d, 0x85845dd1, 0x6fa87e4f, 0xfe2ce6e0, 0xa3014314, 0x4e0811a1,
      0xf7537e82, 0xbd3af235, 0x2ad7d2bb, 0xeb86d391]"

definition md5_s :: "nat \<Rightarrow> nat" where
  "md5_s t =
     (if t < 16 then [7, 12, 17, 22] ! (t mod 4)
      else if t < 32 then [5, 9, 14, 20] ! (t mod 4)
      else if t < 48 then [4, 11, 16, 23] ! (t mod 4)
      else [6, 10, 15, 21] ! (t mod 4))"

definition md5_f :: "nat \<Rightarrow> w32 \<Rightarrow> w32 \<Rightarrow> w32 \<Rightarrow> w32" where
  "md5_f t b c d =
     (if t < 16 then (b AND c) OR (NOT b AND d)
      else if t < 32 then (d AND b) OR (NOT d AND c)
      else if t < 48 then b XOR c XOR d
      else c XOR (b OR NOT d))"

definition md5_g :: "nat \<Rightarrow> nat" where
  "md5_g t =
     (if t < 16 then t
      else if t < 32 then (5 * t + 1) mod 16
      else if t < 48 then (3 * t + 5) mod 16
      else (7 * t) mod 16)"

fun md5_rounds :: "w32 list \<Rightarrow> nat \<Rightarrow> w32 list \<Rightarrow> md5_state \<Rightarrow> md5_state" where
  "md5_rounds ms t [] s = s"
| "md5_rounds ms t (k # ks) (a, b, c, d) =
     md5_rounds ms (Suc t) ks
       (d, b + rotl (md5_s t) (a + md5_f t b c d + k + ms ! md5_g t), b, c)"

definition md5_block :: "md5_state \<Rightarrow> bytes \<Rightarrow> md5_state" where
  "md5_block s blk =
     (let ms = map le32 (chunks 4 blk);
          (a, b, c, d) = s;
          (a', b', c', d') = md5_rounds ms 0 md5_k s
      in (a + a', b + b', c + c', d + d'))"

definition md5 :: "bytes \<Rightarrow> bytes" where
  "md5 msg =
     (let p = md_pad msg (rev (put64 (of_nat (8 * length msg))));
          (a, b, c, d) = foldl md5_block
            (0x67452301, 0xefcdab89, 0x98badcfe, 0x10325476) (chunks 64 p)
      in put32le a @ put32le b @ put32le c @ put32le d)"

lemma length_md5 [simp, lens]: "length (md5 msg) = 16"
  by (simp add: md5_def Let_def split: prod.split)

text \<open>The test vector of RFC 1321.\<close>

lemma md5_abc:
  "md5 (bytes_of ''abc'') =
   [0x90, 0x01, 0x50, 0x98, 0x3c, 0xd2, 0x4f, 0xb0, 0xd6, 0x96, 0x3f, 0x7d, 0x28, 0xe1, 0x7f, 0x72]"
  by code_simp

section \<open>HMAC\<close>

text \<open>The two hash constructors the code hands to \<open>hmac.New\<close>.\<close>

datatype hash_alg = MD5 | SHA1

fun digest :: "hash_alg \<Rightarrow> bytes \<Rightarrow> bytes" where
  "digest MD5 m = md5 m"
| "digest SHA1 m = sha1 m"

fun digest_size :: "hash_alg \<Rightarrow> nat" where
  "digest_size MD5 = 16"
| "digest_size SHA1 = 20"

lemma length_digest [simp, lens]: "length (digest h m) = digest_size h"
  by (cases h) simp_all

lemma digest_size_pos [simp]: "0 < digest_size h"
  by (cases h) simp_all

text \<open>\<open>h := hmac.New(alg, key); h.Write(msg); h.Sum(nil)\<close>; both block sizes are 64.\<close>

definition hmac_key :: "hash_alg \<Rightarrow> bytes \<Rightarrow> bytes" where
  "hmac_key h key =
     (let k = (if 64 < length key then digest h key else key)
      in k @ replicate (64 - length k) 0)"

definition hmac :: "hash_alg \<Rightarrow> bytes \<Rightarrow> bytes \<Rightarrow> bytes" where
  "hmac h key msg =
     (let k = hmac_key h key
      in digest h (map (\<lambda>b. b XOR 0x5c) k @ digest h (map (\<lambda>b. b XOR 0x36) k @ msg)))"

lemma length_hmac [simp, lens]: "length (hmac h key msg) = digest_size h"
  by (simp add: hmac_def Let_def)

end
