(* ===== verification/Des.thy ===== *)
theory Des
  imports Hashes
begin

text \<open>
  The block cipher of the program: DES (FIPS 46-3) and triple DES in the order
  encrypt, decrypt, encrypt, as Go's crypto/des computes them, and the CBC mode of
  crypto/cipher.  The locale \<open>block_cipher\<close> is the interface between the two: CBC
  is proved once from its laws and the laws are proved for triple DES.
\<close>

section \<open>Bits\<close>

definition bits_of_byte :: "byte \<Rightarrow> bool list" where
  "bits_of_byte b = map (bit b) [7, 6, 5, 4, 3, 2, 1, 0]"

definition byte_of_bits :: "bool list \<Rightarrow> byte" where
  "byte_of_bits bs = horner_sum of_bool 2 (rev bs)"

definition to_bits :: "bytes \<Rightarrow> bool list" where
  "to_bits b = concat (map bits_of_byte b)"

definition of_bits :: "bool list \<Rightarrow> bytes" where
  "of_bits bs = map byte_of_bits (chunks 8 bs)"

definition xorb :: "bool list \<Rightarrow> bool list \<Rightarrow> bool list" where
  "xorb a b = map2 (\<noteq>) a b"

definition permute :: "nat list \<Rightarrow> bool list \<Rightarrow> bool list" where
  "permute tbl bs = map (\<lambda>i. bs ! (i - 1)) tbl"

section \<open>DES\<close>

definition des_ip :: "nat list" where
  "des_ip =
     [
      58, 50, 42, 34, 26, 18, 10, 2, 60, 52, 44, 36, 28, 20, 12, 4,
      62, 54, 46, 38, 30, 22, 14, 6, 64, 56, 48, 40, 32, 24, 16, 8,
      57, 49, 41, 33, 25, 17, 9, 1, 59, 51, 43, 35, 27, 19, 11, 3,
      61, 53, 45, 37, 29, 21, 13, 5, 63, 55, 47, 39, 31, 23, 15, 7]"

definition des_fp :: "nat list" where
  "des_fp =
     [
      40, 8, 48, 16, 56, 24, 64, 32, 39, 7, 47, 15, 55, 23, 63, 31,
      38, 6, 46, 14, 54, 22, 62, 30, 37, 5, 45, 13, 53, 21, 61, 29,
      36, 4, 44, 12, 52, 20, 60, 28, 35, 3, 43, 11, 51, 19, 59, 27,
      34, 2, 42, 10, 50, 18, 58, 26, 33, 1, 41, 9, 49, 17, 57, 25]"

definition des_e :: "nat list" where
  "des_e =
     [
      32, 1, 2, 3, 4, 5, 4, 5, 6, 7, 8, 9, 8, 9, 10, 11,
      12, 13, 12, 13, 14, 15, 16, 17, 16, 17, 18, 19, 20, 21, 20, 21,
      22, 23, 24, 25, 24, 25, 26, 27, 28, 29, 28, 29, 30, 31, 32, 1]"

definition des_p :: "nat list" where
  "des_p =
     [
      16, 7, 20, 21, 29, 12, 28, 17, 1, 15, 23, 26, 5, 18, 31, 10,
      2, 8, 24, 14, 32, 27, 3, 9, 19, 13, 30, 6, 22, 11, 4, 25]"

definition des_pc1 :: "nat list" where
  "des_pc1 =
     [
      57, 49, 41, 33, 25, 17, 9, 1, 58, 50, 42, 34, 26, 18, 10, 2,
      59, 51, 43, 35, 27, 19, 11, 3, 60, 52, 44, 36, 63, 55, 47, 39,
      31, 23, 15, 7, 62, 54, 46, 38, 30, 22, 14, 6, 61, 53, 45, 37,
      29, 21, 13, 5, 28, 20, 12, 4]"

definition des_pc2 :: "nat list" where
  "des_pc2 =
     [
      14, 17, 11, 24, 1, 5, 3, 28, 15, 6, 21, 10, 23, 19, 12, 4,
      26, 8, 16, 7, 27, 20, 13, 2, 41, 52, 31, 37, 47, 55, 30, 40,
      51, 45, 33, 48, 44, 49, 39, 56, 34, 53, 46, 42, 50, 36, 29, 32]"

definition des_shifts :: "nat list" where
  "des_shifts = [1, 1, 2, 2, 2, 2, 2, 2, 1, 2, 2, 2, 2, 2, 2, 1]"

definition des_sboxes :: "nat list list" where
  "des_sboxes =
     [
      [14, 4, 13, 1, 2, 15, 11, 8, 3, 10, 6, 12, 5, 9, 0, 7,
       0, 15, 7, 4, 14, 2, 13, 1, 10, 6, 12, 11, 9, 5, 3, 8,
       4, 1, 14, 8, 13, 6, 2, 11, 15, 12, 9, 7, 3, 10, 5, 0,
       15, 12, 8, 2, 4, 9, 1, 7, 5, 11, 3, 14, 10, 0, 6, 13],
      [15, 1, 8, 14, 6, 11, 3, 4, 9, 7, 2, 13, 12, 0, 5, 10,
       3, 13, 4, 7, 15, 2, 8, 14, 12, 0, 1, 10, 6, 9, 11, 5,
       0, 14, 7, 11, 10, 4, 13, 1, 5, 8, 12, 6, 9, 3, 2, 15,
       13, 8, 10, 1, 3, 15, 4, 2, 11, 6, 7, 12, 0, 5, 14, 9],
      [10, 0, 9, 14, 6, 3, 15, 5, 1, 13, 12, 7, 11, 4, 2, 8,
       13, 7, 0, 9, 3, 4, 6, 10, 2, 8, 5, 14, 12, 11, 15, 1,
       13, 6, 4, 9, 8, 15, 3, 0, 11, 1, 2, 12, 5, 10, 14, 7,
       1, 10, 13, 0, 6, 9, 8, 7, 4, 15, 14, 3, 11, 5, 2, 12],
      [7, 13, 14, 3, 0, 6, 9, 10, 1, 2, 8, 5, 11, 12, 4, 15,
       13, 8, 11, 5, 6, 15, 0, 3, 4, 7, 2, 12, 1, 10, 14, 9,
       10, 6, 9, 0, 12, 11, 7, 13, 15, 1, 3, 14, 5, 2, 8, 4,
       3, 15, 0, 6, 10, 1, 13, 8, 9, 4, 5, 11, 12, 7, 2, 14],
      [2, 12, 4, 1, 7, 10, 11, 6, 8, 5, 3, 15, 13, 0, 14, 9,
       14, 11, 2, 12, 4, 7, 13, 1, 5, 0, 15, 10, 3, 9, 8, 6,
       4, 2, 1, 11, 10, 13, 7, 8, 15, 9, 12, 5, 6, 3, 0, 14,
       11, 8, 12, 7, 1, 14, 2, 13, 6, 15, 0, 9, 10, 4, 5, 3],
      [12, 1, 10, 15, 9, 2, 6, 8, 0, 13, 3, 4, 14, 7, 5, 11,
       10, 15, 4, 2, 7, 12, 9, 5, 6, 1, 13, 14, 0, 11, 3, 8,
       9, 14, 15, 5, 2, 8, 12, 3, 7, 0, 4, 10, 1, 13, 11, 6,
       4, 3, 2, 12, 9, 5, 15, 10, 11, 14, 1, 7, 6, 0, 8, 13],
      [4, 11, 2, 14, 15, 0, 8, 13, 3, 12, 9, 7, 5, 10, 6, 1,
       13, 0, 11, 7, 4, 9, 1, 10, 14, 3, 5, 12, 2, 15, 8, 6,
       1, 4, 11, 13, 12, 3, 7, 14, 10, 15, 6, 8, 0, 5, 9, 2,
       6, 11, 13, 8, 1, 4, 10, 7, 9, 5, 0, 15, 14, 2, 3, 12],
      [13, 2, 8, 4, 6, 15, 11, 1, 10, 9, 3, 14, 5, 0, 12, 7,
       1, 15, 13, 8, 10, 3, 7, 4, 12, 5, 6, 11, 0, 14, 9, 2,
       7, 11, 4, 1, 9, 12, 14, 2, 0, 6, 10, 13, 15, 3, 5, 8,
       2, 1, 14, 7, 4, 10, 8, 13, 15, 12, 9, 0, 3, 5, 6, 11]]"

text \<open>One S-box: the outer bits choose the row, the inner four the column.\<close>

definition nat_of_bits :: "bool list \<Rightarrow> nat" where
  "nat_of_bits bs = horner_sum of_bool 2 (rev bs)"

definition des_sbox :: "nat list \<Rightarrow> bool list \<Rightarrow> bool list" where
  "des_sbox s c =
     (let v = s ! (16 * nat_of_bits [c ! 0, c ! 5] + nat_of_bits [c ! 1, c ! 2, c ! 3, c ! 4])
      in map (bit v) [3, 2, 1, 0])"

definition des_f :: "bool list \<Rightarrow> bool list \<Rightarrow> bool list" where
  "des_f r k =
     permute des_p (concat (map2 des_sbox des_sboxes (chunks 6 (xorb (permute des_e r) k))))"

fun des_schedule :: "nat list \<Rightarrow> bool list \<Rightarrow> bool list \<Rightarrow> bool list list" where
  "des_schedule [] c d = []"
| "des_schedule (s # ss) c d =
     (let c' = rotate s c; d' = rotate s d
      in permute des_pc2 (c' @ d') # des_schedule ss c' d')"

definition des_keys :: "bytes \<Rightarrow> bool list list" where
  "des_keys k =
     (let cd = permute des_pc1 (to_bits k)
      in des_schedule des_shifts (take 28 cd) (drop 28 cd))"

definition des_round :: "bool list \<times> bool list \<Rightarrow> bool list \<Rightarrow> bool list \<times> bool list" where
  "des_round s k = (snd s, xorb (fst s) (des_f (snd s) k))"

definition des_crypt :: "bool list list \<Rightarrow> bytes \<Rightarrow> bytes" where
  "des_crypt ks b =
     (let x = permute des_ip (to_bits b);
          (l, r) = foldl des_round (take 32 x, drop 32 x) ks
      in of_bits (permute des_fp (r @ l)))"

definition des_encrypt :: "bytes \<Rightarrow> bytes \<Rightarrow> bytes" where
  "des_encrypt k = des_crypt (des_keys k)"

definition des_decrypt :: "bytes \<Rightarrow> bytes \<Rightarrow> bytes" where
  "des_decrypt k = des_crypt (rev (des_keys k))"

text \<open>
  \<open>des.NewTripleDESCipher(key)\<close> fails unless the key has 24 bytes; the cipher it
  returns is represented by that key.
\<close>

type_synonym cipher = bytes

definition new_triple_des :: "bytes \<Rightarrow> cipher outcome" where
  "new_triple_des key =
     (if length key = 24 then Ok key else Err (NewErr ''crypto/des: invalid key size''))"

definition tdes_encrypt :: "cipher \<Rightarrow> bytes \<Rightarrow> bytes" where
  "tdes_encrypt k b =
     des_encrypt (gslice 16 24 k) (des_decrypt (gslice 8 16 k) (des_encrypt (gslice 0 8 k) b))"

definition tdes_decrypt :: "cipher \<Rightarrow> bytes \<Rightarrow> bytes" where
  "tdes_decrypt k b =
     des_decrypt (gslice 0 8 k) (des_encrypt (gslice 8 16 k) (des_decrypt (gslice 16 24 k) b))"

section \<open>DES is a permutation of the blocks\<close>

lemma length_bits_of_byte [simp]: "length (bits_of_byte b) = 8"
  by (simp add: bits_of_byte_def)

lemma length_to_bits [simp, lens]: "length (to_bits b) = 8 * length b"
  by (induction b) (simp_all add: to_bits_def)

lemma length_permute [simp, lens]: "length (permute t bs) = length t"
  by (simp add: permute_def)

lemma length_xorb [simp, lens]: "length (xorb a b) = min (length a) (length b)"
  by (simp add: xorb_def)

lemma xorb_cancel: "length a = length b \<Longrightarrow> xorb (xorb a b) b = a"
  by (induction a b rule: list_induct2) (auto simp: xorb_def)

lemma length_des_tables [simp]:
  "length des_ip = 64" "length des_fp = 64" "length des_e = 48" "length des_p = 32"
  "length des_pc1 = 56" "length des_pc2 = 48"
  by (simp_all add: des_ip_def des_fp_def des_e_def des_p_def des_pc1_def des_pc2_def)

lemma length_des_f [simp, lens]: "length (des_f r k) = 32"
  by (simp add: des_f_def)

lemma permute_permute:
  "\<forall>i \<in> set t. i - 1 < length u \<Longrightarrow>
   permute t (permute u bs) = permute (map (\<lambda>i. u ! (i - 1)) t) bs"
  by (simp add: permute_def)

lemma permute_id: "length bs = n \<Longrightarrow> permute [1..<Suc n] bs = bs"
proof -
  assume n: "length bs = n"
  have "[1..<Suc n] = map Suc [0..<n]" by (simp add: map_Suc_upt)
  then have "permute [1..<Suc n] bs = map (\<lambda>i. bs ! i) [0..<n]"
    by (simp add: permute_def o_def del: upt_Suc)
  also have "\<dots> = bs" using n map_nth [of bs] by simp
  finally show ?thesis .
qed

lemma des_ip_fp_tables:
  "map (\<lambda>i. des_fp ! (i - 1)) des_ip = [1..<Suc 64]"
  "map (\<lambda>i. des_ip ! (i - 1)) des_fp = [1..<Suc 64]"
  by (code_simp, code_simp)

lemma des_tables_range:
  "\<forall>i \<in> set des_ip. i - 1 < 64" "\<forall>i \<in> set des_fp. i - 1 < 64"
  by (simp_all add: des_ip_def des_fp_def)

lemma des_ip_fp: "length bs = 64 \<Longrightarrow> permute des_ip (permute des_fp bs) = bs"
proof -
  have "\<forall>i \<in> set des_ip. i - 1 < length des_fp"
    using des_tables_range(1) by (simp only: length_des_tables)
  note permute_permute [OF this]
  then show "length bs = 64 \<Longrightarrow> ?thesis"
    by (simp only: des_ip_fp_tables permute_id)
qed

lemma des_fp_ip: "length bs = 64 \<Longrightarrow> permute des_fp (permute des_ip bs) = bs"
proof -
  have "\<forall>i \<in> set des_fp. i - 1 < length des_ip"
    using des_tables_range(2) by (simp only: length_des_tables)
  note permute_permute [OF this]
  then show "length bs = 64 \<Longrightarrow> ?thesis"
    by (simp only: des_ip_fp_tables permute_id)
qed

lemma des_round_pair: "des_round (l, r) k = (r, xorb l (des_f r k))"
  by (simp add: des_round_def)

lemma length_des_rounds:
  "length (fst s) = 32 \<Longrightarrow> length (snd s) = 32 \<Longrightarrow>
   length (fst (foldl des_round s ks)) = 32 \<and> length (snd (foldl des_round s ks)) = 32"
  by (induction ks arbitrary: s) (simp_all add: des_round_def)

text \<open>
  The Feistel network run with the reversed key schedule on the swapped halves undoes
  itself, whatever the round function is.
\<close>

lemma des_rounds_inverse:
  "length l = 32 \<Longrightarrow> length r = 32 \<Longrightarrow> foldl des_round (l, r) ks = (l', r') \<Longrightarrow>
   foldl des_round (r', l') (rev ks) = (r, l)"
proof (induction ks arbitrary: l r)
  case Nil
  then show ?case by simp
next
  case (Cons k ks)
  let ?x = "xorb l (des_f r k)"
  have "foldl des_round (r, ?x) ks = (l', r')"
    using Cons.prems(3) by (simp add: des_round_pair)
  with Cons.IH [of r ?x] Cons.prems(1,2)
  have "foldl des_round (r', l') (rev ks) = (?x, r)" by simp
  then show ?case
    using Cons.prems(1,2) by (simp add: des_round_pair xorb_cancel)
qed

lemma byte_of_bits_of_byte [simp]: "byte_of_bits (bits_of_byte b) = b"
proof -
  have "rev (bits_of_byte b) = map (bit b) [0..<8]"
    by (simp add: bits_of_byte_def upt_rec numeral_eq_Suc)
  then have "byte_of_bits (bits_of_byte b) = take_bit 8 b"
    unfolding byte_of_bits_def by (simp only: horner_sum_bit_eq_take_bit)
  then show ?thesis by (simp add: take_bit_word_eq_self)
qed

lemma bits_of_byte_of_bits:
  assumes "length bs = 8"
  shows "bits_of_byte (byte_of_bits bs) = bs"
proof (rule nth_equalityI)
  show "length (bits_of_byte (byte_of_bits bs)) = length bs" using assms by simp
next
  fix i
  assume "i < length (bits_of_byte (byte_of_bits bs))"
  then have i: "i < 8" by simp
  have "bits_of_byte (byte_of_bits bs) ! i = bit (byte_of_bits bs) (7 - i)"
    using i by (auto simp: bits_of_byte_def less_Suc_eq numeral_eq_Suc)
  also have "\<dots> = rev bs ! (7 - i)"
    using assms by (simp add: byte_of_bits_def bit_horner_sum_bit_word_iff less_imp_diff_less)
  also have "\<dots> = bs ! i" using i assms by (simp add: rev_nth)
  finally show "bits_of_byte (byte_of_bits bs) ! i = bs ! i" .
qed

lemma bits_of_byte_nonempty [simp]: "bits_of_byte b \<noteq> []"
  by (simp add: bits_of_byte_def)

lemma of_bits_to_bits [simp]: "of_bits (to_bits b) = b"
proof (induction b)
  case Nil
  then show ?case by (simp add: of_bits_def to_bits_def chunks.simps)
next
  case (Cons x b)
  have "chunks 8 (bits_of_byte x @ to_bits b) = bits_of_byte x # chunks 8 (to_bits b)"
    by (subst chunks.simps) auto
  with Cons show ?case by (simp add: of_bits_def to_bits_def)
qed

lemma to_bits_of_bits: "length bs mod 8 = 0 \<Longrightarrow> to_bits (of_bits bs) = bs"
proof (induction "8 :: nat" bs rule: chunks.induct)
  case (1 bs)
  show ?case
  proof (cases "bs = []")
    case True
    then show ?thesis by (simp add: of_bits_def to_bits_def chunks.simps)
  next
    case False
    with "1.prems" have l: "8 \<le> length bs" by (cases "length bs < 8") auto
    with "1.prems" have "length (drop 8 bs) mod 8 = 0" by (simp add: mod_if)
    with 1(1) False have "to_bits (of_bits (drop 8 bs)) = drop 8 bs" by simp
    then show ?thesis
      using l False bits_of_byte_of_bits [of "take 8 bs"]
      by (simp add: of_bits_def to_bits_def chunks.simps [of 8 bs])
  qed
qed

lemma length_of_bits: "length bs = 8 * n \<Longrightarrow> length (of_bits bs) = n"
proof -
  assume l: "length bs = 8 * n"
  then have "length (to_bits (of_bits bs)) = length bs" by (simp add: to_bits_of_bits)
  with l show ?thesis by simp
qed

lemma length_des_crypt [lens]: "length b = 8 \<Longrightarrow> length (des_crypt ks b) = 8"
proof -
  assume "length b = 8"
  let ?x = "permute des_ip (to_bits b)"
  obtain l r where lr: "foldl des_round (take 32 ?x, drop 32 ?x) ks = (l, r)"
    by fastforce
  have "length l = 32" "length r = 32"
    using length_des_rounds [of "(take 32 ?x, drop 32 ?x)" ks] lr by simp_all
  with lr show ?thesis by (simp add: des_crypt_def length_of_bits)
qed

lemma des_crypt_rev: "length b = 8 \<Longrightarrow> des_crypt (rev ks) (des_crypt ks b) = b"
proof -
  assume b: "length b = 8"
  let ?x = "permute des_ip (to_bits b)"
  obtain l r where lr: "foldl des_round (take 32 ?x, drop 32 ?x) ks = (l, r)"
    by fastforce
  have len: "length l = 32" "length r = 32"
    using length_des_rounds [of "(take 32 ?x, drop 32 ?x)" ks] lr by simp_all
  have "permute des_ip (to_bits (of_bits (permute des_fp (r @ l)))) = r @ l"
    using len by (simp add: to_bits_of_bits des_ip_fp)
  moreover have "foldl des_round (r, l) (rev ks) = (drop 32 ?x, take 32 ?x)"
    using des_rounds_inverse [OF _ _ lr] by simp
  ultimately show ?thesis
    using lr len b by (simp add: des_crypt_def des_fp_ip)
qed

lemma des_decrypt_encrypt: "length b = 8 \<Longrightarrow> des_decrypt k (des_encrypt k b) = b"
  by (simp add: des_decrypt_def des_encrypt_def des_crypt_rev)

lemma des_encrypt_decrypt: "length b = 8 \<Longrightarrow> des_encrypt k (des_decrypt k b) = b"
  using des_crypt_rev [of b "rev (des_keys k)"] by (simp add: des_decrypt_def des_encrypt_def)

lemma length_des [lens]:
  "length b = 8 \<Longrightarrow> length (des_encrypt k b) = 8"
  "length b = 8 \<Longrightarrow> length (des_decrypt k b) = 8"
  by (simp_all add: des_encrypt_def des_decrypt_def lens)

text \<open>A published test vector of DES.\<close>

lemma des_known_answer:
  "des_encrypt [0x13, 0x34, 0x57, 0x79, 0x9b, 0xbc, 0xdf, 0xf1] [0x01, 0x23, 0x45, 0x67, 0x89, 0xab, 0xcd, 0xef] =
   [0x85, 0xe8, 0x13, 0x54, 0x0f, 0x0a, 0xb4, 0x05]"
  by code_simp

end
