(* ===== verification/Cbc.thy ===== *)
theory Cbc
  imports Des
begin

text \<open>
  CBC mode (crypto/cipher) over any block cipher.  The locale \<open>block_cipher\<close> states
  what CBC needs of a cipher: the two directions are inverse and keep the block length.
  The CBC round trip, its length and its chaining are proved once inside the locale and
  interpreted on triple DES.
\<close>

section \<open>Cutting into equal chunks\<close>

lemma chunks_Nil [simp]: "chunks n [] = []"
  by (simp add: chunks.simps)

lemma chunks_append:
  "0 < n \<Longrightarrow> length xs mod n = 0 \<Longrightarrow> chunks n (xs @ ys) = chunks n xs @ chunks n ys"
proof (induction n xs rule: chunks.induct)
  case (1 n xs)
  show ?case
  proof (cases "xs = []")
    case False
    with "1.prems" have l: "n \<le> length xs" by (metis length_0_conv mod_less not_le)
    with "1.prems" have "length (drop n xs) mod n = 0" by (simp add: mod_if)
    with "1.IH" "1.prems" False
    have "chunks n (drop n xs @ ys) = chunks n (drop n xs) @ chunks n ys" by simp
    with False "1.prems" l show ?thesis
      by (simp add: chunks.simps [of n "xs @ ys"] chunks.simps [of n xs])
  qed simp
qed

lemma chunks_one: "0 < n \<Longrightarrow> length xs = n \<Longrightarrow> chunks n xs = [xs]"
  by (subst chunks.simps) auto

lemma chunks_length:
  "0 < n \<Longrightarrow> length xs mod n = 0 \<Longrightarrow> b \<in> set (chunks n xs) \<Longrightarrow> length b = n"
proof (induction n xs rule: chunks.induct)
  case (1 n xs)
  then have ne: "xs \<noteq> []" by auto
  with "1.prems" have l: "n \<le> length xs" by (metis length_0_conv mod_less not_le)
  with "1.prems" have "length (drop n xs) mod n = 0" by (simp add: mod_if)
  with 1 ne l show ?case by (auto simp: chunks.simps [of n xs])
qed

lemmas chunks8_length = chunks_length [of 8, simplified]

lemma length_concat_const:
  "(\<And>b. b \<in> set bs \<Longrightarrow> length b = n) \<Longrightarrow> length (concat bs) = n * length bs"
  by (induction bs) auto

lemma chunks_concat:
  "0 < n \<Longrightarrow> (\<And>b. b \<in> set bs \<Longrightarrow> length b = n) \<Longrightarrow> chunks n (concat bs) = bs"
  by (induction bs) (simp_all add: chunks_append chunks_one)

section \<open>The mode\<close>

text \<open>
  \<open>cipher.NewCBCEncrypter(block, iv).CryptBlocks(dst, src)\<close>: each block is combined
  with the block of ciphertext before it, the first one with the IV.
\<close>

fun cbc_enc_blocks :: "(bytes \<Rightarrow> bytes) \<Rightarrow> bytes \<Rightarrow> bytes list \<Rightarrow> bytes list" where
  "cbc_enc_blocks enc iv [] = []"
| "cbc_enc_blocks enc iv (b # bs) =
     (let c = enc (xor_bytes b iv) in c # cbc_enc_blocks enc c bs)"

fun cbc_dec_blocks :: "(bytes \<Rightarrow> bytes) \<Rightarrow> bytes \<Rightarrow> bytes list \<Rightarrow> bytes list" where
  "cbc_dec_blocks dec iv [] = []"
| "cbc_dec_blocks dec iv (c # cs) = xor_bytes (dec c) iv # cbc_dec_blocks dec c cs"

definition cbc_encrypt :: "(bytes \<Rightarrow> bytes) \<Rightarrow> bytes \<Rightarrow> bytes \<Rightarrow> bytes" where
  "cbc_encrypt enc iv src = concat (cbc_enc_blocks enc iv (chunks 8 src))"

definition cbc_decrypt :: "(bytes \<Rightarrow> bytes) \<Rightarrow> bytes \<Rightarrow> bytes \<Rightarrow> bytes" where
  "cbc_decrypt dec iv src = concat (cbc_dec_blocks dec iv (chunks 8 src))"

text \<open>The last ciphertext block, the IV of the next record in TLS 1.0.\<close>

definition last_block :: "bytes \<Rightarrow> bytes" where
  "last_block c = drop (length c - 8) c"

text \<open>
  The two panics of crypto/cipher: \<open>NewCBCEncrypter\<close> and \<open>NewCBCDecrypter\<close> refuse an
  IV that is not one block, \<open>CryptBlocks\<close> an input that is not whole blocks.
\<close>

definition crypt_blocks :: "(bytes \<Rightarrow> bytes \<Rightarrow> bytes) \<Rightarrow> bytes \<Rightarrow> bytes \<Rightarrow> bytes outcome" where
  "crypt_blocks mode iv src =
     (if length iv \<noteq> 8 \<or> length src mod 8 \<noteq> 0 then Panic else Ok (mode iv src))"

lemma length_cbc_enc_blocks [simp]: "length (cbc_enc_blocks enc iv bs) = length bs"
  by (induction bs arbitrary: iv) (simp_all add: Let_def)

lemma length_cbc_dec_blocks [simp]: "length (cbc_dec_blocks dec iv bs) = length bs"
  by (induction bs arbitrary: iv) simp_all

lemma cbc_enc_blocks_append:
  "cbc_enc_blocks enc iv (as @ bs) =
   cbc_enc_blocks enc iv as @ cbc_enc_blocks enc (last (iv # cbc_enc_blocks enc iv as)) bs"
  by (induction as arbitrary: iv) (simp_all add: Let_def)

locale block_cipher =
  fixes enc :: "bytes \<Rightarrow> bytes" and dec :: "bytes \<Rightarrow> bytes"
  assumes enc_length: "length b = 8 \<Longrightarrow> length (enc b) = 8"
    and dec_length: "length b = 8 \<Longrightarrow> length (dec b) = 8"
    and dec_enc: "length b = 8 \<Longrightarrow> dec (enc b) = b"
    and enc_dec: "length b = 8 \<Longrightarrow> enc (dec b) = b"
begin

lemma enc_blocks_length:
  "length iv = 8 \<Longrightarrow> (\<And>b. b \<in> set bs \<Longrightarrow> length b = 8) \<Longrightarrow>
   c \<in> set (cbc_enc_blocks enc iv bs) \<Longrightarrow> length c = 8"
proof (induction bs arbitrary: iv)
  case (Cons b bs)
  have "length (enc (xor_bytes b iv)) = 8"
    using Cons.prems by (intro enc_length) simp
  with Cons show ?case by (auto simp: Let_def)
qed simp

lemma dec_enc_blocks:
  "length iv = 8 \<Longrightarrow> (\<And>b. b \<in> set bs \<Longrightarrow> length b = 8) \<Longrightarrow>
   cbc_dec_blocks dec iv (cbc_enc_blocks enc iv bs) = bs"
proof (induction bs arbitrary: iv)
  case (Cons b bs)
  have l: "length b = 8" using Cons.prems by simp
  have "length (enc (xor_bytes b iv)) = 8"
    using Cons.prems by (intro enc_length) simp
  with Cons.IH [of "enc (xor_bytes b iv)"] Cons.prems l show ?case
    by (simp add: Let_def dec_enc xor_bytes_cancel)
qed simp

lemma cbc_length:
  assumes "length iv = 8" and "length src mod 8 = 0"
  shows "length (cbc_encrypt enc iv src) = length src"
proof -
  let ?cs = "cbc_enc_blocks enc iv (chunks 8 src)"
  have b: "length b = 8" if "b \<in> set (chunks 8 src)" for b
    by (rule chunks8_length [OF assms(2) that])
  have "length (concat ?cs) = 8 * length ?cs"
    by (rule length_concat_const) (rule enc_blocks_length [OF assms(1) b])
  also have "\<dots> = length (concat (chunks 8 src))"
    using length_concat_const [of "chunks 8 src" 8] b by simp
  finally show ?thesis by (simp add: cbc_encrypt_def concat_chunks)
qed

lemma cbc_round_trip:
  assumes "length iv = 8" and "length src mod 8 = 0"
  shows "cbc_decrypt dec iv (cbc_encrypt enc iv src) = src"
proof -
  have b: "length b = 8" if "b \<in> set (chunks 8 src)" for b
    by (rule chunks8_length [OF assms(2) that])
  have "chunks 8 (concat (cbc_enc_blocks enc iv (chunks 8 src))) =
      cbc_enc_blocks enc iv (chunks 8 src)"
    by (rule chunks_concat) (use enc_blocks_length [OF assms(1) b] in auto)
  then show ?thesis
    using dec_enc_blocks [OF assms(1) b]
    by (simp add: cbc_decrypt_def cbc_encrypt_def concat_chunks)
qed

lemma enc_dec_blocks:
  "length iv = 8 \<Longrightarrow> (\<And>b. b \<in> set bs \<Longrightarrow> length b = 8) \<Longrightarrow>
   cbc_enc_blocks enc iv (cbc_dec_blocks dec iv bs) = bs \<and>
   (\<forall>b \<in> set (cbc_dec_blocks dec iv bs). length b = 8)"
proof (induction bs arbitrary: iv)
  case (Cons b bs)
  have l: "length b = 8" using Cons.prems by simp
  then have "length (dec b) = 8" by (rule dec_length)
  with Cons.IH [of b] Cons.prems l show ?case
    by (simp add: Let_def enc_dec xor_bytes_cancel)
qed simp

lemma cbc_round_trip_rev:
  assumes "length iv = 8" and "length src mod 8 = 0"
  shows "cbc_encrypt enc iv (cbc_decrypt dec iv src) = src"
    and "length (cbc_decrypt dec iv src) = length src"
proof -
  have b: "length b = 8" if "b \<in> set (chunks 8 src)" for b
    by (rule chunks8_length [OF assms(2) that])
  let ?ps = "cbc_dec_blocks dec iv (chunks 8 src)"
  have p: "cbc_enc_blocks enc iv ?ps = chunks 8 src" "\<forall>b \<in> set ?ps. length b = 8"
    using enc_dec_blocks [OF assms(1) b] by simp_all
  have "chunks 8 (concat ?ps) = ?ps" by (rule chunks_concat) (use p(2) in auto)
  then show "cbc_encrypt enc iv (cbc_decrypt dec iv src) = src"
    using p(1) by (simp add: cbc_encrypt_def cbc_decrypt_def concat_chunks)
  have "length (concat ?ps) = 8 * length ?ps" using p(2) by (intro length_concat_const) auto
  also have "length ?ps = length (chunks 8 src)" by simp
  also have "8 * length (chunks 8 src) = length (concat (chunks 8 src))"
    using length_concat_const [of "chunks 8 src" 8] b by simp
  finally show "length (cbc_decrypt dec iv src) = length src"
    by (simp add: cbc_decrypt_def concat_chunks)
qed

lemma cbc_chain:
  assumes "length iv = 8" and "length a mod 8 = 0" and "a \<noteq> []"
  shows "cbc_encrypt enc iv (a @ b) =
    cbc_encrypt enc iv a @ cbc_encrypt enc (last_block (cbc_encrypt enc iv a)) b"
proof -
  let ?cs = "cbc_enc_blocks enc iv (chunks 8 a)"
  have bl: "length x = 8" if "x \<in> set (chunks 8 a)" for x
    by (rule chunks8_length [OF assms(2) that])
  have ne: "?cs \<noteq> []"
    using assms(3) by (subst chunks.simps) (simp add: Let_def)
  then obtain ds d where d: "?cs = ds @ [d]" by (metis rev_exhaust)
  then have "length d = 8" using enc_blocks_length [OF assms(1) bl] by (metis in_set_conv_decomp)
  then have "last_block (concat ?cs) = last (iv # ?cs)"
    using d by (simp add: last_block_def)
  then show ?thesis
    using assms by (simp add: cbc_encrypt_def chunks_append cbc_enc_blocks_append)
qed

end

section \<open>Triple DES\<close>

lemma tdes_lengths:
  "length b = 8 \<Longrightarrow> length (tdes_encrypt k b) = 8"
  "length b = 8 \<Longrightarrow> length (tdes_decrypt k b) = 8"
  by (simp_all add: tdes_encrypt_def tdes_decrypt_def length_des)

interpretation tdes: block_cipher "tdes_encrypt k" "tdes_decrypt k" for k
  by unfold_locales
     (simp_all add: tdes_lengths tdes_encrypt_def tdes_decrypt_def length_des
        des_decrypt_encrypt des_encrypt_decrypt)

end
