(* ===== verification/Dnas.thy ===== *)
theory Dnas
  imports Cbc Server
begin

text \<open>
  dnas.go: the replay of captured DNAS replies.  A reply is looked up by the query's game
  ID and type, an install query falls back to the normal and the unique-ID capture, and
  the connect endpoints encrypt two regions of the reply with triple DES in CBC mode.
\<close>

section \<open>Encryption\<close>

text \<open>
  Offset and length are Go \<open>int\<close>s (all callers pass constants, so their sum does not wrap);
  a negative one passes both guards and panics at the slice.
\<close>

definition encrypt3n :: "bytes \<Rightarrow> int \<Rightarrow> int \<Rightarrow> bytes \<Rightarrow> bytes \<Rightarrow> bytes \<Rightarrow> bytes \<Rightarrow> bytes outcome" where
  "encrypt3n data offset len k1 k2 k3 xor_seed =
     (if offset + len > int (length data) then Err (NewErr ''encrypt3n: region exceeds buffer'')
      else if len mod 8 \<noteq> 0 then Err (NewErr ''encrypt3n: length not a multiple of 8'')
      else obind (new_triple_des (k1 @ k2 @ k3)) (\<lambda>block.
           obind (go_slice offset (offset + len) data) (\<lambda>region.
           obind (crypt_blocks (cbc_encrypt (tdes_encrypt block)) xor_seed region) (\<lambda>c.
           Ok (splice_at (nat offset) c data)))))"




definition derive_keys :: "bytes \<Rightarrow> (bytes \<times> bytes \<times> bytes \<times> bytes) outcome" where
  "derive_keys req =
     (if length req < 0x48 + 0xec then Err (NewErr ''request too short for key derivation'')
      else
        obind (go_slice 0x34 (0x34 + 0x100) req) (\<lambda>region1.
        obind (go_slice 0x48 (0x48 + 0xec) req) (\<lambda>region2.
        let chksum1 = hex_encode (sha1 region1); chksum2 = hex_encode (sha1 region2) in
        obind (go_upto (0x14 * 2) chksum2) (\<lambda>part2.
        obind (go_upto (0x0c * 2) chksum1) (\<lambda>part1.
        let fullkey = part2 @ part1;
            dec = (\<lambda>a b. obind (go_slice a b fullkey) (\<lambda>s. case hex_decode s of
                           None \<Rightarrow> Err (NewErr ''encoding/hex'') | Some k \<Rightarrow> Ok k))
        in obind (dec 0x00 0x10) (\<lambda>k1. obind (dec 0x10 0x20) (\<lambda>k2.
           obind (dec 0x20 0x30) (\<lambda>k3. obind (dec 0x30 0x40) (\<lambda>seed.
           Ok (k1, k2, k3, seed))))))))))"

text \<open>
  The keyset of the envelope: package variables, initialised before \<open>main\<close> runs by a
  function that panics on text that is not hexadecimal.  A variable is read only once its
  initialiser has returned.
\<close>

definition must_hex :: "string \<Rightarrow> bytes outcome" where
  "must_hex s = (case hex_decode s of None \<Rightarrow> Panic | Some b \<Rightarrow> Ok b)"

definition package_var :: "bytes outcome \<Rightarrow> bytes" where
  "package_var init = (case init of Ok b \<Rightarrow> b | _ \<Rightarrow> [])"

definition env_k1 :: bytes where "env_k1 = package_var (must_hex ''eb711416cb0ab016'')"
definition env_k2 :: bytes where "env_k2 = package_var (must_hex ''ae190174b5ce6339'')"
definition env_k3 :: bytes where "env_k3 = package_var (must_hex ''7b01b91880145e34'')"
definition env_seed :: bytes where "env_seed = package_var (must_hex ''c510a6400a9b022f'')"

text \<open>The initialisers return, with one DES block each.\<close>

lemma package_init:
  "must_hex ''eb711416cb0ab016'' = Ok [0xeb, 0x71, 0x14, 0x16, 0xcb, 0x0a, 0xb0, 0x16]"
  "must_hex ''ae190174b5ce6339'' = Ok [0xae, 0x19, 0x01, 0x74, 0xb5, 0xce, 0x63, 0x39]"
  "must_hex ''7b01b91880145e34'' = Ok [0x7b, 0x01, 0xb9, 0x18, 0x80, 0x14, 0x5e, 0x34]"
  "must_hex ''c510a6400a9b022f'' = Ok [0xc5, 0x10, 0xa6, 0x40, 0x0a, 0x9b, 0x02, 0x2f]"
  by code_simp+

section \<open>Looking up a reply\<close>

text \<open>\<open>Ok None\<close> is the result \<open>("", false)\<close>.\<close>

definition packet_name :: "bytes \<Rightarrow> nat \<Rightarrow> string option outcome" where
  "packet_name req game_id_off =
     (if length req < game_id_off + 8 \<or> length req < 4 then Ok None
      else obind (go_slice (int game_id_off) (int game_id_off + 8) req) (\<lambda>game_id.
           obind (go_slice 0 4 req) (\<lambda>qrytype.
           Ok (Some (hex_encode game_id @ ''_'' @ hex_encode qrytype)))))"

definition load_packet :: "file_system \<Rightarrow> string \<Rightarrow> string \<Rightarrow> bytes outcome" where
  "load_packet fs gw_dir name =
     (if CHR ''/'' \<in> set name \<or> CHR 0x5C \<in> set name then Err ErrNotExist
      else read_file fs (join_path [gw_dir, ''packets'', name]))"

definition op_install :: byte where "op_install = 0x10"
definition op_normal :: byte where "op_normal = 0x18"
definition op_unique_id :: byte where "op_unique_id = 0x08"

text \<open>
  The loop over the stand-in operations of an install query; the error of the last
  attempt is what remains when none has a capture.
\<close>

fun install_reply ::
  "file_system \<Rightarrow> string \<Rightarrow> bytes \<Rightarrow> nat \<Rightarrow> byte list \<Rightarrow> go_error \<Rightarrow> bytes outcome" where
  "install_reply fs gw_dir req off [] err = Err err"
| "install_reply fs gw_dir req off (op # ops) err =
     obind (go_update 1 op req) (\<lambda>other.
     obind (packet_name other off) (\<lambda>n.
     let other_name = (case n of None \<Rightarrow> '''' | Some n \<Rightarrow> n)
     in case load_packet fs gw_dir other_name of
          Ok packet \<Rightarrow>
            if length packet < 2 then Err ErrMalformed else go_update 1 op_install packet
        | Err e \<Rightarrow> install_reply fs gw_dir req off ops e
        | Panic \<Rightarrow> Panic))"

text \<open>\<open>loadReply\<close>: the packet or an error, and the name it was looked up under.\<close>

definition load_reply :: "file_system \<Rightarrow> string \<Rightarrow> bytes \<Rightarrow> nat \<Rightarrow> bytes outcome \<times> string" where
  "load_reply fs gw_dir req off =
     (case packet_name req off of
        Panic \<Rightarrow> (Panic, '''')
      | Err e \<Rightarrow> (Err e, '''')
      | Ok None \<Rightarrow> (Err ErrMalformed, '''')
      | Ok (Some name) \<Rightarrow>
          (case load_packet fs gw_dir name of
             Ok packet \<Rightarrow> (Ok packet, name)
           | Panic \<Rightarrow> (Panic, name)
           | Err e \<Rightarrow>
               (obind (go_index 1 req) (\<lambda>op.
                if op = op_install
                then install_reply fs gw_dir req off [op_normal, op_unique_id] e
                else Err e), name)))"

section \<open>Replies\<close>

definition error_raw :: "file_system \<Rightarrow> string \<Rightarrow> bytes" where
  "error_raw fs gw_dir =
     (case read_file fs (join_path [gw_dir, ''error.raw'']) of Ok b \<Rightarrow> b | _ \<Rightarrow> [])"

definition success_reply :: "file_system \<Rightarrow> string \<Rightarrow> bytes \<Rightarrow> bytes outcome" where
  "success_reply fs gw_dir req =
     (case read_file fs (join_path [gw_dir, ''success.raw'']) of
        Ok reply \<Rightarrow>
          if 1 < length req \<and> 1 < length reply
          then obind (go_index 1 req) (\<lambda>op. go_update 1 op reply) else Ok reply
      | _ \<Rightarrow> Ok (error_raw fs gw_dir))"

definition missing_packet_reply ::
  "success_mode \<Rightarrow> file_system \<Rightarrow> string \<Rightarrow> bytes \<Rightarrow> bytes outcome" where
  "missing_packet_reply mode fs gw_dir req =
     (if mode = SuccessFallback then success_reply fs gw_dir req else Ok (error_raw fs gw_dir))"

text \<open>Step 2 and step 3 of connect.php.\<close>

definition connect_encrypt :: "bytes \<Rightarrow> bytes \<Rightarrow> bytes outcome" where
  "connect_encrypt packet req =
     obind (derive_keys req) (\<lambda>(k1, k2, k3, seed).
     obind (encrypt3n packet 0xc8 0x20 k1 k2 k3 seed) (\<lambda>packet1.
     encrypt3n packet1 0x28 0x120 env_k1 env_k2 env_k3 env_seed))"

definition connect_reply :: "success_mode \<Rightarrow> file_system \<Rightarrow> string \<Rightarrow> bytes \<Rightarrow> bytes outcome" where
  "connect_reply mode fs gw_dir req =
     (case fst (load_reply fs gw_dir req 0x2c) of
        Err e \<Rightarrow>
          if e = ErrMalformed then Ok (error_raw fs gw_dir)
          else missing_packet_reply mode fs gw_dir req
      | Panic \<Rightarrow> Panic
      | Ok packet \<Rightarrow>
          (case connect_encrypt packet req of
             Ok reply \<Rightarrow> Ok reply
           | Err e \<Rightarrow> Ok (error_raw fs gw_dir)
           | Panic \<Rightarrow> Panic))"

definition others_reply :: "success_mode \<Rightarrow> file_system \<Rightarrow> string \<Rightarrow> bytes \<Rightarrow> bytes outcome" where
  "others_reply mode fs gw_dir req =
     (case fst (load_reply fs gw_dir req 0x1b) of
        Err e \<Rightarrow>
          if e = ErrMalformed then Ok (error_raw fs gw_dir)
          else missing_packet_reply mode fs gw_dir req
      | Panic \<Rightarrow> Panic
      | Ok packet \<Rightarrow> Ok packet)"

definition gw_dir_for :: "string \<Rightarrow> string \<Rightarrow> string option" where
  "gw_dir_for root upath =
     (let full = join_path [root, dir (clean (slash @ upath))]
      in case rel root full of
           None \<Rightarrow> None
         | Some r \<Rightarrow> if has_prefix r dotdot then None else Some full)"

section \<open>Lemmas\<close>

lemma load_packet_total [simp]:
  "load_packet fs gw name \<noteq> Panic" "load_packet fs gw name \<noteq> Err ErrMalformed"
  by (simp_all add: load_packet_def)

text \<open>The bounds are checked before every slice: the lookup without its run-time checks.\<close>

lemma packet_name_eq:
  "packet_name req off =
     Ok (if length req < off + 8 \<or> length req < 4 then None
         else Some (hex_encode (gslice off (off + 8) req) @ ''_'' @ hex_encode (gslice 0 4 req)))"
  using go_slice_Ok [of off "off + 8" req] go_slice_Ok [of 0 4 req]
  by (simp add: packet_name_def)

lemma go_second_Ok: "2 \<le> length xs \<Longrightarrow> go_index 1 xs = Ok (xs ! 1)"
  "2 \<le> length xs \<Longrightarrow> go_update 1 x xs = Ok (xs[1 := x])"
  using go_index_Ok [of 1 xs] go_update_Ok [of 1 xs x] by simp_all

lemma install_reply_eq:
  assumes "2 \<le> length req"
  shows "install_reply fs gw_dir req off (op # ops) err =
     (let other_name = (case packet_name (req[1 := op]) off of Ok (Some n) \<Rightarrow> n | _ \<Rightarrow> '''')
      in case load_packet fs gw_dir other_name of
           Ok packet \<Rightarrow>
             if length packet < 2 then Err ErrMalformed else Ok (packet[1 := op_install])
         | Err e \<Rightarrow> install_reply fs gw_dir req off ops e
         | Panic \<Rightarrow> Panic)"
  using assms
  by (auto simp: go_second_Ok packet_name_eq Let_def split: option.split outcome.split)

lemma install_reply_total: "2 \<le> length req \<Longrightarrow> install_reply fs gw req off ops e \<noteq> Panic"
proof (induction ops arbitrary: e)
  case (Cons op ops)
  then show ?case
    unfolding install_reply_eq [OF Cons.prems] Let_def by (auto split: outcome.splits)
qed simp

lemma load_reply_total: "fst (load_reply fs gw req off) \<noteq> Panic"
  by (auto simp: load_reply_def packet_name_eq go_second_Ok install_reply_total
      split: option.splits outcome.splits)

text \<open>
  A success reply is the gateway's success.raw with the operation of the request in
  byte 1 and every other byte untouched; without a success.raw it is error.raw.
\<close>

definition relabelled :: "file_system \<Rightarrow> string \<Rightarrow> bytes \<Rightarrow> bytes" where
  "relabelled fs gw_dir req =
     (case fs (join_path [gw_dir, ''success.raw'']) of
        None \<Rightarrow> error_raw fs gw_dir
      | Some b \<Rightarrow> map (\<lambda>i. if i = 1 \<and> 1 < length req then req ! 1 else b ! i) [0..<length b])"

lemma success_reply_relabelled: "success_reply fs gw_dir req = Ok (relabelled fs gw_dir req)"
  by (auto simp: success_reply_def relabelled_def read_file_def go_second_Ok nth_list_update
      split: option.split intro!: nth_equalityI)

lemma derive_keys_eq:
  "derive_keys req =
     (if length req < 0x48 + 0xec then Err (NewErr ''request too short for key derivation'')
      else
        let chksum1 = hex_encode (sha1 (gslice 0x34 (0x34 + 0x100) req));
            chksum2 = hex_encode (sha1 (gslice 0x48 (0x48 + 0xec) req));
            fullkey = take (0x14 * 2) chksum2 @ take (0x0c * 2) chksum1;
            dec = (\<lambda>a b. case hex_decode (gslice a b fullkey) of
                           None \<Rightarrow> Err (NewErr ''encoding/hex'') | Some k \<Rightarrow> Ok k)
        in obind (dec 0x00 0x10) (\<lambda>k1. obind (dec 0x10 0x20) (\<lambda>k2.
           obind (dec 0x20 0x30) (\<lambda>k3. obind (dec 0x30 0x40) (\<lambda>seed.
           Ok (k1, k2, k3, seed))))))"
proof (cases "length req < 0x134")
  case True
  then show ?thesis by (simp add: derive_keys_def)
next
  case False
  then have g: "(length req < 0x48 + 0xec) = False"
    and s: "go_slice 0x34 (0x34 + 0x100) req = Ok (gslice 0x34 (0x34 + 0x100) req)"
      "go_slice 0x48 (0x48 + 0xec) req = Ok (gslice 0x48 (0x48 + 0xec) req)"
    by (simp_all add: go_slice_def)
  define c1 where "c1 = hex_encode (sha1 (gslice 0x34 (0x34 + 0x100) req))"
  define c2 where "c2 = hex_encode (sha1 (gslice 0x48 (0x48 + 0xec) req))"
  have l: "length c1 = 40" "length c2 = 40" by (simp_all add: c1_def c2_def)
  have u: "go_upto (0x14 * 2) c2 = Ok (take (0x14 * 2) c2)" "go_upto (0x0c * 2) c1 = Ok (take (0x0c * 2) c1)"
    using l go_upto_Ok [of "0x14 * 2" c2] go_upto_Ok [of "0x0c * 2" c1] by simp_all
  define f where "f = take (0x14 * 2) c2 @ take (0x0c * 2) c1"
  have "length f = 64" using l by (simp add: f_def)
  then have d: "go_slice 0x00 0x10 f = Ok (gslice 0x00 0x10 f)" "go_slice 0x10 0x20 f = Ok (gslice 0x10 0x20 f)"
    "go_slice 0x20 0x30 f = Ok (gslice 0x20 0x30 f)" "go_slice 0x30 0x40 f = Ok (gslice 0x30 0x40 f)"
    by (simp_all add: go_slice_def)
  show ?thesis
    unfolding derive_keys_def g if_False s obind.simps Let_def c1_def [symmetric] c2_def [symmetric] u
      f_def [symmetric] d ..
qed

text \<open>The hexadecimal detour of \<open>deriveKeys\<close> is a cut of the two digests.\<close>

definition key_material :: "bytes \<Rightarrow> bytes" where
  "key_material req = sha1 (gslice 0x48 0x134 req) @ take 12 (sha1 (gslice 0x34 0x134 req))"

lemma length_key_material [simp]: "length (key_material req) = 32"
  by (simp add: key_material_def)

lemma derive_keys_spec:
  assumes "0x134 \<le> length req"
  shows "derive_keys req = Ok (gslice 0 8 (key_material req), gslice 8 16 (key_material req),
    gslice 16 24 (key_material req), gslice 24 32 (key_material req))"
proof -
  define c1 where "c1 = sha1 (gslice 0x34 0x134 req)"
  define c2 where "c2 = sha1 (gslice 0x48 0x134 req)"
  define f where "f = key_material req"
  have f: "f = c2 @ take 12 c1" by (simp add: f_def key_material_def c1_def c2_def)
  have full: "take 40 (hex_encode c2) @ take 24 (hex_encode c1) = hex_encode f"
    using take_hex_encode [of 20 c2] take_hex_encode [of 12 c1] by (simp add: c1_def c2_def f)
  have l: "take 40 (hex_encode c2) = hex_encode c2" by (simp add: c2_def)
  have dec: "hex_decode (gslice a b (hex_encode f)) = Some (gslice (a div 2) (b div 2) f)"
    if "even a" "even b" for a b
    using that gslice_hex_encode [of "a div 2" "b div 2" f] by simp
  show ?thesis using assms full [unfolded l]
    by (simp add: derive_keys_eq Let_def dec l flip: c1_def c2_def f_def)
qed

lemma derive_keys_lengths:
  assumes "0x134 \<le> length req"
  obtains k1 k2 k3 seed where "derive_keys req = Ok (k1, k2, k3, seed)"
    and "length k1 = 8" "length k2 = 8" "length k3 = 8" "length seed = 8"
  by (rule that [OF derive_keys_spec [OF assms]]) simp_all

lemma env_lengths [simp]:
  "length env_k1 = 8" "length env_k2 = 8" "length env_k3 = 8" "length env_seed = 8"
  by (simp_all add: env_k1_def env_k2_def env_k3_def env_seed_def package_init package_var_def)

lemma encrypt3n_Ok:
  assumes "length k1 = 8" "length k2 = 8" "length k3 = 8" "length seed = 8"
    and "offset + len \<le> length data" and "len mod 8 = 0"
  shows "encrypt3n data (int offset) (int len) k1 k2 k3 seed =
    Ok (splice_at offset
          (cbc_encrypt (tdes_encrypt (k1 @ k2 @ k3)) seed (gslice offset (offset + len) data)) data)"
proof -
  have "int len mod 8 = int (len mod 8)" by (simp add: zmod_int)
  then have g: "\<not> int offset + int len > int (length data)" "\<not> int len mod 8 \<noteq> 0"
    using assms(5,6) by simp_all
  have s: "go_slice (int offset) (int offset + int len) data = Ok (gslice offset (offset + len) data)"
    using go_slice_Ok [of offset "offset + len" data] assms(5) by simp
  have "min len (length data - offset) = len" using assms(5) by simp
  then show ?thesis
    unfolding encrypt3n_def if_not_P [OF g(1)] if_not_P [OF g(2)] s
    using assms by (simp add: new_triple_des_def crypt_blocks_def)
qed

lemma encrypt3n_total:
  "length seed = 8 \<Longrightarrow> encrypt3n data (int offset) (int len) k1 k2 k3 seed \<noteq> Panic"
proof -
  assume s: "length seed = 8"
  have "min len (length data - offset) = len" if "\<not> length data < offset + len"
    using that by simp
  moreover have "int len mod 8 = int (len mod 8)" by (simp add: zmod_int)
  moreover have "go_slice (int offset) (int offset + int len) data = Ok (gslice offset (offset + len) data)"
    if "\<not> length data < offset + len"
    using go_slice_Ok [of offset "offset + len" data] that by simp
  ultimately show ?thesis using s
    by (auto simp: encrypt3n_def new_triple_des_def crypt_blocks_def obind_Panic
        simp flip: of_nat_add split: if_splits)
qed

lemmas encrypt3n_calls = encrypt3n_total [of _ _ "0xc8" "0x20", simplified]
  encrypt3n_total [of _ _ "0x28" "0x120", simplified]

lemma connect_encrypt_total: "connect_encrypt packet req \<noteq> Panic"
proof (cases "length req < 0x134")
  case True
  then show ?thesis by (simp add: connect_encrypt_def derive_keys_eq)
next
  case False
  then obtain k1 k2 k3 seed where "derive_keys req = Ok (k1, k2, k3, seed)" "length seed = 8"
    using derive_keys_lengths [of req] by (metis not_less)
  then show ?thesis
    by (simp add: connect_encrypt_def obind_Panic encrypt3n_calls)
qed

section \<open>The block loop of connect.php\<close>







section \<open>What a title gets\<close>

text \<open>The title's side of an encrypted region: the inverse of \<open>encrypt3n\<close>.\<close>

definition decrypt3n :: "bytes \<Rightarrow> nat \<Rightarrow> nat \<Rightarrow> bytes \<Rightarrow> bytes \<Rightarrow> bytes \<Rightarrow> bytes \<Rightarrow> bytes" where
  "decrypt3n data offset len k1 k2 k3 seed =
     splice_at offset (cbc_decrypt (tdes_decrypt (k1 @ k2 @ k3)) seed
       (gslice offset (offset + len) data)) data"

definition open_reply :: "bytes \<Rightarrow> bytes \<Rightarrow> bytes" where
  "open_reply req reply =
     (let p = decrypt3n reply 0x28 0x120 env_k1 env_k2 env_k3 env_seed;
          k = key_material req
      in decrypt3n p 0xc8 0x20 (gslice 0 8 k) (gslice 8 16 k) (gslice 16 24 k) (gslice 24 32 k))"

lemma splice_again:
  "length x = length y \<Longrightarrow> a + length y \<le> length xs \<Longrightarrow> splice_at a x (splice_at a y xs) = splice_at a x xs"
  by (simp add: splice_at_def)

lemma decrypt3n_encrypt3n:
  assumes "length k1 = 8" "length k2 = 8" "length k3 = 8" "length seed = 8"
    and "offset + len \<le> length data" and "len mod 8 = 0"
    and "encrypt3n data (int offset) (int len) k1 k2 k3 seed = Ok out"
  shows "decrypt3n out offset len k1 k2 k3 seed = data" and "length out = length data"
    and "take offset out = take offset data"
    and "drop (offset + len) out = drop (offset + len) data"
proof -
  let ?r = "gslice offset (offset + len) data"
  let ?c = "cbc_encrypt (tdes_encrypt (k1 @ k2 @ k3)) seed ?r"
  have out: "out = splice_at offset ?c data"
    using encrypt3n_Ok [OF assms(1-6)] assms(7) by simp
  have rl: "length ?r = len" using assms(5) by simp
  have cl: "length ?c = len"
    using tdes.cbc_length [OF assms(4), of ?r "k1 @ k2 @ k3"] assms(6) rl by simp
  have "cbc_decrypt (tdes_decrypt (k1 @ k2 @ k3)) seed ?c = ?r"
    using assms(4,6) rl by (intro tdes.cbc_round_trip) simp_all
  moreover have "gslice offset (offset + len) out = ?c"
    using assms(5) cl by (simp add: out gslice_splice)
  ultimately have "decrypt3n out offset len k1 k2 k3 seed = splice_at offset ?r out"
    by (simp add: decrypt3n_def)
  also have "\<dots> = splice_at offset ?r data"
    using assms(5) cl rl by (simp add: out splice_again)
  also have "\<dots> = data" using assms(5) by (simp add: splice_gslice)
  finally show "decrypt3n out offset len k1 k2 k3 seed = data" .
  show "length out = length data" using assms(5) cl by (simp add: out length_splice)
  show "take offset out = take offset data"
    using assms(5) by (simp add: out take_splice)
  show "drop (offset + len) out = drop (offset + len) data"
    using assms(5) cl by (simp add: out drop_splice)
qed

lemma connect_encrypt_opens:
  assumes "0x134 \<le> length req" and "0x148 \<le> length packet"
  obtains reply where "connect_encrypt packet req = Ok reply"
    and "open_reply req reply = packet" and "length reply = length packet"
    and "take 0x28 reply = take 0x28 packet" and "drop 0x148 reply = drop 0x148 packet"
proof -
  let ?k = "key_material req"
  define k1 where "k1 = gslice 0 8 ?k"
  define k2 where "k2 = gslice 8 16 ?k"
  define k3 where "k3 = gslice 16 24 ?k"
  define sd where "sd = gslice 24 32 ?k"
  note ks = k1_def k2_def k3_def sd_def
  have l: "length k1 = 8" "length k2 = 8" "length k3 = 8" "length sd = 8"
    by (simp_all add: ks)
  obtain p1 where p1: "encrypt3n packet (int 0xc8) (int 0x20) k1 k2 k3 sd = Ok p1"
    using encrypt3n_Ok [OF l, of "0xc8" "0x20" packet] assms(2) by auto
  note d1 = decrypt3n_encrypt3n [OF l _ _ p1]
  have l1: "length p1 = length packet" using d1(2) assms(2) by simp
  obtain reply where r: "encrypt3n p1 (int 0x28) (int 0x120) env_k1 env_k2 env_k3 env_seed = Ok reply"
    using encrypt3n_Ok [OF env_lengths, of "0x28" "0x120" p1] assms(2) l1 by auto
  note d2 = decrypt3n_encrypt3n [OF env_lengths _ _ r]
  have "connect_encrypt packet req = Ok reply"
    using derive_keys_spec [OF assms(1)] p1 [simplified] r [simplified] by (simp add: connect_encrypt_def flip: ks)
  moreover have "open_reply req reply = packet"
    using d1(1) d2(1) assms(2) l1 by (simp add: open_reply_def flip: ks)
  moreover have "length reply = length packet" using d2(2) l1 assms(2) by simp
  moreover have "take 0x28 reply = take 0x28 packet"
  proof -
    have "take 0x28 (take 0xc8 p1) = take 0x28 (take 0xc8 packet)"
      using d1(3) assms(2) by simp
    moreover have "take 0x28 reply = take 0x28 p1" using d2(3) assms(2) l1 by simp
    ultimately show ?thesis by simp
  qed
  moreover have "drop 0x148 reply = drop 0x148 packet"
  proof -
    have "drop 0x60 (drop 0xe8 p1) = drop 0x60 (drop 0xe8 packet)"
      using d1(4) assms(2) by simp
    moreover have "drop 0x148 reply = drop 0x148 p1" using d2(4) assms(2) l1 by simp
    ultimately show ?thesis by simp
  qed
  ultimately show ?thesis by (rule that)
qed

lemma connect_encrypt_short:
  assumes "length req < 0x134 \<or> length packet < 0x148"
  shows "\<exists>e. connect_encrypt packet req = Err e"
proof (cases "length req < 0x134")
  case True
  then show ?thesis by (simp add: connect_encrypt_def derive_keys_eq)
next
  case False
  then have r: "0x134 \<le> length req" by simp
  have p: "length packet < 0x148" using False assms by simp
  show ?thesis
  proof (cases "length packet < 0xe8")
    case True
    then show ?thesis
      by (simp add: connect_encrypt_def derive_keys_spec [OF r] encrypt3n_def)
  next
    case F: False
    let ?k = "key_material req"
    have l: "length (gslice 0 8 ?k) = 8" "length (gslice 8 16 ?k) = 8"
      "length (gslice 16 24 ?k) = 8" "length (gslice 24 32 ?k) = 8" by simp_all
    obtain p1 where p1: "encrypt3n packet (int 0xc8) (int 0x20) (gslice 0 8 ?k) (gslice 8 16 ?k)
        (gslice 16 24 ?k) (gslice 24 32 ?k) = Ok p1"
      using encrypt3n_Ok [OF l, of "0xc8" "0x20" packet] F by auto
    have "length p1 = length packet"
      using decrypt3n_encrypt3n(2) [OF l _ _ p1] F by simp
    then show ?thesis using p p1 [simplified]
      by (simp add: connect_encrypt_def derive_keys_spec [OF r]) (simp add: encrypt3n_def)
  qed
qed

section \<open>The lookup as a contract\<close>

text \<open>
  What the lookup promises, without its loops: the capture of one operation of a title is
  the file named by the game ID and by the query type with that operation in byte 1.
\<close>

datatype lookup = Malformed | Missing | Found bytes

definition capture_name :: "bytes \<Rightarrow> nat \<Rightarrow> byte \<Rightarrow> string" where
  "capture_name req off op =
     hex_encode (gslice off (off + 8) req) @ ''_'' @ hex_encode [req ! 0, op, req ! 2, req ! 3]"

definition captured :: "file_system \<Rightarrow> string \<Rightarrow> bytes \<Rightarrow> nat \<Rightarrow> byte \<Rightarrow> bytes option" where
  "captured fs gw_dir req off op = fs (join_path [gw_dir, ''packets'', capture_name req off op])"

definition as_install :: "bytes \<Rightarrow> lookup" where
  "as_install p = (if length p < 2 then Malformed else Found (p[1 := op_install]))"

definition find_capture :: "file_system \<Rightarrow> string \<Rightarrow> bytes \<Rightarrow> nat \<Rightarrow> lookup" where
  "find_capture fs gw_dir req off =
     (if length req < off + 8 \<or> length req < 4 then Malformed
      else case captured fs gw_dir req off (req ! 1) of
        Some p \<Rightarrow> Found p
      | None \<Rightarrow>
          if req ! 1 \<noteq> op_install then Missing
          else case captured fs gw_dir req off op_normal of
            Some p \<Rightarrow> as_install p
          | None \<Rightarrow> (case captured fs gw_dir req off op_unique_id of
                Some p \<Rightarrow> as_install p
              | None \<Rightarrow> Missing))"

fun lookup_of :: "bytes outcome \<Rightarrow> lookup" where
  "lookup_of (Ok p) = Found p"
| "lookup_of (Err e) = (if e = ErrMalformed then Malformed else Missing)"
| "lookup_of Panic = Malformed"

lemma hex_name_no_slash:
  "CHR ''/'' \<notin> set (hex_encode a @ ''_'' @ hex_encode b)"
  "CHR 0x5C \<notin> set (hex_encode a @ ''_'' @ hex_encode b)"
  using hex_encode_hex [of "CHR ''/''" a] hex_encode_hex [of "CHR ''/''" b]
    hex_encode_hex [of "CHR 0x5C" a] hex_encode_hex [of "CHR 0x5C" b]
  by (auto simp: is_hex_char_def)

lemma four_bytes: "4 \<le> length req \<Longrightarrow> gslice 0 4 req = [req ! 0, req ! 1, req ! 2, req ! 3]"
  by (cases req; cases "tl req"; cases "tl (tl req)"; cases "tl (tl (tl req))")
     (simp_all add: gslice_def)

lemma packet_name_Some:
  "packet_name req off = Ok (Some name) \<longleftrightarrow>
   off + 8 \<le> length req \<and> 4 \<le> length req \<and> name = capture_name req off (req ! 1)"
  by (auto simp: packet_name_eq capture_name_def four_bytes not_less)

lemma load_capture:
  "load_packet fs gw_dir (capture_name req off op) =
   read_file fs (join_path [gw_dir, ''packets'', capture_name req off op])"
  using hex_name_no_slash [of "gslice off (off + 8) req" "[req ! 0, op, req ! 2, req ! 3]"]
  by (simp add: load_packet_def capture_name_def)

lemma gslice_list_update:
  "i < a \<Longrightarrow> gslice a b (xs[i := x]) = gslice a b xs"
  by (simp add: gslice_def drop_update_cancel)

lemma packet_name_update:
  assumes "packet_name req off = Ok (Some name)" and "1 < off"
  shows "packet_name (req[1 := op]) off = Ok (Some (capture_name req off op))"
  using assms
  by (auto simp: packet_name_Some capture_name_def gslice_list_update)

lemma load_reply_lookup:
  assumes "1 < off"
  shows "lookup_of (fst (load_reply fs gw_dir req off)) = find_capture fs gw_dir req off"
proof (cases "length req < off + 8 \<or> length req < 4")
  case True
  then show ?thesis by (auto simp: load_reply_def find_capture_def packet_name_eq)
next
  case False
  define name where "name = capture_name req off (req ! 1)"
  have n: "name = capture_name req off (req ! 1)" "off + 8 \<le> length req" "4 \<le> length req"
    using False by (simp_all add: name_def)
  then have Some: "packet_name req off = Ok (Some name)" by (simp add: packet_name_Some)
  have two: "2 \<le> length req" using n(3) by simp
  note upd = packet_name_update [OF Some assms]
  have h: "fst (load_reply fs gw_dir req off) =
      (case captured fs gw_dir req off (req ! 1) of
        Some p \<Rightarrow> Ok p
      | None \<Rightarrow> if req ! 1 \<noteq> op_install then Err (IOErr (join_path [gw_dir, ''packets'', name]))
          else install_reply fs gw_dir req off [op_normal, op_unique_id]
            (IOErr (join_path [gw_dir, ''packets'', name])))"
    using two
    by (simp add: load_reply_def Some n(1) load_capture captured_def read_file_def go_second_Ok
        del: install_reply.simps split: option.split)
  have i: "lookup_of (install_reply fs gw_dir req off ops (IOErr e)) =
      foldr (\<lambda>op r. case captured fs gw_dir req off op of Some p \<Rightarrow> as_install p | None \<Rightarrow> r)
        ops Missing" for ops e
    by (induction ops arbitrary: e)
       (simp_all add: install_reply_eq [OF two] Let_def upd load_capture captured_def read_file_def as_install_def
         del: install_reply.simps(2) One_nat_def split: option.split)
  show ?thesis
    using n(2,3) i by (simp add: h find_capture_def del: install_reply.simps One_nat_def split: option.split)
qed

lemma has_prefix_join_dotdot:
  assumes "es \<noteq> []" and "\<And>e. e \<in> set es \<Longrightarrow> proper e"
  shows "has_prefix (join es slash) dotdot = has_prefix (hd es) dotdot"
proof -
  obtain e fs where es: "es = e # fs" using assms(1) by (cases es) auto
  then have "e \<noteq> []" using assms(2) [of e] by (simp add: proper_def)
  then obtain x xs where e: "e = x # xs" by (cases e) auto
  show ?thesis
    by (cases fs; cases xs) (simp_all add: es e has_prefix_def)
qed

lemma gw_containment:
  assumes "root \<noteq> []"
  shows "gw_dir_for root upath =
     (let es = elems (dir (clean (slash @ upath)))
      in if es \<noteq> [] \<and> has_prefix (hd es) dotdot then None
         else Some (render (rooted root) (elems root @ es)))"
proof -
  define c where "c = clean (slash @ upath)"
  define q where "q = rev (dropWhile (\<lambda>c. c \<noteq> CHR ''/'') (rev c))"
  have "rooted c" unfolding c_def rooted_clean by (simp add: rooted_def)
  then have "rooted q"
    by (cases c) (auto simp: q_def rooted_def dropWhile_append)
  have dc: "dir c = clean q" by (simp add: dir_def q_def)
  have j: "join_path [root, dir c] = render (rooted root) (elems root @ elems q)"
    unfolding dc by (rule clean_join [OF assms \<open>rooted q\<close>])
  have e: "elems (dir c) = elems q" unfolding dc by simp
  have rl: "rel root (join_path [root, dir c]) =
      Some (if elems q = [] then dot else join (elems q) slash)"
    unfolding dc by (rule rel_join [OF assms \<open>rooted q\<close>])
  have p: "has_prefix (join (elems q) slash) dotdot = has_prefix (hd (elems q)) dotdot"
    if "elems q \<noteq> []"
    by (rule has_prefix_join_dotdot [OF that]) (use elems_proper [OF \<open>rooted q\<close>] in blast)
  have nd: "\<not> has_prefix dot dotdot" by (simp add: has_prefix_def)
  show ?thesis
    unfolding gw_dir_for_def Let_def c_def [symmetric] j e rl [unfolded j] option.case
    using p nd by (cases "elems q = []") (simp_all only: if_True if_False simp_thms)
qed

section \<open>Properties\<close>

lemma missing_reply_Ok:
  "missing_packet_reply mode fs gw_dir req =
   Ok (if mode = SuccessFallback then relabelled fs gw_dir req else error_raw fs gw_dir)"
  by (simp add: missing_packet_reply_def success_reply_relabelled)

lemma connect_reply_lookup:
  "connect_reply mode fs gw_dir req =
   Ok (case find_capture fs gw_dir req 0x2c of
         Malformed \<Rightarrow> error_raw fs gw_dir
       | Missing \<Rightarrow>
           if mode = SuccessFallback then relabelled fs gw_dir req else error_raw fs gw_dir
       | Found p \<Rightarrow> (case connect_encrypt p req of Ok r \<Rightarrow> r | _ \<Rightarrow> error_raw fs gw_dir))"
proof -
  have l: "lookup_of (fst (load_reply fs gw_dir req 0x2c)) = find_capture fs gw_dir req 0x2c"
    by (rule load_reply_lookup) simp
  have t: "fst (load_reply fs gw_dir req 0x2c) \<noteq> Panic" by (rule load_reply_total)
  have c: "connect_encrypt p req \<noteq> Panic" for p by (rule connect_encrypt_total)
  show ?thesis
    using t c
    by (auto simp: connect_reply_def missing_reply_Ok l [symmetric] split: outcome.splits)
qed

lemma others_reply_lookup:
  "others_reply mode fs gw_dir req =
   Ok (case find_capture fs gw_dir req 0x1b of
         Malformed \<Rightarrow> error_raw fs gw_dir
       | Missing \<Rightarrow>
           if mode = SuccessFallback then relabelled fs gw_dir req else error_raw fs gw_dir
       | Found p \<Rightarrow> p)"
proof -
  have l: "lookup_of (fst (load_reply fs gw_dir req 0x1b)) = find_capture fs gw_dir req 0x1b"
    by (rule load_reply_lookup) simp
  have t: "fst (load_reply fs gw_dir req 0x1b) \<noteq> Panic" by (rule load_reply_total)
  show ?thesis
    using t by (auto simp: others_reply_def missing_reply_Ok l [symmetric] split: outcome.splits)
qed

lemma capture_proper: "proper (capture_name req off op)"
proof -
  have "CHR ''_'' \<in> set (capture_name req off op)" by (simp add: capture_name_def)
  moreover have "CHR ''/'' \<notin> set (capture_name req off op)"
    unfolding capture_name_def by (rule hex_name_no_slash)
  ultimately show ?thesis unfolding proper_def by auto
qed

lemma packet_path:
  "gw_dir \<noteq> [] \<Longrightarrow>
   join_path [gw_dir, ''packets'', capture_name req off op] =
   render (rooted gw_dir) (elems gw_dir @ [''packets'', capture_name req off op])"
  by (intro join_below) (simp_all add: capture_proper, simp add: proper_def)

lemma capture_name_inj:
  "length a = length a' \<Longrightarrow>
   hex_encode a @ ''_'' @ hex_encode b = hex_encode a' @ ''_'' @ hex_encode b' \<longleftrightarrow> a = a' \<and> b = b'"
  by (simp add: append_eq_append_conv)

text \<open>C6. The connect endpoint answers every request, never panicking: with error.raw when
  the request is too short to name a packet, with the force-success reply or error.raw when
  nothing was captured, and otherwise with the capture that the lookup contract names,
  encrypted, or error.raw when request or capture are too short to encrypt.\<close>

theorem connect_reply_refines:
  "connect_reply mode fs gw_dir req =
   Ok (case find_capture fs gw_dir req 0x2c of
         Malformed \<Rightarrow> error_raw fs gw_dir
       | Missing \<Rightarrow>
           if mode = SuccessFallback then relabelled fs gw_dir req else error_raw fs gw_dir
       | Found p \<Rightarrow>
           if length req < 0x134 \<or> length p < 0x148 then error_raw fs gw_dir
           else case connect_encrypt p req of Ok r \<Rightarrow> r | _ \<Rightarrow> [])"
proof -
  have "(case connect_encrypt p req of Ok r \<Rightarrow> r | _ \<Rightarrow> error_raw fs gw_dir) =
      (if length req < 0x134 \<or> length p < 0x148 then error_raw fs gw_dir
       else case connect_encrypt p req of Ok r \<Rightarrow> r | _ \<Rightarrow> [])" for p
  proof (cases "length req < 0x134 \<or> length p < 0x148")
    case True
    then show ?thesis using connect_encrypt_short [of req p] by auto
  next
    case False
    then obtain r where "connect_encrypt p req = Ok r"
      using connect_encrypt_opens [of req p] by (metis not_less)
    with False show ?thesis by simp
  qed
  then show ?thesis
    by (simp add: connect_reply_lookup split: lookup.split)
qed

text \<open>C5. A title that opens a connect reply - the envelope keys first, then the keys it
  derives from its own request - recovers exactly the captured packet, and the bytes before
  the envelope and after it are the capture's own.\<close>

theorem connect_reply_opens:
  assumes "find_capture fs gw_dir req 0x2c = Found p"
    and "0x134 \<le> length req" and "0x148 \<le> length p"
  shows "\<exists>reply. connect_reply mode fs gw_dir req = Ok reply \<and> open_reply req reply = p \<and>
    length reply = length p \<and> take 0x28 reply = take 0x28 p \<and> drop 0x148 reply = drop 0x148 p"
  by (rule connect_encrypt_opens [OF assms(2,3)]) (simp add: connect_reply_lookup assms(1))

theorem connect_reply_opens_witness:
  "\<exists>reply. connect_reply SuccessOff (\<lambda>_. Some (replicate 0x148 7)) ''/gw'' (replicate 0x134 0) =
     Ok reply \<and> open_reply (replicate 0x134 0) reply = replicate 0x148 7 \<and>
     length reply = length (replicate 0x148 (7 :: byte)) \<and>
     take 0x28 reply = take 0x28 (replicate 0x148 7) \<and>
     drop 0x148 reply = drop 0x148 (replicate 0x148 7)"
  by (rule connect_reply_opens) (simp_all add: find_capture_def captured_def)

text \<open>C13. The others endpoint answers every request, never panicking, and replays the
  capture that the lookup contract names byte for byte.\<close>

theorem others_reply_refines:
  "others_reply mode fs gw_dir req =
   Ok (case find_capture fs gw_dir req 0x1b of
         Malformed \<Rightarrow> error_raw fs gw_dir
       | Missing \<Rightarrow>
           if mode = SuccessFallback then relabelled fs gw_dir req else error_raw fs gw_dir
       | Found p \<Rightarrow> p)"
  by (rule others_reply_lookup)



text \<open>C18. The file of a reply lies in the gateway's own directory packets, whatever the
  request holds, and two requests share a file exactly when they carry the same game ID
  and the same query type: no two queries are ever confused.\<close>

theorem packet_file:
  assumes "gw_dir \<noteq> []" and "packet_name req off = Ok (Some n)" and "packet_name req' off = Ok (Some n')"
  shows "load_packet fs gw_dir n =
      read_file fs (render (rooted gw_dir) (elems gw_dir @ [''packets'', n]))
    \<and> (n = n' \<longleftrightarrow> gslice off (off + 8) req = gslice off (off + 8) req' \<and> take 4 req = take 4 req')"
proof -
  have c: "n = capture_name req off (req ! 1)" using assms(2) by (simp add: packet_name_Some)
  have l: "length (gslice off (off + 8) req) = length (gslice off (off + 8) req')"
    using assms(2,3) by (auto simp: packet_name_Some)
  have n: "n = hex_encode (gslice off (off + 8) req) @ ''_'' @ hex_encode (gslice 0 4 req)"
    using assms(2) by (simp add: packet_name_eq split: if_splits)
  have n': "n' = hex_encode (gslice off (off + 8) req') @ ''_'' @ hex_encode (gslice 0 4 req')"
    using assms(3) by (simp add: packet_name_eq split: if_splits)
  have "n = n' \<longleftrightarrow> gslice off (off + 8) req = gslice off (off + 8) req'
      \<and> gslice 0 4 req = gslice 0 4 req'"
    unfolding n n' by (rule capture_name_inj [OF l])
  moreover have "load_packet fs gw_dir n =
      read_file fs (render (rooted gw_dir) (elems gw_dir @ [''packets'', n]))"
    unfolding c load_capture packet_path [OF assms(1)] ..
  ultimately show ?thesis by (simp add: gslice_def)
qed

theorem packet_file_witness:
  "load_packet (\<lambda>_. None) ''/gw'' ''0000000000000000_00000000'' =
     read_file (\<lambda>_. None) (render True [''gw'', ''packets'', ''0000000000000000_00000000''])
   \<and> (''0000000000000000_00000000'' = ''0000000000000000_00100000'' \<longleftrightarrow>
      gslice 4 (4 + 8) (replicate 12 (0 :: byte)) = gslice 4 (4 + 8) ((replicate 12 0)[1 := 0x10]) \<and>
      take 4 (replicate 12 (0 :: byte)) = take 4 ((replicate 12 (0 :: byte))[1 := 0x10]))"
  using packet_file [of "''/gw''" "replicate 12 0" 4 "''0000000000000000_00000000''"
      "(replicate 12 0)[1 := 0x10]" "''0000000000000000_00100000''" "\<lambda>_. None"]
  by (simp add: packet_name_eq) code_simp

text \<open>C17. The gateway directory of a request lies in the document root: it is the root's own
  elements followed by proper elements of the request path, so no request path climbs out;
  the path is refused exactly when its first element starts with two dots.\<close>

theorem gw_dir_contained:
  assumes "root \<noteq> []" and "es = elems (dir (clean (slash @ upath)))"
  shows "list_all proper es \<and>
     gw_dir_for root upath =
       (if es \<noteq> [] \<and> has_prefix (hd es) dotdot then None
        else Some (render (rooted root) (elems root @ es)))"
proof -
  have "rooted (dir (clean (slash @ upath)))" by (rule rooted_dir) (simp add: rooted_def)
  from elems_proper [OF this] show ?thesis
    using gw_containment [OF assms(1), of upath]
    by (simp add: Let_def list_all_iff assms(2))
qed

theorem gw_dir_contained_witness:
  "list_all proper [''us-gw''] \<and>
   gw_dir_for ''/srv/www'' ''/x/../../us-gw/./v2.5_others'' =
     (if [''us-gw''] \<noteq> [] \<and> has_prefix (hd [''us-gw'']) dotdot then None
      else Some (render (rooted ''/srv/www'') (elems ''/srv/www'' @ [''us-gw''])))"
  by (rule gw_dir_contained) code_simp+

end
