(* ===== verification/Prf.thy ===== *)
theory Prf
  imports Hashes
begin

text \<open>
  tls10.go, \<open>pHash\<close>, \<open>prf10\<close> and \<open>finishedHash\<close>: the pseudo-random function of TLS 1.0.
  The loop is shown equal to the P_hash of RFC 2246, section 5, and every output has the
  length asked for.
\<close>

text \<open>The loop, from the state \<open>a\<close> of the chain and the output so far.\<close>

function p_hash_loop :: "hash_alg \<Rightarrow> bytes \<Rightarrow> bytes \<Rightarrow> nat \<Rightarrow> bytes \<Rightarrow> bytes \<Rightarrow> bytes" where
  "p_hash_loop h secret seed n a out =
     (if length out < n
      then p_hash_loop h secret seed n (hmac h secret a) (out @ hmac h secret (a @ seed))
      else out)"
  by pat_completeness auto
termination
  by (relation "measure (\<lambda>(h, secret, seed, n, a, out). n - length out)")
     (simp_all add: diff_less_mono2)

declare p_hash_loop.simps [simp del]

definition p_hash :: "hash_alg \<Rightarrow> bytes \<Rightarrow> bytes \<Rightarrow> nat \<Rightarrow> bytes" where
  "p_hash h secret seed n = take n (p_hash_loop h secret seed n (hmac h secret seed) [])"

definition prf10 :: "bytes \<Rightarrow> bytes \<Rightarrow> bytes \<Rightarrow> nat \<Rightarrow> bytes" where
  "prf10 secret label seed n =
     (let ls = label @ seed;
          half = (length secret + 1) div 2;
          s1 = take half secret;
          s2 = drop (length secret - half) secret
      in xor_bytes (p_hash MD5 s1 ls n) (p_hash SHA1 s2 ls n))"

definition finished_hash :: "bytes \<Rightarrow> bytes" where
  "finished_hash transcript = md5 transcript @ sha1 transcript"

section \<open>The P_hash of RFC 2246\<close>

primrec chain_a :: "hash_alg \<Rightarrow> bytes \<Rightarrow> bytes \<Rightarrow> nat \<Rightarrow> bytes" where
  "chain_a h secret seed 0 = seed"
| "chain_a h secret seed (Suc i) = hmac h secret (chain_a h secret seed i)"

definition p_hash_stream :: "hash_alg \<Rightarrow> bytes \<Rightarrow> bytes \<Rightarrow> nat \<Rightarrow> bytes" where
  "p_hash_stream h secret seed k =
     concat (map (\<lambda>i. hmac h secret (chain_a h secret seed (Suc i) @ seed)) [0..<k])"

lemma length_p_hash_stream [simp, lens]:
  "length (p_hash_stream h secret seed k) = k * digest_size h"
  by (induction k) (simp_all add: p_hash_stream_def)

lemma p_hash_stream_Suc:
  "p_hash_stream h secret seed (Suc k) =
   p_hash_stream h secret seed k @ hmac h secret (chain_a h secret seed (Suc k) @ seed)"
  by (simp add: p_hash_stream_def)

lemma p_hash_stream_take:
  "k \<le> m \<Longrightarrow> take (k * digest_size h) (p_hash_stream h secret seed m) = p_hash_stream h secret seed k"
proof (induction m)
  case (Suc m)
  then show ?case
    by (cases "k = Suc m") (simp_all add: p_hash_stream_Suc del: chain_a.simps)
qed (simp add: p_hash_stream_def)

lemma p_hash_loop_stream:
  "\<exists>m \<ge> k. p_hash_loop h secret seed n (chain_a h secret seed (Suc k)) (p_hash_stream h secret seed k) =
     p_hash_stream h secret seed m \<and> n \<le> m * digest_size h"
proof (induction "n - k * digest_size h" arbitrary: k rule: less_induct)
  case less
  show ?case
  proof (cases "k * digest_size h < n")
    case True
    then have "n - Suc k * digest_size h < n - k * digest_size h" by (simp add: diff_less_mono2)
    from less [OF this] obtain m where "Suc k \<le> m"
      "p_hash_loop h secret seed n (chain_a h secret seed (Suc (Suc k))) (p_hash_stream h secret seed (Suc k)) =
       p_hash_stream h secret seed m" "n \<le> m * digest_size h" by blast
    with True show ?thesis
      by (intro exI [of _ m])
         (simp add: p_hash_stream_Suc p_hash_loop.simps [of h secret seed n _ "p_hash_stream h secret seed k"])
  next
    case False
    then show ?thesis
      by (intro exI [of _ k]) (simp add: p_hash_loop.simps [of h secret seed n _ "p_hash_stream h secret seed k"])
  qed
qed

lemma p_hash_stream_prefix:
  assumes "n \<le> k * digest_size h" and "n \<le> m * digest_size h"
  shows "take n (p_hash_stream h secret seed k) = take n (p_hash_stream h secret seed m)"
proof -
  have "take n (p_hash_stream h secret seed a) = take n (p_hash_stream h secret seed b)"
    if "a \<le> b" "n \<le> a * digest_size h" for a b
    using p_hash_stream_take [OF that(1), of h secret seed, symmetric] that(2)
    by (simp add: min_def)
  then show ?thesis using assms by (metis nle_le)
qed

lemma p_hash_take:
  assumes "n \<le> k * digest_size h"
  shows "p_hash h secret seed n = take n (p_hash_stream h secret seed k)"
proof -
  have "p_hash_stream h secret seed 0 = []" by (simp add: p_hash_stream_def)
  with p_hash_loop_stream [of 0 h secret seed n] obtain m
    where "p_hash_loop h secret seed n (hmac h secret seed) [] = p_hash_stream h secret seed m"
      and "n \<le> m * digest_size h" by auto
  with p_hash_stream_prefix [OF assms] show ?thesis by (simp add: p_hash_def)
qed

lemma length_p_hash [simp, lens]: "length (p_hash h secret seed n) = n"
proof -
  have n: "n \<le> n * digest_size h" by (cases h) simp_all
  show ?thesis unfolding p_hash_take [OF n] using n by simp
qed

lemma length_prf10 [simp, lens]: "length (prf10 secret label seed n) = n"
  by (simp add: prf10_def Let_def)

lemma length_finished_hash [simp, lens]: "length (finished_hash t) = 36"
  by (simp add: finished_hash_def)

lemma p_hash_mono: "m \<le> n \<Longrightarrow> take m (p_hash h secret seed n) = p_hash h secret seed m"
proof -
  assume m: "m \<le> n"
  have n: "n \<le> n * digest_size h" by (cases h) simp_all
  have "p_hash h secret seed m = take m (p_hash_stream h secret seed n)"
    by (intro p_hash_take) (rule order_trans [OF m n])
  with m show ?thesis unfolding p_hash_take [OF n] by (simp add: min_def)
qed

section \<open>Properties\<close>

text \<open>C39. The loop of \<open>pHash\<close> ends and computes the P_hash of RFC 2246: the first n bytes of
  HMAC(A(1) + seed) + HMAC(A(2) + seed) + ..., for every n, with as many terms as needed.\<close>

theorem p_hash_rfc2246:
  "length (p_hash h secret seed n) = n \<and>
   p_hash h secret seed n = take n (p_hash_stream h secret seed ((n + digest_size h - 1) div digest_size h))"
proof -
  have "n \<le> (n + digest_size h - 1) div digest_size h * digest_size h"
  proof -
    have "0 < d \<Longrightarrow> n \<le> (n + d - 1) div d * d" for d :: nat
      using div_mult_mod_eq [of "n + d - 1" d] mod_less_divisor [of d "n + d - 1"] by linarith
    then show ?thesis by simp
  qed
  then show ?thesis using p_hash_take by simp
qed

end
