(* ===== verification/TlsRecord.thy ===== *)
theory TlsRecord
  imports Cbc Prf
begin

text \<open>
  tls10.go, the record layer: the connection state, reading and writing one record, and
  the record protection (HMAC-SHA1, padding, triple DES in CBC mode with the last
  ciphertext block as the next IV).  The locale \<open>record_channel\<close> is the contract of the
  layer towards the handshake and the HTTP side: what is put on one end comes out of the
  other, in order.
\<close>

section \<open>The connection\<close>

text \<open>
  \<open>tls10Conn\<close>.  The network side is explicit: \<open>conn_in\<close> are the bytes the client will
  have sent and \<open>conn_end\<close> the error of a read past them, \<open>conn_writes\<close> the results of
  the coming writes (\<open>None\<close>: success, also once the list is used up) and \<open>conn_sent\<close> the
  records written so far.  A nil \<open>cipher.Block\<close> is \<open>None\<close>.
\<close>

record tls10_conn =
  conn_remote :: string
  conn_in :: bytes
  conn_end :: go_error
  conn_writes :: "go_error option list"
  conn_sent :: "bytes list"
  transcript :: bytes
  hello_info :: string
  hello_specs :: string
  cert_info :: string
  read_active :: bool
  write_active :: bool
  read_seq :: "64 word"
  write_seq :: "64 word"
  read_cipher :: "cipher option"
  write_cipher :: "cipher option"
  read_iv :: bytes
  write_iv :: bytes
  read_mac :: bytes
  write_mac :: bytes
  plain_buf :: bytes

text \<open>\<open>&tls10Conn{conn: raw, br: bufio.NewReader(raw)}\<close>\<close>

definition new_conn :: "string \<Rightarrow> bytes \<Rightarrow> go_error \<Rightarrow> go_error option list \<Rightarrow> tls10_conn" where
  "new_conn remote input end_err writes =
     \<lparr>conn_remote = remote, conn_in = input, conn_end = end_err, conn_writes = writes,
      conn_sent = [], transcript = [], hello_info = [], hello_specs = [], cert_info = [],
      read_active = False, write_active = False, read_seq = 0, write_seq = 0,
      read_cipher = None, write_cipher = None, read_iv = [], write_iv = [],
      read_mac = [], write_mac = [], plain_buf = []\<rparr>"

text \<open>
  A method of the connection: the state is threaded through, and what an erroring or
  panicking call did before it failed stays done.
\<close>

type_synonym 'a tls = "tls10_conn \<Rightarrow> 'a outcome \<times> tls10_conn"

definition ret :: "'a \<Rightarrow> 'a tls" where
  "ret x c = (Ok x, c)"

definition throw :: "go_error \<Rightarrow> 'a tls" where
  "throw e c = (Err e, c)"

definition modify :: "(tls10_conn \<Rightarrow> tls10_conn) \<Rightarrow> unit tls" where
  "modify f c = (Ok (), f c)"

text \<open>A call that does not touch the connection: a slice expression, a block-mode call.\<close>

definition lift :: "'a outcome \<Rightarrow> 'a tls" where
  "lift m c = (m, c)"

definition tbind :: "'a tls \<Rightarrow> ('a \<Rightarrow> 'b tls) \<Rightarrow> 'b tls" where
  "tbind m f c =
     (case m c of (Ok x, c1) \<Rightarrow> f x c1 | (Err e, c1) \<Rightarrow> (Err e, c1) | (Panic, c1) \<Rightarrow> (Panic, c1))"

lemma tbind_simps [simp]:
  "tbind (ret x) f = f x" "tbind (throw e) f' = throw e"
  "tbind (modify g) h c = h () (g c)"
  by (simp_all add: fun_eq_iff tbind_def ret_def throw_def modify_def)

lemma lift_simps [simp]:
  "lift (Ok x) = ret x" "lift (Err e) = throw e" "tbind (lift Panic) f = lift Panic"
  by (simp_all add: fun_eq_iff lift_def tbind_def ret_def throw_def)

lemma tbind_Ok:
  "tbind m f c = (Ok y, c') \<longleftrightarrow> (\<exists>x c1. m c = (Ok x, c1) \<and> f x c1 = (Ok y, c'))"
  by (auto simp: tbind_def split: prod.splits outcome.splits)

lemma tbind_OkI: "m c = (Ok x, c1) \<Longrightarrow> tbind m f c = f x c1"
  by (simp add: tbind_def)

lemma tbind_fst_Panic:
  "fst (tbind m f c) = Panic \<longleftrightarrow>
   fst (m c) = Panic \<or> (\<exists>x c1. m c = (Ok x, c1) \<and> fst (f x c1) = Panic)"
  by (auto simp: tbind_def split: prod.splits outcome.splits)

text \<open>Every state a computation can end in satisfies \<open>Q\<close>: the induction scheme of the invariants.\<close>

definition keeps :: "(tls10_conn \<Rightarrow> bool) \<Rightarrow> 'a tls \<Rightarrow> bool" where
  "keeps P m \<longleftrightarrow> (\<forall>c. P c \<longrightarrow> P (snd (m c)))"

named_theorems keeps_intros \<open>operations that keep an invariant\<close>

lemma keepsD: "keeps P m \<Longrightarrow> P c \<Longrightarrow> P (snd (m c))"
  by (simp add: keeps_def)

lemma keeps_ret [keeps_intros]: "keeps P (ret x)"
  by (simp add: keeps_def ret_def)

lemma keeps_throw [keeps_intros]: "keeps P (throw e)"
  by (simp add: keeps_def throw_def)

lemma keeps_lift [keeps_intros]: "keeps P (lift m)"
  by (simp add: keeps_def lift_def)

lemma keeps_modify [keeps_intros]: "(\<And>c. P c \<Longrightarrow> P (f c)) \<Longrightarrow> keeps P (modify f)"
  by (simp add: keeps_def modify_def)

lemma keeps_tbind [keeps_intros]: "keeps P m \<Longrightarrow> (\<And>x. keeps P (f x)) \<Longrightarrow> keeps P (tbind m f)"
proof (unfold keeps_def, intro allI impI)
  fix c assume m: "\<forall>c. P c \<longrightarrow> P (snd (m c))" and f: "\<And>x. \<forall>c. P c \<longrightarrow> P (snd (f x c))"
    and "P c"
  then have "P (snd (m c))" by blast
  with f show "P (snd (tbind m f c))"
    by (cases "m c"; cases "fst (m c)") (simp_all add: tbind_def)
qed

lemma keeps_cond [keeps_intros]:
  "keeps P m \<Longrightarrow> keeps P n \<Longrightarrow> keeps P (if b then m else n)"
  by simp

lemma keeps_if [keeps_intros]:
  "keeps P m \<Longrightarrow> keeps P n \<Longrightarrow> keeps P (\<lambda>c. if b c then m c else n c)"
  by (simp add: keeps_def)

lemma keeps_prod [keeps_intros]:
  "(\<And>a b. keeps P (f a b)) \<Longrightarrow> keeps P (case x of (a, b) \<Rightarrow> f a b)"
  by (cases x) simp

section \<open>Reading and writing\<close>

definition read_full :: "nat \<Rightarrow> bytes tls" where
  "read_full n c =
     (if n \<le> length (conn_in c) then
        (Ok (take n (conn_in c)), c\<lparr>conn_in := drop n (conn_in c)\<rparr>)
      else if conn_in c = [] then (Err (conn_end c), c)
      else (Err (if conn_end c = EOF then UnexpectedEOF else conn_end c), c\<lparr>conn_in := []\<rparr>))"

definition conn_write :: "bytes \<Rightarrow> unit tls" where
  "conn_write b c =
     (case conn_writes c of
        Some e # ws \<Rightarrow> (Err e, c\<lparr>conn_writes := ws\<rparr>)
      | ws \<Rightarrow> (Ok (), c\<lparr>conn_writes := tl ws, conn_sent := conn_sent c @ [b]\<rparr>))"

definition ctChangeCipherSpec :: byte where "ctChangeCipherSpec = 20"
definition ctAlert :: byte where "ctAlert = 21"
definition ctHandshake :: byte where "ctHandshake = 22"
definition ctApplicationData :: byte where "ctApplicationData = 23"

definition macLen :: nat where "macLen = 20"
definition keyLen :: nat where "keyLen = 24"
definition ivLen :: nat where "ivLen = 8"
definition blockLen :: nat where "blockLen = 8"
definition maxPlaintext :: nat where "maxPlaintext = 2 ^ 14"

lemmas record_sizes = macLen_def keyLen_def ivLen_def blockLen_def

definition tls10Version :: bytes where "tls10Version = [0x03, 0x01]"

definition record_mac :: "bytes \<Rightarrow> 64 word \<Rightarrow> byte \<Rightarrow> bytes \<Rightarrow> bytes" where
  "record_mac key sq content_type content =
     hmac SHA1 key (put64 sq @ [content_type] @ tls10Version @ put16 (length content) @ content)"

lemma length_record_mac [simp, lens]: "length (record_mac key sq t content) = 20"
  by (simp add: record_mac_def)

definition decrypt :: "byte \<Rightarrow> bytes \<Rightarrow> bytes tls" where
  "decrypt content_type frag c =
     (if length frag < blockLen \<or> length frag mod blockLen \<noteq> 0
      then (Err (NewErr ''tls: bad CBC record length''), c)
      else case read_cipher c of None \<Rightarrow> (Panic, c) | Some k \<Rightarrow>
        tbind (lift (crypt_blocks (cbc_decrypt (tdes_decrypt k)) (read_iv c) frag)) (\<lambda>plain.
        tbind (lift (go_from (int (length frag) - int blockLen) frag)) (\<lambda>iv.
        tbind (modify (\<lambda>c. c\<lparr>read_iv := iv\<rparr>)) (\<lambda>_.
        tbind (lift (go_index (int (length plain) - 1) plain)) (\<lambda>b.
        let padLen = int (unat b) + 1 in
        if padLen > int (length plain) - int macLen
        then throw (NewErr ''tls: bad padding'')
        else tbind (lift (go_upto (int (length plain) - padLen) plain)) (\<lambda>rec.
        if length rec < macLen
        then throw (NewErr ''tls: record shorter than MAC'')
        else tbind (lift (go_upto (int (length rec) - int macLen) rec)) (\<lambda>content.
        tbind (lift (go_from (int (length rec) - int macLen) rec)) (\<lambda>gotMAC c1.
        if gotMAC \<noteq> record_mac (read_mac c1) (read_seq c1) content_type content
        then (Err (NewErr ''tls: bad record MAC''), c1)
        else (Ok content, c1\<lparr>read_seq := read_seq c1 + 1\<rparr>)))))))) c)"

definition read_record :: "(byte \<times> bytes) tls" where
  "read_record =
     tbind (read_full 5) (\<lambda>hdr.
     let len = be16 hdr 3 in
     if len > 2 ^ 14 + 2048 then throw (NewErr ''tls: record too large'')
     else tbind (read_full len) (\<lambda>frag c.
       if \<not> read_active c then ret (hdr ! 0, frag) c
       else tbind (decrypt (hdr ! 0) frag) (\<lambda>content. ret (hdr ! 0, content)) c))"

text \<open>The record that \<open>writeRecord\<close> puts together, before it is written.\<close>

definition seal_payload :: "byte \<Rightarrow> bytes \<Rightarrow> bytes tls" where
  "seal_payload content_type content c =
     (if \<not> write_active c then (Ok content, c)
      else
        let mac = record_mac (write_mac c) (write_seq c) content_type content;
            plain0 = content @ mac;
            padLen0 = blockLen - length plain0 mod blockLen;
            padLen = (if padLen0 = 0 then blockLen else padLen0);
            plain = plain0 @ replicate padLen (of_nat (padLen - 1))
        in case write_cipher c of None \<Rightarrow> (Panic, c) | Some k \<Rightarrow>
          tbind (lift (crypt_blocks (cbc_encrypt (tdes_encrypt k)) (write_iv c) plain)) (\<lambda>payload.
          tbind (lift (go_from (int (length payload) - int blockLen) payload)) (\<lambda>iv.
          tbind (modify (\<lambda>c. c\<lparr>write_iv := iv, write_seq := write_seq c + 1\<rparr>)) (\<lambda>_.
          ret payload))) c)"

text \<open>
  None of the slices of \<open>decrypt\<close> and \<open>seal_payload\<close> is out of range: each is behind the
  length check or the padding check that protects it, so the two are the following
  functions without run-time checks.
\<close>

lemma decrypt_eq:
  "decrypt content_type frag c =
     (if length frag < blockLen \<or> length frag mod blockLen \<noteq> 0
      then (Err (NewErr ''tls: bad CBC record length''), c)
      else case read_cipher c of None \<Rightarrow> (Panic, c) | Some k \<Rightarrow>
        case crypt_blocks (cbc_decrypt (tdes_decrypt k)) (read_iv c) frag of
          Err e \<Rightarrow> (Err e, c)
        | Panic \<Rightarrow> (Panic, c)
        | Ok plain \<Rightarrow>
            let c1 = c\<lparr>read_iv := drop (length frag - blockLen) frag\<rparr>;
                padLen = unat (last plain) + 1
            in if int padLen > int (length plain) - int macLen
               then (Err (NewErr ''tls: bad padding''), c1)
               else let rec = take (length plain - padLen) plain
               in if length rec < macLen
               then (Err (NewErr ''tls: record shorter than MAC''), c1)
               else let content = take (length rec - macLen) rec;
                        gotMAC = drop (length rec - macLen) rec;
                        wantMAC = record_mac (read_mac c1) (read_seq c1) content_type content
               in if gotMAC \<noteq> wantMAC then (Err (NewErr ''tls: bad record MAC''), c1)
               else (Ok content, c1\<lparr>read_seq := read_seq c1 + 1\<rparr>))"
proof (cases "length frag < blockLen \<or> length frag mod blockLen \<noteq> 0 \<or> read_cipher c = None \<or>
    length (read_iv c) \<noteq> 8")
  case True
  then show ?thesis
    by (auto simp: decrypt_def crypt_blocks_def lift_def tbind_def split: option.split)
next
  case False
  then obtain k where k: "read_cipher c = Some k" and iv: "length (read_iv c) = 8"
    and l: "8 \<le> length frag" "length frag mod 8 = 0" by (auto simp: record_sizes)
  define plain where "plain = cbc_decrypt (tdes_decrypt k) (read_iv c) frag"
  have cb: "crypt_blocks (cbc_decrypt (tdes_decrypt k)) (read_iv c) frag = Ok plain"
    using l iv by (simp add: crypt_blocks_def plain_def)
  have lp: "length plain = length frag" unfolding plain_def by (rule tdes.cbc_round_trip_rev(2) [OF iv l(2)])
  have f: "go_from (int (length frag) - int blockLen) frag = Ok (drop (length frag - blockLen) frag)"
    using l go_from_Ok [of "length frag - blockLen" frag] by (simp add: record_sizes of_nat_diff)
  have i: "go_index (int (length plain) - 1) plain = Ok (last plain)"
  proof -
    have "plain \<noteq> []" using l lp by auto
    then show ?thesis
      using go_index_Ok [of "length plain - 1" plain]
      by (simp add: last_conv_nth of_nat_diff Suc_le_eq)
  qed
  define padLen where "padLen = unat (last plain) + 1"
  have ip: "int (unat (last plain)) + 1 = int padLen" by (simp add: padLen_def)
  have gd: "(length frag < blockLen \<or> length frag mod blockLen \<noteq> 0) = False"
    using l by (simp add: record_sizes)
  show ?thesis
  proof (cases "int padLen > int (length plain) - int macLen")
    case True
    then show ?thesis
      unfolding decrypt_def gd if_False k option.case cb lift_simps tbind_simps f i Let_def ip
        outcome.case padLen_def [symmetric] by (simp add: throw_def)
  next
    case F: False
    define rec where "rec = take (length plain - padLen) plain"
    have r: "go_upto (int (length plain) - int padLen) plain = Ok rec"
      using F go_upto_Ok [of "length plain - padLen" plain]
      by (simp add: rec_def record_sizes of_nat_diff)
    have lr: "\<not> length rec < macLen" using F by (simp add: rec_def record_sizes)
    have s: "go_upto (int (length rec) - int macLen) rec = Ok (take (length rec - macLen) rec)"
      "go_from (int (length rec) - int macLen) rec = Ok (drop (length rec - macLen) rec)"
      using lr go_upto_Ok [of "length rec - macLen" rec] go_from_Ok [of "length rec - macLen" rec]
      by (simp_all add: of_nat_diff)
    show ?thesis
      unfolding decrypt_def gd if_False k option.case cb lift_simps tbind_simps f i Let_def ip
        outcome.case padLen_def [symmetric] r rec_def [symmetric] if_not_P [OF F] if_not_P [OF lr] s
      by simp
  qed
qed

lemma seal_payload_eq:
  "seal_payload content_type content c =
     (if \<not> write_active c then (Ok content, c)
      else
        let mac = record_mac (write_mac c) (write_seq c) content_type content;
            plain0 = content @ mac;
            padLen0 = blockLen - length plain0 mod blockLen;
            padLen = (if padLen0 = 0 then blockLen else padLen0);
            plain = plain0 @ replicate padLen (of_nat (padLen - 1))
        in case write_cipher c of None \<Rightarrow> (Panic, c) | Some k \<Rightarrow>
          case crypt_blocks (cbc_encrypt (tdes_encrypt k)) (write_iv c) plain of
            Err e \<Rightarrow> (Err e, c)
          | Panic \<Rightarrow> (Panic, c)
          | Ok payload \<Rightarrow>
              (Ok payload, c\<lparr>write_iv := drop (length payload - blockLen) payload,
                             write_seq := write_seq c + 1\<rparr>))"
proof -
  have e: "tbind (lift (crypt_blocks (cbc_encrypt (tdes_encrypt k)) (write_iv c) (content @ record_mac m q t content @ r)))
      (\<lambda>payload. tbind (lift (go_from (int (length payload) - int blockLen) payload)) (\<lambda>iv.
       tbind (modify (\<lambda>c. c\<lparr>write_iv := iv, write_seq := write_seq c + 1\<rparr>)) (\<lambda>_. ret payload))) c =
    (case crypt_blocks (cbc_encrypt (tdes_encrypt k)) (write_iv c) (content @ record_mac m q t content @ r) of
       Err e \<Rightarrow> (Err e, c) | Panic \<Rightarrow> (Panic, c)
     | Ok payload \<Rightarrow> (Ok payload, c\<lparr>write_iv := drop (length payload - blockLen) payload,
                             write_seq := write_seq c + 1\<rparr>))" for k m q t r
  proof (cases "length (write_iv c) = 8 \<and> length (content @ record_mac m q t content @ r) mod 8 = 0")
    case True
    define p where "p = cbc_encrypt (tdes_encrypt k) (write_iv c) (content @ record_mac m q t content @ r)"
    have "length p = length (content @ record_mac m q t content @ r)"
      unfolding p_def using True by (intro tdes.cbc_length) simp_all
    then have "blockLen \<le> length p" by (simp add: record_sizes length_record_mac)
    then have "go_from (int (length p) - int blockLen) p = Ok (drop (length p - blockLen) p)"
      using go_from_Ok [of "length p - blockLen" p] by (simp add: of_nat_diff)
    moreover have "crypt_blocks (cbc_encrypt (tdes_encrypt k)) (write_iv c)
        (content @ record_mac m q t content @ r) = Ok p"
      using True by (simp add: crypt_blocks_def p_def)
    ultimately show ?thesis by (simp only: lift_simps tbind_simps outcome.case) (simp add: ret_def)
  next
    case False
    then have "crypt_blocks (cbc_encrypt (tdes_encrypt k)) (write_iv c)
        (content @ record_mac m q t content @ r) = Panic" by (auto simp: crypt_blocks_def)
    then show ?thesis by (simp add: lift_def)
  qed
  show ?thesis unfolding seal_payload_def Let_def append_assoc e ..
qed

definition frame :: "byte \<Rightarrow> bytes \<Rightarrow> bytes" where
  "frame content_type payload =
     [content_type] @ tls10Version @ put16 (length payload) @ payload"

definition write_record :: "byte \<Rightarrow> bytes \<Rightarrow> unit tls" where
  "write_record content_type content =
     tbind (seal_payload content_type content) (\<lambda>payload. conn_write (frame content_type payload))"

definition write_handshake :: "bytes \<Rightarrow> unit tls" where
  "write_handshake msg c =
     write_record ctHandshake msg (c\<lparr>transcript := transcript c @ msg\<rparr>)"

section \<open>The connection invariant\<close>

text \<open>
  A side that is active has a cipher and an IV of one block, which is what the block-mode
  calls need in order not to panic.
\<close>

definition conn_ok :: "tls10_conn \<Rightarrow> bool" where
  "conn_ok c \<longleftrightarrow>
     (read_active c \<longrightarrow> (\<exists>k. read_cipher c = Some k) \<and> length (read_iv c) = 8) \<and>
     (write_active c \<longrightarrow> (\<exists>k. write_cipher c = Some k) \<and> length (write_iv c) = 8)"

lemma new_conn_ok: "conn_ok (new_conn remote input end_err writes)"
  by (simp add: conn_ok_def new_conn_def)

lemma read_full_ok [keeps_intros]: "keeps conn_ok (read_full n)"
  by (simp add: keeps_def conn_ok_def read_full_def)

lemma read_full_no_panic [simp]: "fst (read_full n c) \<noteq> Panic"
  by (simp add: read_full_def)

lemma conn_write_ok [keeps_intros]: "keeps conn_ok (conn_write b)"
  by (simp add: keeps_def conn_ok_def conn_write_def split: list.split option.split)

lemma conn_write_no_panic [simp]: "fst (conn_write b c) \<noteq> Panic"
  by (simp add: conn_write_def split: list.split option.split)

lemma read_full_Ok:
  "read_full n c = (Ok b, c') \<longleftrightarrow>
   n \<le> length (conn_in c) \<and> b = take n (conn_in c) \<and> c' = c\<lparr>conn_in := drop n (conn_in c)\<rparr>"
  by (auto simp: read_full_def)

lemma decrypt_ok [keeps_intros]: "keeps conn_ok (decrypt t frag)"
  unfolding keeps_def decrypt_eq
  by (auto simp: conn_ok_def Let_def record_sizes split: option.splits outcome.splits)

lemma read_record_ok [keeps_intros]: "keeps conn_ok read_record"
  unfolding read_record_def Let_def by (intro keeps_intros)

text \<open>\<open>safe\<close>: from a state of the invariant the operation does not panic, and it keeps it.\<close>

definition safe :: "'a tls \<Rightarrow> bool" where
  "safe m \<longleftrightarrow> keeps conn_ok m \<and> (\<forall>c. conn_ok c \<longrightarrow> fst (m c) \<noteq> Panic)"

named_theorems safe_intros \<open>operations that do not panic\<close>

lemma safeD: "safe m \<Longrightarrow> conn_ok c \<Longrightarrow> fst (m c) \<noteq> Panic \<and> conn_ok (snd (m c))"
  by (simp add: safe_def keeps_def)

lemma safe_ret [safe_intros]: "safe (ret x)"
  unfolding safe_def by (simp add: keeps_intros) (simp add: ret_def)

lemma safe_throw [safe_intros]: "safe (throw e)"
  unfolding safe_def by (simp add: keeps_intros) (simp add: throw_def)

lemma safe_lift: "m \<noteq> Panic \<Longrightarrow> safe (lift m)"
  unfolding safe_def by (simp add: keeps_intros) (simp add: lift_def)

lemma safe_modify [safe_intros]: "(\<And>c. conn_ok c \<Longrightarrow> conn_ok (f c)) \<Longrightarrow> safe (modify f)"
  unfolding safe_def by (simp add: keeps_intros) (simp add: modify_def)

lemma safe_tbind [safe_intros]: "safe m \<Longrightarrow> (\<And>x. safe (f x)) \<Longrightarrow> safe (tbind m f)"
  unfolding safe_def
  by (auto intro: keeps_tbind simp: tbind_fst_Panic) (metis keepsD snd_conv)

lemma safe_cond [safe_intros]: "safe m \<Longrightarrow> safe n \<Longrightarrow> safe (if b then m else n)"
  by simp

lemma safe_prod [safe_intros]: "(\<And>a b. safe (f a b)) \<Longrightarrow> safe (case x of (a, b) \<Rightarrow> f a b)"
  by (cases x) simp

lemma safe_if [safe_intros]: "safe m \<Longrightarrow> safe n \<Longrightarrow> safe (\<lambda>c. if b c then m c else n c)"
  by (simp add: safe_def keeps_if)

lemma safe_read_full [safe_intros]: "safe (read_full n)"
  by (simp add: safe_def keeps_intros)

lemma safe_conn_write [safe_intros]: "safe (conn_write b)"
  by (simp add: safe_def keeps_intros)

lemma decrypt_cases:
  assumes "read_cipher c = Some k" and "length (read_iv c) = 8"
  obtains (bad) "fst (decrypt t frag c) = Err (NewErr ''tls: bad CBC record length'')"
      "length frag < 8 \<or> length frag mod 8 \<noteq> 0" "snd (decrypt t frag c) = c"
  | (good) plain where "plain = cbc_decrypt (tdes_decrypt k) (read_iv c) frag"
      "8 \<le> length frag" "length frag mod 8 = 0"
      "decrypt t frag c =
        (let c1 = c\<lparr>read_iv := last_block frag\<rparr>; padLen = unat (last plain) + 1;
             content = take (length plain - padLen - 20) plain
         in if length plain < padLen + 20 then (Err (NewErr ''tls: bad padding''), c1)
            else if gslice (length plain - padLen - 20) (length plain - padLen) plain \<noteq>
              record_mac (read_mac c) (read_seq c) t content
            then (Err (NewErr ''tls: bad record MAC''), c1)
            else (Ok content, c1\<lparr>read_seq := read_seq c + 1\<rparr>))"
proof (cases "length frag < 8 \<or> length frag mod 8 \<noteq> 0")
  case True
  then show ?thesis by (intro bad) (auto simp: decrypt_eq record_sizes)
next
  case False
  define plain where "plain = cbc_decrypt (tdes_decrypt k) (read_iv c) frag"
  have cb: "crypt_blocks (cbc_decrypt (tdes_decrypt k)) (read_iv c) frag = Ok plain"
    using False assms(2) by (simp add: crypt_blocks_def plain_def)
  define pad where "pad = unat (last plain) + 1"
  have i: "int pad > int (length plain) - int 20 \<longleftrightarrow> length plain < pad + 20" by linarith
  have guard: "(length frag < 8 \<or> length frag mod 8 \<noteq> 0) = False" using False by blast
  note unf = record_sizes guard assms(1) cb Let_def pad_def [symmetric] i
    if_False option.case outcome.case last_block_def [symmetric]
  show ?thesis
  proof (rule good [OF plain_def])
    show "decrypt t frag c =
        (let c1 = c\<lparr>read_iv := last_block frag\<rparr>; padLen = unat (last plain) + 1;
             content = take (length plain - padLen - 20) plain
         in if length plain < padLen + 20 then (Err (NewErr ''tls: bad padding''), c1)
            else if gslice (length plain - padLen - 20) (length plain - padLen) plain \<noteq>
              record_mac (read_mac c) (read_seq c) t content
            then (Err (NewErr ''tls: bad record MAC''), c1)
            else (Ok content, c1\<lparr>read_seq := read_seq c + 1\<rparr>))" (is "?L = ?R")
    proof (cases "length plain < pad + 20")
      case T: True
      show "?L = ?R"
        unfolding decrypt_eq unf using T by simp
    next
      case F: False
      then obtain n where n: "length plain = n + 20 + pad"
        using le_Suc_ex [of "pad + 20" "length plain"] by (auto simp: ac_simps)
      have l: "length (take (n + 20) plain) = n + 20" using n by simp
      have m: "length plain - pad = n + 20" "n + 20 - 20 = n" "(n + 20 < 20) = False"
        using n by simp_all
      have d: "drop n (take (n + 20) plain) = gslice n (n + 20) plain" "take n (take (n + 20) plain) = take n plain"
        by (simp_all add: gslice_def drop_take)
      show "?L = ?R"
        unfolding decrypt_eq unf using F by (simp only: m l d if_False) simp
    qed
  qed (use False in auto)
qed

lemma safe_decrypt:
  assumes "conn_ok c" and "read_active c"
  shows "fst (decrypt t frag c) \<noteq> Panic"
proof -
  obtain k where k: "read_cipher c = Some k" "length (read_iv c) = 8"
    using assms by (auto simp: conn_ok_def)
  show ?thesis
    using k by (cases rule: decrypt_cases [where t = t and frag = frag]) (auto simp: Let_def)
qed

lemma safe_read_record [safe_intros]: "safe read_record"
  unfolding read_record_def Let_def
proof (intro safe_tbind safe_cond safe_throw safe_read_full)
  fix hdr frag
  show "safe (\<lambda>c. if \<not> read_active c then ret (hdr ! 0, frag) c
      else tbind (decrypt (hdr ! 0) frag) (\<lambda>content. ret (hdr ! 0, content)) c)"
    unfolding safe_def
    by (auto intro!: keeps_intros simp: tbind_fst_Panic safe_decrypt) (auto simp: ret_def)
qed

section \<open>Protection and its inverse\<close>

definition padding :: "nat \<Rightarrow> bytes" where
  "padding n = (let p = 8 - n mod 8 in replicate p (of_nat (p - 1)))"

definition sealed :: "cipher \<Rightarrow> bytes \<Rightarrow> bytes \<Rightarrow> 64 word \<Rightarrow> byte \<Rightarrow> bytes \<Rightarrow> bytes" where
  "sealed k iv key sq t content =
     cbc_encrypt (tdes_encrypt k) iv
       (content @ record_mac key sq t content @ padding (length content + 20))"

lemma padding_bounds: "0 < length (padding n)" "length (padding n) \<le> 8"
  "(n + length (padding n)) mod 8 = 0"
proof -
  have l: "length (padding n) = 8 - n mod 8" by (simp add: padding_def Let_def)
  have m: "n mod 8 < 8" by simp
  show "0 < length (padding n)" "length (padding n) \<le> 8" using l m by auto
  have "n + (8 - n mod 8) = 8 * (n div 8) + 8"
    using m div_mult_mod_eq [of n 8] by linarith
  then show "(n + length (padding n)) mod 8 = 0" using l by simp
qed

lemma last_padding: "unat (last (padding n)) + 1 = length (padding n)"
proof -
  have m: "n mod 8 < 8" by simp
  then have "7 - n mod 8 < 256" by simp
  then have "unat (of_nat (7 - n mod 8) :: byte) = 7 - n mod 8"
    by (simp only: unat_of_nat_byte mod_less)
  with m show ?thesis by (simp add: padding_def Let_def)
qed

lemma length_sealed:
  assumes "length iv = 8"
  shows "length (sealed k iv key sq t content) = length content + 20 + length (padding (length content + 20))"
    and "length (sealed k iv key sq t content) mod 8 = 0"
proof -
  let ?p = "content @ record_mac key sq t content @ padding (length content + 20)"
  have m: "length ?p mod 8 = 0"
    using padding_bounds(3) [of "length content + 20"] by (simp add: ac_simps)
  have "length (sealed k iv key sq t content) = length ?p"
    unfolding sealed_def by (rule tdes.cbc_length [OF assms m])
  with m show "length (sealed k iv key sq t content) = length content + 20 + length (padding (length content + 20))"
    and "length (sealed k iv key sq t content) mod 8 = 0" by (simp_all add: ac_simps)
qed

lemma seal_payload_inactive: "\<not> write_active c \<Longrightarrow> seal_payload t content c = (Ok content, c)"
  by (simp add: seal_payload_eq)

lemma seal_payload_active:
  assumes "write_active c" and "write_cipher c = Some k" and "length (write_iv c) = 8"
  shows "seal_payload t content c =
    (Ok (sealed k (write_iv c) (write_mac c) (write_seq c) t content),
     c\<lparr>write_iv := last_block (sealed k (write_iv c) (write_mac c) (write_seq c) t content),
       write_seq := write_seq c + 1\<rparr>)"
proof -
  let ?p = "content @ record_mac (write_mac c) (write_seq c) t content @ padding (length content + 20)"
  have m: "length ?p mod 8 = 0"
    using padding_bounds(3) [of "length content + 20"] by (simp add: ac_simps)
  have n: "8 - (length content + 20) mod 8 \<noteq> 0"
    using mod_less_divisor [of 8 "length content + 20"] by linarith
  have pad: "content @ record_mac (write_mac c) (write_seq c) t content @
      replicate (8 - (length content + 20) mod 8) (of_nat (8 - (length content + 20) mod 8 - 1)) = ?p"
    by (simp add: padding_def Let_def)
  have cb: "crypt_blocks (cbc_encrypt (tdes_encrypt k)) (write_iv c) ?p =
      Ok (sealed k (write_iv c) (write_mac c) (write_seq c) t content)"
    using m assms(3) by (simp add: crypt_blocks_def sealed_def)
  have l: "length (content @ record_mac (write_mac c) (write_seq c) t content) = length content + 20"
    by simp
  show ?thesis
    unfolding seal_payload_eq record_sizes Let_def l if_not_P [OF n] append_assoc pad
    using assms cb by (simp add: last_block_def)
qed

lemma decrypt_sealed:
  assumes "read_cipher c = Some k" and "length (read_iv c) = 8"
    and frag: "frag = sealed k (read_iv c) (read_mac c) (read_seq c) t content"
  shows "decrypt t frag c = (Ok content, c\<lparr>read_iv := last_block frag, read_seq := read_seq c + 1\<rparr>)"
proof -
  define mac where "mac = record_mac (read_mac c) (read_seq c) t content"
  define pad where "pad = padding (length content + 20)"
  have ml: "length mac = 20" by (simp add: mac_def)
  have pl: "0 < length pad" using padding_bounds(1) by (simp add: pad_def)
  have m8: "length (content @ mac @ pad) mod 8 = 0"
    using padding_bounds(3) [of "length content + 20"] by (simp add: pad_def ml ac_simps)
  have fl: "8 \<le> length frag" "length frag mod 8 = 0"
    using length_sealed [OF assms(2)] frag by simp_all
  have plain: "cbc_decrypt (tdes_decrypt k) (read_iv c) frag = content @ mac @ pad"
    unfolding frag sealed_def mac_def [symmetric] pad_def [symmetric]
    by (rule tdes.cbc_round_trip [OF assms(2) m8])
  have lp: "unat (last (content @ mac @ pad)) + 1 = length pad"
    using last_padding [of "length content + 20"] pl by (simp add: pad_def)
  have g: "gslice (length content) (length content + 20) (content @ mac @ pad) = mac"
    using ml by (simp add: gslice_def)
  show ?thesis
    using assms(1,2)
  proof (cases rule: decrypt_cases [where t = t and frag = frag])
    case bad
    then show ?thesis using fl by linarith
  next
    case (good plain)
    have ll: "length (content @ mac @ pad) - length pad - 20 = length content"
      "length (content @ mac @ pad) - length pad = length content + 20"
      "(length (content @ mac @ pad) < length pad + 20) = False"
      using ml by simp_all
    show ?thesis
      unfolding good(4) Let_def good(1) plain lp ll
      using g by (simp add: mac_def)
  qed
qed

text \<open>
  What \<open>decrypt\<close> accepts: exactly the fragments an owner of the read keys can produce, up
  to the padding bytes, of which only the last one is looked at.
\<close>

lemma decrypt_accepts:
  assumes "read_cipher c = Some k" and iv: "length (read_iv c) = 8"
    and "decrypt t frag c = (Ok content, c')"
  shows "\<exists>pad. frag = cbc_encrypt (tdes_encrypt k) (read_iv c)
        (content @ record_mac (read_mac c) (read_seq c) t content @ pad)
      \<and> unat (last pad) + 1 = length pad
      \<and> c' = c\<lparr>read_iv := last_block frag, read_seq := read_seq c + 1\<rparr>"
  using assms(1,2)
proof (cases rule: decrypt_cases [where t = t and frag = frag])
  case bad
  then show ?thesis using assms(3) by simp
next
  case (good plain)
  define padLen where "padLen = unat (last plain) + 1"
  define n where "n = length plain - padLen - 20"
  define mac where "mac = gslice n (length plain - padLen) plain"
  define pad where "pad = drop (length plain - padLen) plain"
  have dec: "\<not> length plain < padLen + 20" "content = take n plain"
      "mac = record_mac (read_mac c) (read_seq c) t content"
      "c' = c\<lparr>read_iv := last_block frag, read_seq := read_seq c + 1\<rparr>"
    using assms(3) good(4)
    by (auto simp: Let_def mac_def n_def padLen_def split: if_splits)
  have len: "length plain = n + 20 + padLen" using dec(1) by (simp add: n_def)
  have "plain = content @ mac @ pad"
    using gslice_split [of n "length plain - padLen" plain] len by (simp add: dec(2) mac_def pad_def)
  moreover have "frag = cbc_encrypt (tdes_encrypt k) (read_iv c) plain"
    using tdes.cbc_round_trip_rev(1) [OF iv good(3)] by (simp add: good(1))
  moreover have "unat (last pad) + 1 = length pad"
  proof -
    have "length pad = padLen" using len by (simp add: pad_def)
    moreover have "last pad = last plain" using len padLen_def by (simp add: pad_def last_drop)
    ultimately show ?thesis by (simp add: padLen_def)
  qed
  ultimately show ?thesis using dec(3,4) by (intro exI [of _ pad]) simp
qed

section \<open>The channel\<close>

text \<open>
  Two ends in step: the writer's cipher, IV, MAC key and sequence number are the reader's.
\<close>

definition synced :: "tls10_conn \<Rightarrow> tls10_conn \<Rightarrow> bool" where
  "synced w r \<longleftrightarrow>
     write_active w = read_active r \<and>
     (write_active w \<longrightarrow>
        (\<exists>k. write_cipher w = Some k \<and> read_cipher r = Some k) \<and> length (write_iv w) = 8 \<and>
        read_iv r = write_iv w \<and> read_mac r = write_mac w \<and> read_seq r = write_seq w)"

lemma be16_frame: "be16 (take 5 (frame t p @ rest)) 3 = length p mod 65536"
  using be16_append_put16 [of "[t, 3, 1]" "length p" "[]"]
  by (simp add: frame_def tls10Version_def put16_def numeral_3_eq_3)

lemma take_frame: "take 5 (frame t p @ rest) ! 0 = t" "drop 5 (frame t p @ rest) = p @ rest"
  "5 \<le> length (frame t p @ rest)"
  by (simp_all add: frame_def tls10Version_def put16_def)

lemma read_record_frame:
  assumes "conn_in r = frame t p @ rest" and "length p \<le> 2 ^ 14 + 2048"
  shows "read_record r =
    (if \<not> read_active r then (Ok (t, p), r\<lparr>conn_in := rest\<rparr>)
     else tbind (decrypt t p) (\<lambda>content. ret (t, content)) (r\<lparr>conn_in := rest\<rparr>))"
proof -
  have h: "read_full 5 r = (Ok (take 5 (frame t p @ rest)), r\<lparr>conn_in := p @ rest\<rparr>)"
    using take_frame [of t p rest] by (simp add: read_full_def assms(1) del: drop_append take_append)
  have l: "be16 (take 5 (frame t p @ rest)) 3 = length p"
    using be16_frame [of t p rest] assms(2) by simp
  have f: "read_full (length p) (r\<lparr>conn_in := p @ rest\<rparr>) = (Ok p, r\<lparr>conn_in := rest\<rparr>)"
    by (simp add: read_full_def)
  show ?thesis
    unfolding read_record_def tbind_OkI [where m = "read_full 5", OF h] Let_def l take_frame(1)
    using assms(2) by (simp add: tbind_OkI [where m = "read_full (length p)", OF f] ret_def)
qed

lemma frame_length_bound:
  assumes "length content \<le> maxPlaintext" and "length iv = 8"
  shows "length (sealed k iv key sq t content) \<le> 2 ^ 14 + 2048"
  using length_sealed(1) [OF assms(2), of k key sq t content]
    padding_bounds(2) [of "length content + 20"] assms(1)
  by (simp add: maxPlaintext_def)

lemma record_round_trip:
  assumes "synced w r" and "length content \<le> maxPlaintext"
    and "seal_payload t content w = (Ok payload, w')"
    and "conn_in r = frame t payload @ rest"
  obtains r' where "read_record r = (Ok (t, content), r')" and "conn_in r' = rest" and "synced w' r'"
proof (cases "write_active w")
  case False
  then have "payload = content" "w' = w" "\<not> read_active r"
    using assms(1,3) by (auto simp: seal_payload_inactive synced_def)
  with False show ?thesis
    using that [of "r\<lparr>conn_in := rest\<rparr>"] assms(2) read_record_frame [OF assms(4)]
    by (simp add: maxPlaintext_def synced_def)
next
  case True
  then obtain k where k: "write_cipher w = Some k" "read_cipher r = Some k" "length (write_iv w) = 8"
      "read_iv r = write_iv w" "read_mac r = write_mac w" "read_seq r = write_seq w" "read_active r"
    using assms(1) by (auto simp: synced_def)
  have p: "payload = sealed k (write_iv w) (write_mac w) (write_seq w) t content"
    and w': "w' = w\<lparr>write_iv := last_block payload, write_seq := write_seq w + 1\<rparr>"
    using seal_payload_active [OF True k(1,3), of t content] assms(3) by simp_all
  define r1 where "r1 = r\<lparr>conn_in := rest\<rparr>"
  have "decrypt t payload r1 = (Ok content, r1\<lparr>read_iv := last_block payload, read_seq := read_seq r1 + 1\<rparr>)"
    by (rule decrypt_sealed [of _ k]) (simp_all add: r1_def k p)
  moreover have "length payload \<le> 2 ^ 14 + 2048"
    unfolding p by (rule frame_length_bound [OF assms(2) k(3)])
  ultimately have rr: "read_record r =
      (Ok (t, content), r1\<lparr>read_iv := last_block payload, read_seq := read_seq r1 + 1\<rparr>)"
    using read_record_frame [OF assms(4)] k(7) by (simp add: tbind_def ret_def r1_def)
  have "length (last_block payload) = 8"
    using length_sealed [OF k(3), of k "write_mac w" "write_seq w" t content] by (simp add: last_block_def p)
  then show ?thesis
    using that [OF rr] True k by (simp add: r1_def synced_def w')
qed

text \<open>
  The contract of the layer, over any two ends: what is put in at one end is got at the
  other, and the ends stay in step.  \<open>put_all\<close> and \<open>get_all\<close> repeat the calls.
\<close>

type_synonym 'w put = "byte \<Rightarrow> bytes \<Rightarrow> 'w \<Rightarrow> (bytes \<times> 'w) option"
type_synonym 'r get = "bytes \<Rightarrow> 'r \<Rightarrow> ((byte \<times> bytes) \<times> bytes \<times> 'r) option"

fun put_all :: "'w put \<Rightarrow> (byte \<times> bytes) list \<Rightarrow> 'w \<Rightarrow> (bytes list \<times> 'w) option" where
  "put_all put [] w = Some ([], w)"
| "put_all put ((t, m) # ms) w =
     (case put t m w of None \<Rightarrow> None
      | Some (b, w1) \<Rightarrow>
          (case put_all put ms w1 of None \<Rightarrow> None | Some (bs, w2) \<Rightarrow> Some (b # bs, w2)))"

fun get_all :: "'r get \<Rightarrow> nat \<Rightarrow> bytes \<Rightarrow> 'r \<Rightarrow> ((byte \<times> bytes) list \<times> bytes \<times> 'r) option" where
  "get_all get 0 b r = Some ([], b, r)"
| "get_all get (Suc n) b r =
     (case get b r of None \<Rightarrow> None
      | Some (x, b1, r1) \<Rightarrow>
          (case get_all get n b1 r1 of None \<Rightarrow> None | Some (xs, b2, r2) \<Rightarrow> Some (x # xs, b2, r2)))"

locale record_channel =
  fixes put :: "'w put" and get :: "'r get"
    and in_step :: "'w \<Rightarrow> 'r \<Rightarrow> bool" and fits :: "bytes \<Rightarrow> bool"
  assumes deliver: "in_step w r \<Longrightarrow> fits m \<Longrightarrow>
    \<exists>b w'. put t m w = Some (b, w') \<and>
      (\<forall>rest. \<exists>r'. get (b @ rest) r = Some ((t, m), rest, r') \<and> in_step w' r')"
begin

lemma deliver_all:
  "in_step w r \<Longrightarrow> list_all (\<lambda>(t, m). fits m) ms \<Longrightarrow>
   \<exists>bs w'. put_all put ms w = Some (bs, w') \<and> length bs = length ms \<and>
     (\<forall>rest. \<exists>r'. get_all get (length ms) (concat bs @ rest) r = Some (ms, rest, r') \<and> in_step w' r')"
proof (induction ms arbitrary: w r)
  case (Cons a ms)
  obtain t m where a: "a = (t, m)" by (cases a)
  with Cons.prems have "fits m" and ms: "list_all (\<lambda>(t, m). fits m) ms" by simp_all
  with deliver [OF Cons.prems(1), of m t] obtain b w1
    where put: "put t m w = Some (b, w1)"
      and get: "\<And>rest. \<exists>r1. get (b @ rest) r = Some ((t, m), rest, r1) \<and> in_step w1 r1" by blast
  from get [of "[]"] obtain r0 where "in_step w1 r0" by blast
  from Cons.IH [OF this ms] obtain bs w2 where put2: "put_all put ms w1 = Some (bs, w2)" by blast
  have "\<exists>r'. get_all get (length (a # ms)) (concat (b # bs) @ rest) r = Some (a # ms, rest, r') \<and> in_step w2 r'"
    for rest
  proof -
    from get [of "concat bs @ rest"] obtain r1
      where r1: "get (b @ concat bs @ rest) r = Some ((t, m), concat bs @ rest, r1)" "in_step w1 r1"
      by blast
    from Cons.IH [OF r1(2) ms] put2 obtain r2
      where "get_all get (length ms) (concat bs @ rest) r1 = Some (ms, rest, r2)" "in_step w2 r2"
      by auto
    with r1 show ?thesis by (simp add: a)
  qed
  moreover have "length bs = length ms"
    using Cons.IH [OF \<open>in_step w1 r0\<close> ms] put2 by auto
  ultimately show ?case
    using put put2 by (intro exI [of _ "b # bs"] exI [of _ w2]) (simp add: a)
qed simp

end

definition put_record :: "tls10_conn put" where
  "put_record t m w =
     (case seal_payload t m w of (Ok p, w') \<Rightarrow> Some (frame t p, w') | _ \<Rightarrow> None)"

definition get_record :: "tls10_conn get" where
  "get_record b r =
     (case read_record (r\<lparr>conn_in := b\<rparr>) of (Ok x, r') \<Rightarrow> Some (x, conn_in r', r') | _ \<Rightarrow> None)"

lemma seal_payload_synced:
  assumes "synced w r"
  obtains p w' where "seal_payload t m w = (Ok p, w')"
proof (cases "write_active w")
  case True
  then obtain k where "write_cipher w = Some k" "length (write_iv w) = 8"
    using assms by (auto simp: synced_def)
  from seal_payload_active [OF True this] show ?thesis by (rule that)
qed (use that seal_payload_inactive in blast)

interpretation tls_channel: record_channel put_record get_record synced "\<lambda>m. length m \<le> maxPlaintext"
proof unfold_locales
  fix w r and m :: bytes and t
  assume s: "synced w r" and m: "length m \<le> maxPlaintext"
  obtain p w' where p: "seal_payload t m w = (Ok p, w')" by (rule seal_payload_synced [OF s])
  have "\<exists>r'. get_record (frame t p @ rest) r = Some ((t, m), rest, r') \<and> synced w' r'" for rest
  proof -
    have "synced w (r\<lparr>conn_in := frame t p @ rest\<rparr>)" using s by (simp add: synced_def)
    from record_round_trip [OF this m p, of rest] obtain r'
      where "read_record (r\<lparr>conn_in := frame t p @ rest\<rparr>) = (Ok (t, m), r')"
        "conn_in r' = rest" "synced w' r'" by auto
    then show ?thesis by (simp add: get_record_def)
  qed
  then show "\<exists>b w'. put_record t m w = Some (b, w') \<and>
      (\<forall>rest. \<exists>r'. get_record (b @ rest) r = Some ((t, m), rest, r') \<and> synced w' r')"
    by (intro exI [of _ "frame t p"] exI [of _ w']) (simp add: put_record_def p)
qed

lemma safe_seal_payload [safe_intros]: "safe (seal_payload t m)"
proof -
  have "fst (seal_payload t m c) \<noteq> Panic \<and> conn_ok (snd (seal_payload t m c))" if "conn_ok c" for c
  proof (cases "write_active c")
    case True
    with that obtain k where k: "write_cipher c = Some k" "length (write_iv c) = 8"
      by (auto simp: conn_ok_def)
    have "8 \<le> length (sealed k (write_iv c) (write_mac c) (write_seq c) t m)"
      using length_sealed(1) [OF k(2)] by simp
    with seal_payload_active [OF True k] that k show ?thesis
      by (simp add: conn_ok_def last_block_def)
  qed (use that in \<open>simp add: seal_payload_inactive\<close>)
  then show ?thesis by (simp add: safe_def keeps_def)
qed

lemma safe_write_record [safe_intros]: "safe (write_record t m)"
  unfolding write_record_def by (intro safe_intros)

lemma write_handshake_bind:
  "write_handshake m = tbind (modify (\<lambda>c. c\<lparr>transcript := transcript c @ m\<rparr>))
     (\<lambda>_. write_record ctHandshake m)"
  by (simp add: fun_eq_iff write_handshake_def)

lemma safe_write_handshake [safe_intros]: "safe (write_handshake m)"
  unfolding write_handshake_bind by (intro safe_intros) (simp add: conn_ok_def)

section \<open>Properties\<close>

text \<open>C40. Reading and writing a record never panics on a connection whose active sides have
  their cipher and IV, and leaves such a connection behind, also when the call fails.\<close>

theorem record_layer_total:
  assumes "conn_ok c"
  shows "fst (read_record c) \<noteq> Panic \<and> conn_ok (snd (read_record c)) \<and>
    fst (write_record t m c) \<noteq> Panic \<and> conn_ok (snd (write_record t m c)) \<and>
    fst (write_handshake m c) \<noteq> Panic \<and> conn_ok (snd (write_handshake m c))"
  using safeD [OF safe_read_record assms] safeD [OF safe_write_record assms]
    safeD [OF safe_write_handshake assms] by blast

definition demo_conn :: tls10_conn where
  "demo_conn = (new_conn ''10.0.0.2:1024'' [] EOF [])
     \<lparr>read_active := True, write_active := True, read_cipher := Some (replicate 24 5),
      write_cipher := Some (replicate 24 5), read_iv := replicate 8 1, write_iv := replicate 8 1,
      read_mac := replicate 20 9, write_mac := replicate 20 9\<rparr>"

theorem record_layer_total_witness:
  "fst (read_record demo_conn) \<noteq> Panic \<and> conn_ok (snd (read_record demo_conn)) \<and>
    fst (write_record 23 [1] demo_conn) \<noteq> Panic \<and> conn_ok (snd (write_record 23 [1] demo_conn)) \<and>
    fst (write_handshake [1] demo_conn) \<noteq> Panic \<and> conn_ok (snd (write_handshake [1] demo_conn))"
  by (rule record_layer_total) (simp add: demo_conn_def conn_ok_def)

text \<open>C12. Records written on one end of a connection are read on the other end with their
  types and contents, in order and with nothing left over, whether the two ends are still in
  the clear or share keys, IV and sequence number; and the ends stay in step.\<close>

theorem records_in_order:
  assumes "synced w r" and "list_all (\<lambda>(t, m). length m \<le> maxPlaintext) ms"
  shows "\<exists>bs w'. put_all put_record ms w = Some (bs, w') \<and> length bs = length ms \<and>
     (\<forall>rest. \<exists>r'. get_all get_record (length ms) (concat bs @ rest) r = Some (ms, rest, r') \<and>
        synced w' r')"
  by (rule tls_channel.deliver_all [OF assms])

theorem records_in_order_witness:
  "\<exists>bs w'. put_all put_record [(23, [1, 2, 3]), (21, [1, 0])] demo_conn = Some (bs, w') \<and>
     length bs = length [(23 :: byte, [1, 2, 3 :: byte]), (21, [1, 0])] \<and>
     (\<forall>rest. \<exists>r'. get_all get_record (length [(23 :: byte, [1, 2, 3 :: byte]), (21, [1, 0])])
        (concat bs @ rest) demo_conn = Some ([(23, [1, 2, 3]), (21, [1, 0])], rest, r') \<and>
        synced w' r')"
  by (rule records_in_order) (simp_all add: demo_conn_def new_conn_def synced_def maxPlaintext_def)

text \<open>C11. On an active connection every record that is accepted is the encryption, under the
  read key and the chained IV, of its content followed by the MAC of exactly this content,
  type and sequence number (and padding); the IV then chains and the sequence number moves.\<close>

theorem read_record_authentic:
  assumes "conn_ok c" and "read_active c" and "read_record c = (Ok (t, content), c')"
  shows "\<exists>hdr frag rest k pad. conn_in c = hdr @ frag @ rest \<and> length hdr = 5 \<and> hdr ! 0 = t \<and>
    length frag = be16 hdr 3 \<and> length frag \<le> 2 ^ 14 + 2048 \<and> read_cipher c = Some k \<and>
    frag = cbc_encrypt (tdes_encrypt k) (read_iv c)
      (content @ record_mac (read_mac c) (read_seq c) t content @ pad) \<and>
    c' = c\<lparr>conn_in := rest, read_iv := last_block frag, read_seq := read_seq c + 1\<rparr>"
proof -
  obtain k where k: "read_cipher c = Some k" "length (read_iv c) = 8"
    using assms(1,2) by (auto simp: conn_ok_def)
  define hdr where "hdr = take 5 (conn_in c)"
  define n where "n = be16 hdr 3"
  define frag where "frag = take n (drop 5 (conn_in c))"
  define c1 where "c1 = c\<lparr>conn_in := drop n (drop 5 (conn_in c))\<rparr>"
  have h: "5 \<le> length (conn_in c)" "n \<le> 2 ^ 14 + 2048" "n \<le> length (drop 5 (conn_in c))"
    and d: "decrypt (hdr ! 0) frag c1 = (Ok content, c')" "hdr ! 0 = t"
    using assms(2,3)
    by (auto simp: read_record_def tbind_Ok read_full_Ok Let_def hdr_def n_def frag_def c1_def
        ret_def throw_def split: if_splits)
  from decrypt_accepts [of c1 k "hdr ! 0" frag content c'] k d obtain pad
    where "frag = cbc_encrypt (tdes_encrypt k) (read_iv c)
        (content @ record_mac (read_mac c) (read_seq c) t content @ pad)"
      and "c' = c1\<lparr>read_iv := last_block frag, read_seq := read_seq c + 1\<rparr>"
    by (auto simp: c1_def)
  moreover have "conn_in c = hdr @ frag @ drop n (drop 5 (conn_in c))"
    unfolding hdr_def frag_def append_take_drop_id ..
  moreover have "length hdr = 5" "length frag = n" using h by (simp_all add: hdr_def frag_def)
  ultimately show ?thesis
    using k(1) d(2) h(2)
    by (intro exI [of _ hdr] exI [of _ frag] exI [of _ "drop n (drop 5 (conn_in c))"]
        exI [of _ k] exI [of _ pad]) (simp add: c1_def n_def)
qed

definition demo_record :: bytes where
  "demo_record = sealed (replicate 24 5) (replicate 8 1) (replicate 20 9) 0 23 [104, 105]"

lemma demo_record_read:
  "read_record (demo_conn\<lparr>conn_in := frame 23 demo_record\<rparr>) =
   (Ok (23, [104, 105]), demo_conn\<lparr>read_iv := last_block demo_record, read_seq := 1\<rparr>)"
proof -
  let ?c = "demo_conn\<lparr>conn_in := frame 23 demo_record\<rparr>"
  have e: "?c\<lparr>conn_in := []\<rparr> = demo_conn" "read_active ?c" "read_seq demo_conn = 0"
    by (simp_all add: demo_conn_def new_conn_def)
  have l: "length demo_record \<le> 2 ^ 14 + 2048"
    unfolding demo_record_def by (rule frame_length_bound) (simp_all add: maxPlaintext_def)
  have d: "decrypt 23 demo_record demo_conn =
      (Ok [104, 105], demo_conn\<lparr>read_iv := last_block demo_record, read_seq := read_seq demo_conn + 1\<rparr>)"
    by (rule decrypt_sealed [of _ "replicate 24 5"]) (simp_all add: demo_record_def demo_conn_def new_conn_def)
  have "read_record ?c = tbind (decrypt 23 demo_record) (\<lambda>content. ret (23, content)) demo_conn"
    using read_record_frame [of ?c 23 demo_record "[]"] l e(1,2) by simp
  then show ?thesis by (simp add: tbind_def d ret_def e(3))
qed

theorem read_record_authentic_witness:
  "\<exists>hdr frag rest k pad. conn_in (demo_conn\<lparr>conn_in := frame 23 demo_record\<rparr>) = hdr @ frag @ rest \<and>
    length hdr = 5 \<and> hdr ! 0 = 23 \<and> length frag = be16 hdr 3 \<and> length frag \<le> 2 ^ 14 + 2048 \<and>
    read_cipher (demo_conn\<lparr>conn_in := frame 23 demo_record\<rparr>) = Some k \<and>
    frag = cbc_encrypt (tdes_encrypt k) (read_iv (demo_conn\<lparr>conn_in := frame 23 demo_record\<rparr>))
      ([104, 105] @ record_mac (read_mac (demo_conn\<lparr>conn_in := frame 23 demo_record\<rparr>))
        (read_seq (demo_conn\<lparr>conn_in := frame 23 demo_record\<rparr>)) 23 [104, 105] @ pad) \<and>
    demo_conn\<lparr>read_iv := last_block demo_record, read_seq := 1\<rparr> =
      demo_conn\<lparr>conn_in := frame 23 demo_record,
        conn_in := rest, read_iv := last_block frag,
        read_seq := read_seq (demo_conn\<lparr>conn_in := frame 23 demo_record\<rparr>) + 1\<rparr>"
  by (rule read_record_authentic [OF _ _ demo_record_read])
     (simp_all add: demo_conn_def conn_ok_def)

end
