(* ===== verification/TlsHello.thy ===== *)
theory TlsHello
  imports TlsRecord GoConv
begin

text \<open>
  tls10.go: the ClientHello in its SSLv2-compatible and its v3 form, the search for the
  one cipher suite, and the texts that describe an unexpected record.
\<close>

definition hsClientHello :: byte where "hsClientHello = 1"
definition hsServerHello :: byte where "hsServerHello = 2"
definition hsCertificate :: byte where "hsCertificate = 11"
definition hsServerHelloDone :: byte where "hsServerHelloDone = 14"
definition hsClientKeyExchange :: byte where "hsClientKeyExchange = 16"
definition hsFinished :: byte where "hsFinished = 20"

lemmas hs_types = hsClientHello_def hsServerHello_def hsCertificate_def hsServerHelloDone_def
  hsClientKeyExchange_def hsFinished_def

section \<open>The offered suites\<close>

text \<open>
  The two loops of \<open>offersCipher\<close>: three bytes per v2 spec, two per v3 suite; an
  incomplete entry at the end is not looked at.
\<close>

fun offers_v2 :: "bytes \<Rightarrow> bool" where
  "offers_v2 (a # b # c # rest) = ((a = 0 \<and> b = 0 \<and> c = 0x0a) \<or> offers_v2 rest)"
| "offers_v2 _ = False"

fun offers_v3 :: "bytes \<Rightarrow> bool" where
  "offers_v3 (a # b # rest) = ((a = 0 \<and> b = 0x0a) \<or> offers_v3 rest)"
| "offers_v3 _ = False"

definition offers_cipher :: "bytes \<Rightarrow> bool \<Rightarrow> bool" where
  "offers_cipher list v2 = (if v2 then offers_v2 list else offers_v3 list)"

section \<open>Reading the hello\<close>

definition cat :: "string list \<Rightarrow> string" where
  "cat ss = concat ss"

definition dec :: "byte \<Rightarrow> string" where
  "dec b = itoa (unat b)"

definition not_offered :: string where
  "not_offered = ''tls: client does not offer TLS_RSA_WITH_3DES_EDE_CBC_SHA (%s)''"

definition add_transcript :: "bytes \<Rightarrow> unit tls" where
  "add_transcript b = modify (\<lambda>c. c\<lparr>transcript := transcript c @ b\<rparr>)"

definition set_hello :: "string \<Rightarrow> string \<Rightarrow> unit tls" where
  "set_hello info specs = modify (\<lambda>c. c\<lparr>hello_info := info, hello_specs := specs\<rparr>)"

definition get_hello :: "string tls" where
  "get_hello c = (Ok (hello_info c), c)"

definition parse_v2_hello :: "bytes \<Rightarrow> bytes tls" where
  "parse_v2_hello body =
     tbind (lift (or_differs (length body < 9) 0 body hsClientHello)) (\<lambda>bad.
     if bad then throw (NewErr ''tls: malformed SSLv2 hello'')
     else tbind (add_transcript body) (\<lambda>_.
     tbind (lift (go_be16 3 body)) (\<lambda>csl.
     tbind (lift (go_be16 5 body)) (\<lambda>sil.
     tbind (lift (go_be16 7 body)) (\<lambda>cl.
     if length body < 9 + csl + sil + cl
     then throw (NewErr ''tls: SSLv2 hello field overflow'')
     else tbind (lift (go_index 1 body)) (\<lambda>major.
     tbind (lift (go_index 2 body)) (\<lambda>minor.
     tbind (lift (go_slice 9 (9 + int csl) body)) (\<lambda>specs.
     tbind (set_hello
          (cat [''ClientHello: SSLv2-compat, version '', dec major, ''.'', dec minor,
                '', '', itoa (csl div 3), '' cipher specs, '', itoa cl, ''-byte challenge''])
          (hex_encode specs)) (\<lambda>_.
     if \<not> offers_cipher specs True
     then tbind get_hello (\<lambda>info. throw (FmtErr not_offered [info]))
     else tbind (lift (go_slice (9 + int csl + int sil) (9 + int csl + int sil + int cl) body))
       (\<lambda>challenge.
     tbind (lift (if cl > 32 then obind (go_from (int cl - 32) challenge) (\<lambda>ch. Ok (ch, 32))
                  else Ok (challenge, cl))) (\<lambda>(challenge', cl').
     lift (go_copy (32 - int cl') challenge' (replicate 32 0)))))))))))))"

definition read_v2_hello :: "bytes tls" where
  "read_v2_hello =
     tbind (read_full 2) (\<lambda>hdr.
     let recLen = unat (hdr ! 0 AND 0x7f) * 256 + unat (hdr ! 1) in
     tbind (read_full recLen) parse_v2_hello)"

text \<open>
  The v3 form.  \<open>p[off]\<close> with \<open>off = 34\<close> is out of range when the body ends right after
  the random, which is a run-time panic: the guard before it only asks for 34 bytes.
\<close>

definition parse_v3_hello :: "byte \<Rightarrow> bytes \<Rightarrow> bytes tls" where
  "parse_v3_hello ty body =
     tbind (lift (or_differs (ty \<noteq> ctHandshake \<or> length body < 4) 0 body hsClientHello)) (\<lambda>bad.
     if bad then throw (NewErr ''tls: expected ClientHello'')
     else tbind (add_transcript body) (\<lambda>_.
     tbind (lift (go_from 4 body)) (\<lambda>p.
     if length p < 34 then throw (NewErr ''tls: short ClientHello'')
     else tbind (lift (go_slice 2 34 p)) (\<lambda>random.
     tbind (lift (go_index 34 p)) (\<lambda>sid_len.
     let sidLen = unat sid_len; off = 34 + 1 + sidLen in
     if off + 2 > length p then throw (NewErr ''tls: malformed ClientHello'')
     else tbind (lift (go_be16 (int off) p)) (\<lambda>csLen.
     let off2 = off + 2 in
     if off2 + csLen > length p then throw (NewErr ''tls: malformed ClientHello suites'')
     else tbind (lift (go_index 0 p)) (\<lambda>major.
     tbind (lift (go_index 1 p)) (\<lambda>minor.
     tbind (lift (go_slice (int off2) (int (off2 + csLen)) p)) (\<lambda>suites.
     tbind (set_hello
         (cat [''ClientHello: v3, version '', dec major, ''.'', dec minor, '', '',
               itoa (csLen div 2), '' cipher suites, '', itoa sidLen, ''-byte session id''])
         (hex_encode suites)) (\<lambda>_.
     if \<not> offers_cipher suites False
     then tbind get_hello (\<lambda>info. throw (FmtErr not_offered [info]))
     else ret random))))))))))"

definition read_v3_hello :: "bytes tls" where
  "read_v3_hello = tbind read_record (\<lambda>(ty, body). parse_v3_hello ty body)"

definition read_client_hello :: "bytes tls" where
  "read_client_hello c =
     (if conn_in c = [] then (Err (conn_end c), c)
      else if hd (conn_in c) AND 0x80 \<noteq> 0 then read_v2_hello c
      else read_v3_hello c)"

section \<open>Unexpected records\<close>

definition alert_names :: "(nat \<times> string) list" where
  "alert_names =
     [(0, ''close_notify''), (10, ''unexpected_message''), (20, ''bad_record_mac''),
      (21, ''decryption_failed''), (22, ''record_overflow''), (30, ''decompression_failure''),
      (40, ''handshake_failure''), (41, ''no_certificate''), (42, ''bad_certificate''),
      (43, ''unsupported_certificate''), (44, ''certificate_revoked''), (45, ''certificate_expired''),
      (46, ''certificate_unknown''), (47, ''illegal_parameter''), (48, ''unknown_ca''),
      (49, ''access_denied''), (50, ''decode_error''), (51, ''decrypt_error''),
      (60, ''export_restriction''), (70, ''protocol_version''), (71, ''insufficient_security''),
      (80, ''internal_error''), (90, ''user_canceled''), (100, ''no_renegotiation'')]"

definition handshake_names :: "(nat \<times> string) list" where
  "handshake_names =
     [(1, ''ClientHello''), (2, ''ServerHello''), (11, ''Certificate''),
      (14, ''ServerHelloDone''), (16, ''ClientKeyExchange''), (20, ''Finished''),
      (0, ''HelloRequest''), (12, ''ServerKeyExchange''), (13, ''CertificateRequest''),
      (15, ''CertificateVerify'')]"

definition name_of :: "(nat \<times> string) list \<Rightarrow> byte \<Rightarrow> string" where
  "name_of names b = (case map_of names (unat b) of None \<Rightarrow> ''unknown'' | Some n \<Rightarrow> n)"

definition describe_record :: "byte \<Rightarrow> bytes \<Rightarrow> string outcome" where
  "describe_record typ body =
     (if typ = ctAlert then
        (if length body < 2 then Ok (cat [''truncated alert '', hex_encode body])
         else obind (go_index 0 body) (\<lambda>level. obind (go_index 1 body) (\<lambda>alert.
           Ok (cat [if level = 2 then ''fatal'' else ''warning'', '' alert '', dec alert,
                    '' ('', name_of alert_names alert, '')'']))))
      else if typ = ctHandshake then
        (if length body = 0 then Ok ''empty handshake record''
         else obind (go_index 0 body) (\<lambda>msg.
           Ok (cat [''handshake '', dec msg, '' ('', name_of handshake_names msg,
                    ''), '', itoa (length body), '' bytes''])))
      else if typ = ctChangeCipherSpec then Ok ''ChangeCipherSpec''
      else if typ = ctApplicationData
        then Ok (cat [itoa (length body), '' bytes of application data''])
      else Ok (cat [''record type '', dec typ, '', '', itoa (length body), '' bytes'']))"

definition unexpected :: "string \<Rightarrow> byte \<Rightarrow> bytes \<Rightarrow> tls10_conn \<Rightarrow> go_error outcome" where
  "unexpected want typ body c =
     obind (describe_record typ body) (\<lambda>got.
     Ok (FmtErr ''tls: expected %s, got %s (%s; specs %s; %s)''
       [want, got, hello_info c, hello_specs c, cert_info c]))"

lemma unexpected_no_panic: "\<exists>e. unexpected want typ body c = Ok e"
proof -
  have "\<exists>d. describe_record typ body = Ok d"
    by (simp add: describe_record_def go_index_def)
  then show ?thesis by (auto simp: unexpected_def)
qed

section \<open>The parsers without their run-time checks\<close>

text \<open>
  The slices of the v2 parser are all in range, and so are those of the v3 parser but the
  one at offset 34: what the guards leave of the parsers.
\<close>

lemma parse_v2_hello_eq:
  "parse_v2_hello body =
     (if length body < 9 \<or> body ! 0 \<noteq> hsClientHello
      then throw (NewErr ''tls: malformed SSLv2 hello'')
      else tbind (add_transcript body) (\<lambda>_.
      let csl = be16 body 3; sil = be16 body 5; cl = be16 body 7 in
      if length body < 9 + csl + sil + cl
      then throw (NewErr ''tls: SSLv2 hello field overflow'')
      else tbind (set_hello
          (cat [''ClientHello: SSLv2-compat, version '', dec (body ! 1), ''.'', dec (body ! 2),
                '', '', itoa (csl div 3), '' cipher specs, '', itoa cl, ''-byte challenge''])
          (hex_encode (gslice 9 (9 + csl) body))) (\<lambda>_.
      if \<not> offers_cipher (gslice 9 (9 + csl) body) True
      then tbind get_hello (\<lambda>info. throw (FmtErr not_offered [info]))
      else
        let challenge = gslice (9 + csl + sil) (9 + csl + sil + cl) body;
            (challenge', cl') = (if cl > 32 then (drop (cl - 32) challenge, 32) else (challenge, cl))
        in ret (splice_at (32 - cl') challenge' (replicate 32 0)))))"
proof (cases "length body < 9 \<or> body ! 0 \<noteq> hsClientHello")
  case True
  then have "or_differs (length body < 9) 0 body hsClientHello = Ok True"
    by - (subst or_differs_first, auto)
  with True show ?thesis by (simp add: parse_v2_hello_def)
next
  case False
  then have l: "9 \<le> length body" and b: "(length body < 9 \<or> body ! 0 \<noteq> hsClientHello) = False" by auto
  have bad: "or_differs (length body < 9) 0 body hsClientHello = Ok False"
    using False by - (subst or_differs_first, auto)
  have i: "go_be16 3 body = Ok (be16 body 3)" "go_be16 5 body = Ok (be16 body 5)"
    "go_be16 7 body = Ok (be16 body 7)" "go_index 1 body = Ok (body ! 1)" "go_index 2 body = Ok (body ! 2)"
    using l go_be16_Ok [of 3 body] go_be16_Ok [of 5 body] go_be16_Ok [of 7 body]
      go_index_Ok [of 1 body] go_index_Ok [of 2 body] by simp_all
  define csl sil cl where "csl = be16 body 3" and "sil = be16 body 5" and "cl = be16 body 7"
  note d = csl_def [symmetric] sil_def [symmetric] cl_def [symmetric]
  show ?thesis
  proof (cases "length body < 9 + csl + sil + cl")
    case True
    then show ?thesis
      unfolding parse_v2_hello_def bad b i d lift_simps tbind_simps Let_def if_False if_True by simp
  next
    case o: False
    have s: "go_slice 9 (9 + int csl) body = Ok (gslice 9 (9 + csl) body)"
      "go_slice (9 + int csl + int sil) (9 + int csl + int sil + int cl) body =
        Ok (gslice (9 + csl + sil) (9 + csl + sil + cl) body)"
      using o go_slice_Ok [of 9 "9 + csl" body]
        go_slice_Ok [of "9 + csl + sil" "9 + csl + sil + cl" body] by simp_all
    define ch where "ch = gslice (9 + csl + sil) (9 + csl + sil + cl) body"
    have lc: "length ch = cl" using o by (simp add: ch_def)
    have e: "tbind (lift (if cl > 32 then obind (go_from (int cl - 32) ch) (\<lambda>ch. Ok (ch, 32)) else Ok (ch, cl)))
        (\<lambda>(challenge', cl'). lift (go_copy (32 - int cl') challenge' (replicate 32 0))) =
      (let (challenge', cl') = (if cl > 32 then (drop (cl - 32) ch, 32) else (ch, cl))
       in ret (splice_at (32 - cl') challenge' (replicate 32 0)))"
    proof (cases "cl > 32")
      case True
      then have "go_from (int cl - 32) ch = Ok (drop (cl - 32) ch)"
        using go_from_Ok [of "cl - 32" ch] lc by (simp add: of_nat_diff)
      with True show ?thesis
        using go_copy_Ok [of 0 "drop (cl - 32) ch" "replicate 32 0"] lc by simp
    next
      case False
      then show ?thesis
        using go_copy_Ok [of "32 - cl" ch "replicate 32 0"] lc by (simp add: of_nat_diff)
    qed
    show ?thesis
      unfolding parse_v2_hello_def bad b i d lift_simps tbind_simps Let_def if_False
        if_not_P [OF o] s ch_def [symmetric] e ..
  qed
qed

lemma parse_v3_hello_eq:
  "parse_v3_hello ty body =
     (if ty \<noteq> ctHandshake \<or> length body < 4 \<or> body ! 0 \<noteq> hsClientHello
      then throw (NewErr ''tls: expected ClientHello'')
      else tbind (add_transcript body) (\<lambda>_.
      let p = drop 4 body in
      if length p < 34 then throw (NewErr ''tls: short ClientHello'')
      else if length p \<le> 34 then (\<lambda>c. (Panic, c))
      else
        let random = gslice 2 34 p;
            sidLen = unat (p ! 34);
            off = 34 + 1 + sidLen
        in if off + 2 > length p then throw (NewErr ''tls: malformed ClientHello'')
        else let csLen = be16 p off; off2 = off + 2
        in if off2 + csLen > length p then throw (NewErr ''tls: malformed ClientHello suites'')
        else tbind (set_hello
            (cat [''ClientHello: v3, version '', dec (p ! 0), ''.'', dec (p ! 1), '', '',
                  itoa (csLen div 2), '' cipher suites, '', itoa sidLen, ''-byte session id''])
            (hex_encode (gslice off2 (off2 + csLen) p))) (\<lambda>_.
        if \<not> offers_cipher (gslice off2 (off2 + csLen) p) False
        then tbind get_hello (\<lambda>info. throw (FmtErr not_offered [info]))
        else ret random)))"
proof (cases "ty \<noteq> ctHandshake \<or> length body < 4 \<or> body ! 0 \<noteq> hsClientHello")
  case True
  then have "or_differs (ty \<noteq> ctHandshake \<or> length body < 4) 0 body hsClientHello = Ok True"
    by - (subst or_differs_first, auto)
  with True show ?thesis by (simp add: parse_v3_hello_def)
next
  case False
  then have l: "4 \<le> length body" and b: "(ty \<noteq> ctHandshake \<or> length body < 4 \<or> body ! 0 \<noteq> hsClientHello) = False"
    by auto
  have bad: "or_differs (ty \<noteq> ctHandshake \<or> length body < 4) 0 body hsClientHello = Ok False"
    using False by - (subst or_differs_first, auto)
  define p where "p = drop 4 body"
  have p: "go_from 4 body = Ok p" using l go_from_Ok [of 4 body] by (simp add: p_def)
  note unf = parse_v3_hello_def bad b p p_def [symmetric] lift_simps tbind_simps Let_def if_False
  consider (short) "length p < 34" | (none) "length p = 34" | (more) "34 < length p" by linarith
  then show ?thesis
  proof cases
    case short
    then show ?thesis unfolding unf by simp
  next
    case none
    then have "go_slice 2 34 p = Ok (gslice 2 34 p)" "go_index 34 p = Panic"
      by (simp_all add: go_slice_def go_index_def)
    with none show ?thesis unfolding unf by (simp add: fun_eq_iff lift_def)
  next
    case more
    then have i: "go_slice 2 34 p = Ok (gslice 2 34 p)" "go_index 34 p = Ok (p ! 34)"
      "go_index 0 p = Ok (p ! 0)" "go_index 1 p = Ok (p ! 1)"
      and g: "(length p < 34) = False" "(length p \<le> 34) = False"
      by (auto simp: go_slice_def go_index_def)
    define off where "off = 34 + 1 + unat (p ! 34)"
    show ?thesis
    proof (cases "off + 2 > length p")
      case True
      then show ?thesis unfolding unf i g off_def [symmetric] by simp
    next
      case o: False
      then have be: "go_be16 (int off) p = Ok (be16 p off)" using go_be16_Ok [of off p] by simp
      show ?thesis
      proof (cases "off + 2 + be16 p off > length p")
        case True
        then show ?thesis unfolding unf i g off_def [symmetric] if_not_P [OF o] be by simp
      next
        case c: False
        then have "go_slice (int (off + 2)) (int (off + 2 + be16 p off)) p =
            Ok (gslice (off + 2) (off + 2 + be16 p off) p)" by (intro go_slice_Ok) simp_all
        then show ?thesis
          unfolding unf i g off_def [symmetric] if_not_P [OF o] if_not_P [OF c] be
          by (simp only: lift_simps tbind_simps)
      qed
    qed
  qed
qed

section \<open>The search as an index\<close>

lemma ex_nat_split: "(\<exists>i :: nat. P i) \<longleftrightarrow> P 0 \<or> (\<exists>i. P (Suc i))"
  by (metis not0_implies_Suc)


lemma offers_v2_index:
  "offers_v2 list \<longleftrightarrow> (\<exists>i. 3 * i + 3 \<le> length list \<and> gslice (3 * i) (3 * i + 3) list = [0, 0, 0x0a])"
proof (induction list rule: offers_v2.induct)
  case (1 a b c rest)
  have s: "gslice (3 * Suc i) (3 * Suc i + 3) (a # b # c # rest) = gslice (3 * i) (3 * i + 3) rest" for i
  proof -
    have "3 * Suc i = Suc (Suc (Suc (3 * i)))" by simp
    then show ?thesis by (simp only: gslice_def) simp
  qed
  have z: "gslice (3 * 0) (3 * 0 + 3) (a # b # c # rest) = [a, b, c]" by (simp add: gslice_def numeral_eq_Suc)
  have l: "3 * Suc i + 3 \<le> length (a # b # c # rest) \<longleftrightarrow> 3 * i + 3 \<le> length rest" for i by auto
  have l0: "3 * 0 + 3 \<le> length (a # b # c # rest)" by simp
  have "(\<exists>i. 3 * i + 3 \<le> length (a # b # c # rest) \<and>
        gslice (3 * i) (3 * i + 3) (a # b # c # rest) = [0, 0, 0x0a]) \<longleftrightarrow>
      [a, b, c] = [0, 0, 0x0a] \<or>
      (\<exists>i. 3 * i + 3 \<le> length rest \<and> gslice (3 * i) (3 * i + 3) rest = [0, 0, 0x0a])"
    by (subst ex_nat_split) (simp only: s z l l0 simp_thms)
  then show ?case using 1 by simp
qed (auto simp: gslice_def)

lemma offers_v3_index:
  "offers_v3 list \<longleftrightarrow> (\<exists>i. 2 * i + 2 \<le> length list \<and> gslice (2 * i) (2 * i + 2) list = [0, 0x0a])"
proof (induction list rule: offers_v3.induct)
  case (1 a b rest)
  have s: "gslice (2 * Suc i) (2 * Suc i + 2) (a # b # rest) = gslice (2 * i) (2 * i + 2) rest" for i
  proof -
    have "2 * Suc i = Suc (Suc (2 * i))" by simp
    then show ?thesis by (simp only: gslice_def) simp
  qed
  have z: "gslice (2 * 0) (2 * 0 + 2) (a # b # rest) = [a, b]" by (simp add: gslice_def numeral_eq_Suc)
  have l: "2 * Suc i + 2 \<le> length (a # b # rest) \<longleftrightarrow> 2 * i + 2 \<le> length rest" for i by auto
  have l0: "2 * 0 + 2 \<le> length (a # b # rest)" by simp
  have "(\<exists>i. 2 * i + 2 \<le> length (a # b # rest) \<and>
        gslice (2 * i) (2 * i + 2) (a # b # rest) = [0, 0x0a]) \<longleftrightarrow>
      [a, b] = [0, 0x0a] \<or>
      (\<exists>i. 2 * i + 2 \<le> length rest \<and> gslice (2 * i) (2 * i + 2) rest = [0, 0x0a])"
    by (subst ex_nat_split) (simp only: s z l l0 simp_thms)
  then show ?case using 1 by simp
qed (auto simp: gslice_def)

section \<open>Hellos as clients build them\<close>

text \<open>\<open>buildV2Hello\<close> of the tests, for any version, specs, session ID and challenge.\<close>

definition v2_body :: "byte \<Rightarrow> byte \<Rightarrow> bytes \<Rightarrow> bytes \<Rightarrow> bytes \<Rightarrow> bytes" where
  "v2_body vmaj vmin specs sid challenge =
     [hsClientHello, vmaj, vmin] @ put16 (length specs) @ put16 (length sid)
       @ put16 (length challenge) @ specs @ sid @ challenge"

definition v2_hello :: "bytes \<Rightarrow> bytes" where
  "v2_hello body = [0x80 OR of_nat (length body div 256), of_nat (length body)] @ body"

definition v3_body :: "byte \<Rightarrow> byte \<Rightarrow> bytes \<Rightarrow> bytes \<Rightarrow> bytes \<Rightarrow> bytes \<Rightarrow> bytes" where
  "v3_body vmaj vmin random sid suites exts =
     (let p = [vmaj, vmin] @ random @ [of_nat (length sid)] @ sid @ put16 (length suites) @ suites @ exts
      in [hsClientHello] @ put24 (length p) @ p)"

text \<open>The client random both sides derive keys from: the challenge in 32 bytes, right-justified.\<close>

definition pad32 :: "bytes \<Rightarrow> bytes" where
  "pad32 ch = (if 32 < length ch then drop (length ch - 32) ch else replicate (32 - length ch) 0 @ ch)"

lemma length_pad32 [simp]: "length (pad32 ch) = 32"
  by (simp add: pad32_def)

lemma v2_header_bits_all:
  "\<forall>n \<in> set [0..<128]. (0x80 OR of_nat n :: byte) AND 0x7f = of_nat n \<and>
     (0x80 OR of_nat n :: byte) AND 0x80 \<noteq> 0"
  by code_simp

lemma v2_header_bits:
  assumes "n < 128"
  shows "(0x80 OR of_nat n :: byte) AND 0x7f = of_nat n \<and> (0x80 OR of_nat n :: byte) AND 0x80 \<noteq> 0"
proof -
  have "n \<in> set [0..<128]" using assms by simp
  with v2_header_bits_all show ?thesis by blast
qed

lemma v2_header:
  assumes "n < 2 ^ 15"
  shows "unat ((0x80 OR of_nat (n div 256) :: byte) AND 0x7f) * 256 + unat (of_nat n :: byte) = n"
    and "(0x80 OR of_nat (n div 256) :: byte) AND 0x80 \<noteq> 0"
proof -
  have d: "n div 256 < 128" using assms by simp
  note h = v2_header_bits [OF d]
  show "unat ((0x80 OR of_nat (n div 256) :: byte) AND 0x7f) * 256 + unat (of_nat n :: byte) = n"
    unfolding conjunct1 [OF h] unat_of_nat_byte using d by simp
  show "(0x80 OR of_nat (n div 256) :: byte) AND 0x80 \<noteq> 0" by (rule conjunct2 [OF h])
qed

lemma length_v2_body:
  "length (v2_body a b specs sid ch) = 9 + length specs + length sid + length ch"
  by (simp add: v2_body_def)

lemma gslice_off: "length h = k \<Longrightarrow> gslice (k + m) (k + n) (h @ xs) = gslice m n xs"
  by (auto simp: gslice_def)

lemma v2_body_fields:
  assumes "length (v2_body a b specs sid ch) < 2 ^ 15"
  shows "be16 (v2_body a b specs sid ch) 3 = length specs"
    and "be16 (v2_body a b specs sid ch) 5 = length sid"
    and "be16 (v2_body a b specs sid ch) 7 = length ch"
    and "gslice 9 (9 + length specs) (v2_body a b specs sid ch) = specs"
    and "gslice (9 + length specs + length sid) (9 + length specs + length sid + length ch)
      (v2_body a b specs sid ch) = ch"
    and "v2_body a b specs sid ch ! 0 = hsClientHello"
    and "v2_body a b specs sid ch ! 1 = a" and "v2_body a b specs sid ch ! 2 = b"
proof -
  have l: "length specs < 65536" "length sid < 65536" "length ch < 65536"
    using assms by (simp_all add: length_v2_body)
  show "be16 (v2_body a b specs sid ch) 3 = length specs"
    using be16_append_put16 [of "[hsClientHello, a, b]" "length specs"
        "put16 (length sid) @ put16 (length ch) @ specs @ sid @ ch"] l
    by (simp add: v2_body_def numeral_3_eq_3)
  show "be16 (v2_body a b specs sid ch) 5 = length sid"
    using be16_append_put16 [of "[hsClientHello, a, b] @ put16 (length specs)" "length sid"
        "put16 (length ch) @ specs @ sid @ ch"] l
    by (simp add: v2_body_def)
  show "be16 (v2_body a b specs sid ch) 7 = length ch"
    using be16_append_put16 [of "[hsClientHello, a, b] @ put16 (length specs) @ put16 (length sid)"
        "length ch" "specs @ sid @ ch"] l
    by (simp add: v2_body_def)
  let ?h = "[hsClientHello, a, b] @ put16 (length specs) @ put16 (length sid) @ put16 (length ch)"
  have h: "length ?h = 9" by simp
  have b: "v2_body a b specs sid ch = ?h @ specs @ sid @ ch" by (simp add: v2_body_def)
  show "gslice 9 (9 + length specs) (v2_body a b specs sid ch) = specs"
    unfolding b using gslice_off [OF h, of 0 "length specs"]
    by (simp only: add_0_right) (simp add: gslice_def)
  show "gslice (9 + length specs + length sid) (9 + length specs + length sid + length ch)
      (v2_body a b specs sid ch) = ch"
    unfolding b using gslice_off [OF h, of "length specs + length sid" "length specs + length sid + length ch"]
    by (simp only: add.assoc) (simp add: gslice_def)
  show "v2_body a b specs sid ch ! 0 = hsClientHello"
    "v2_body a b specs sid ch ! 1 = a" "v2_body a b specs sid ch ! 2 = b"
    by (simp_all add: v2_body_def)
qed

definition v2_info :: "byte \<Rightarrow> byte \<Rightarrow> bytes \<Rightarrow> bytes \<Rightarrow> string" where
  "v2_info a b specs ch =
     cat [''ClientHello: SSLv2-compat, version '', dec a, ''.'', dec b,
          '', '', itoa (length specs div 3), '' cipher specs, '', itoa (length ch), ''-byte challenge'']"

lemma read_v2_hello_built:
  assumes "length (v2_body a b specs sid ch) < 2 ^ 15"
    and "conn_in c = v2_hello (v2_body a b specs sid ch) @ rest"
    and "offers_v2 specs"
  shows "read_client_hello c =
    (Ok (pad32 ch), c\<lparr>conn_in := rest, transcript := transcript c @ v2_body a b specs sid ch,
       hello_info := v2_info a b specs ch, hello_specs := hex_encode specs\<rparr>)"
proof -
  define body where "body = v2_body a b specs sid ch"
  define n where "n = length body"
  note f = v2_body_fields [OF assms(1), folded body_def, unfolded One_nat_def]
  have n: "n < 2 ^ 15" using assms(1) by (simp add: n_def body_def)
  note h = v2_header [OF n]
  have inp: "conn_in c = [0x80 OR of_nat (n div 256), of_nat n] @ body @ rest"
    using assms(2) by (simp add: v2_hello_def n_def body_def)
  define c1 where "c1 = c\<lparr>conn_in := body @ rest\<rparr>"
  define c2 where "c2 = c\<lparr>conn_in := rest\<rparr>"
  have r1: "read_full 2 c = (Ok [0x80 OR of_nat (n div 256), of_nat n], c1)"
    by (simp add: read_full_def inp c1_def)
  have r2: "read_full n c1 = (Ok body, c2)"
    by (simp add: read_full_def c1_def c2_def n_def)
  have lb: "length body = 9 + length specs + length sid + length ch"
    by (simp add: body_def length_v2_body)
  have g: "(length body < 9 \<or> hsClientHello \<noteq> hsClientHello) = False"
    "(length body < 9 + length specs + length sid + length ch) = False"
    using lb by simp_all
  have g3: "(\<not> offers_cipher specs True) = False" using assms(3) by (simp add: offers_cipher_def)
  have "read_v2_hello c = (Ok (pad32 ch), c\<lparr>conn_in := rest, transcript := transcript c @ body,
       hello_info := v2_info a b specs ch, hello_specs := hex_encode specs\<rparr>)"
    unfolding read_v2_hello_def parse_v2_hello_eq
    by (simp only: tbind_OkI [where m = "read_full 2", OF r1] tbind_OkI [where m = "read_full n", OF r2] Let_def One_nat_def nth_Cons_0 nth_Cons_Suc h(1)
          f g g3 if_False add_transcript_def set_hello_def tbind_simps)
       (simp add: c2_def v2_info_def ret_def pad32_def splice_at_def)
  then show ?thesis
    using h(2) by (simp add: read_client_hello_def inp body_def)
qed

lemma length_v3_body:
  "length (v3_body a b random sid suites exts) =
   4 + (2 + length random + 1 + length sid + 2 + length suites + length exts)"
  by (simp add: v3_body_def Let_def)

lemma drop_v3_body:
  "drop 4 (v3_body a b random sid suites exts) =
   [a, b] @ random @ [of_nat (length sid)] @ sid @ put16 (length suites) @ suites @ exts"
  "v3_body a b random sid suites exts ! 0 = hsClientHello"
  by (simp_all add: v3_body_def Let_def put24_def)

definition v3_info :: "byte \<Rightarrow> byte \<Rightarrow> bytes \<Rightarrow> bytes \<Rightarrow> string" where
  "v3_info a b suites sid =
     cat [''ClientHello: v3, version '', dec a, ''.'', dec b, '', '',
          itoa (length suites div 2), '' cipher suites, '', itoa (length sid), ''-byte session id'']"

lemma v3_fields:
  assumes "length random = 32" and "length sid < 256" and "length suites < 65536"
    and p: "p = [a, b] @ random @ [of_nat (length sid)] @ sid @ put16 (length suites) @ suites @ exts"
  shows "gslice 2 34 p = random" and "unat (p ! 34) = length sid"
    and "be16 p (35 + length sid) = length suites"
    and "gslice (37 + length sid) (37 + length sid + length suites) p = suites"
    and "p ! 0 = a" and "p ! Suc 0 = b"
proof -
  have n: "length ([a, b] @ random) = 34" using assms(1) by simp
  show "gslice 2 34 p = random" using assms(1) by (simp add: p gslice_def)
  have "p ! 34 = of_nat (length sid)"
    unfolding p using n nth_append_length [of "[a, b] @ random"] by (simp add: nth_append)
  then show "unat (p ! 34) = length sid" using assms(2) by (simp add: unat_of_nat_byte)
  let ?h = "[a, b] @ random @ [of_nat (length sid)] @ sid"
  have h: "length ?h = 35 + length sid" using assms(1) by simp
  have "be16 (?h @ put16 (length suites) @ suites @ exts) (length ?h) = length suites"
    unfolding be16_append_put16 using assms(3) by simp
  then show "be16 p (35 + length sid) = length suites" unfolding p h by simp
  let ?h2 = "?h @ put16 (length suites)"
  have h2: "length ?h2 = 37 + length sid" using h by simp
  have "p = ?h2 @ suites @ exts" by (simp add: p)
  then show "gslice (37 + length sid) (37 + length sid + length suites) p = suites"
    using gslice_off [OF h2, of 0 "length suites" "suites @ exts"]
    by (simp only: add_0_right) (simp add: gslice_def)
  show "p ! 0 = a" "p ! Suc 0 = b" by (simp_all add: p)
qed

lemma read_v3_hello_built:
  assumes "length random = 32" and "length sid < 256" and "length suites < 65536"
    and "\<not> read_active c" and "length (v3_body a b random sid suites exts) \<le> maxPlaintext"
    and "conn_in c = frame ctHandshake (v3_body a b random sid suites exts) @ rest"
    and "offers_v3 suites"
  shows "read_client_hello c =
    (Ok random, c\<lparr>conn_in := rest, transcript := transcript c @ v3_body a b random sid suites exts,
       hello_info := v3_info a b suites sid, hello_specs := hex_encode suites\<rparr>)"
proof -
  define body where "body = v3_body a b random sid suites exts"
  define p where "p = drop 4 body"
  have p: "p = [a, b] @ random @ [of_nat (length sid)] @ sid @ put16 (length suites) @ suites @ exts"
    by (simp only: p_def body_def drop_v3_body)
  note f = v3_fields [OF assms(1-3) p]
  have l: "length p = 37 + length sid + length suites + length exts" using assms(1) by (simp add: p)
  have lb: "length body = 4 + length p" using assms(1) l by (simp add: body_def length_v3_body)
  define c2 where "c2 = c\<lparr>conn_in := rest\<rparr>"
  have r: "read_record c = (Ok (ctHandshake, body), c2)"
    using read_record_frame [OF assms(6)] assms(4,5)
    by (simp add: c2_def body_def maxPlaintext_def)
  have b0: "body ! 0 = hsClientHello" by (simp only: body_def drop_v3_body)
  have g: "(ctHandshake \<noteq> ctHandshake \<or> length body < 4 \<or> hsClientHello \<noteq> hsClientHello) = False"
    "(length p < 34) = False" "(length p \<le> 34) = False"
    "34 + 1 + length sid = 35 + length sid" "35 + length sid + 2 = 37 + length sid"
    "(37 + length sid > length p) = False"
    "(37 + length sid + length suites > length p) = False"
    "(\<not> offers_cipher suites False) = False"
    using l lb assms(7) by (simp_all add: offers_cipher_def)
  have first: "hd (conn_in c) = ctHandshake" "conn_in c \<noteq> []" by (simp_all add: assms(6) frame_def)
  have "read_v3_hello c = (Ok random, c\<lparr>conn_in := rest, transcript := transcript c @ body,
       hello_info := v3_info a b suites sid, hello_specs := hex_encode suites\<rparr>)"
    unfolding read_v3_hello_def parse_v3_hello_eq
    by (simp only: tbind_OkI [where m = read_record, OF r] Let_def prod.case b0 p_def [symmetric]
          One_nat_def [symmetric] f g if_False add_transcript_def set_hello_def tbind_simps)
       (simp add: c2_def v3_info_def ret_def f)
  then show ?thesis
    by (simp add: read_client_hello_def first body_def) (simp add: ctHandshake_def)
qed

section \<open>What any hello leaves behind\<close>

lemma read_record_inactive:
  "\<not> read_active c \<Longrightarrow> read_record c = (Ok x, c') \<Longrightarrow> c' = c\<lparr>conn_in := conn_in c'\<rparr>"
  by (auto simp: read_record_def tbind_Ok read_full_Ok Let_def ret_def throw_def split: if_splits)

lemma get_hello_simps [simp]: "tbind get_hello f c = f (hello_info c) c"
  by (simp add: get_hello_def tbind_def)

lemma tbind_add_transcript [simp]:
  "tbind (add_transcript b) f c = f () (c\<lparr>transcript := transcript c @ b\<rparr>)"
  "tbind (set_hello i sp) f c = f () (c\<lparr>hello_info := i, hello_specs := sp\<rparr>)"
  by (simp_all add: add_transcript_def set_hello_def)

text \<open>The parts of the state a hello may change.\<close>

definition hello_step :: "tls10_conn \<Rightarrow> bytes \<Rightarrow> tls10_conn \<Rightarrow> bool" where
  "hello_step c body c' \<longleftrightarrow> (\<exists>i sp.
     c' = c\<lparr>transcript := transcript c @ body, hello_info := i, hello_specs := sp\<rparr>)"

lemma length_challenge:
  assumes "n \<le> length body" and "n = m + cl"
  shows "length (let challenge = gslice m n body;
      (challenge', cl') = (if cl > 32 then (drop (cl - 32) challenge, 32) else (challenge, cl))
    in splice_at (32 - cl') challenge' (replicate 32 0)) = 32"
  using assms by (auto simp: Let_def length_splice)

lemma parse_v2_hello_Ok:
  assumes "parse_v2_hello body c = (Ok random, c')"
  shows "length random = 32 \<and> hello_step c body c'"
proof -
  define csl sil cl where "csl = be16 body 3" and "sil = be16 body 5" and "cl = be16 body 7"
  note d = csl_def [symmetric] sil_def [symmetric] cl_def [symmetric]
  from assms have "9 + csl + sil + cl \<le> length body"
    and r: "random = (let challenge = gslice (9 + csl + sil) (9 + csl + sil + cl) body;
        (challenge', cl') = (if cl > 32 then (drop (cl - 32) challenge, 32) else (challenge, cl))
      in splice_at (32 - cl') challenge' (replicate 32 0))"
    and "hello_step c body c'"
    unfolding parse_v2_hello_eq d Let_def
    by (auto simp: ret_def throw_def hello_step_def not_less split: if_splits)
  then show ?thesis using length_challenge [of "9 + csl + sil + cl" body "9 + csl + sil" cl] by simp
qed

lemma parse_v3_hello_Ok:
  assumes "parse_v3_hello ty body c = (Ok random, c')"
  shows "length random = 32 \<and> hello_step c body c'"
proof -
  from assms have "random = gslice 2 34 (drop 4 body) \<and> \<not> length (drop 4 body) < 34 \<and> hello_step c body c'"
    unfolding parse_v3_hello_eq Let_def
    by (auto simp: ret_def throw_def hello_step_def split: if_splits)
  then show ?thesis by auto
qed

lemma read_client_hello_Ok:
  assumes "read_client_hello c = (Ok random, c')" and "\<not> read_active c"
  shows "length random = 32 \<and> (\<exists>body inp. hello_step (c\<lparr>conn_in := inp\<rparr>) body c')"
proof (cases "hd (conn_in c) AND 0x80 \<noteq> 0")
  case True
  then obtain body inp where "parse_v2_hello body (c\<lparr>conn_in := inp\<rparr>) = (Ok random, c')"
    using assms(1)
    by (auto simp: read_client_hello_def read_v2_hello_def Let_def tbind_Ok read_full_Ok split: if_splits)
  then show ?thesis using parse_v2_hello_Ok by blast
next
  case False
  then obtain ty body c1 where r: "read_record c = (Ok (ty, body), c1)"
      and "parse_v3_hello ty body c1 = (Ok random, c')"
    using assms(1) by (auto simp: read_client_hello_def read_v3_hello_def tbind_Ok split: if_splits)
  then show ?thesis
    using parse_v3_hello_Ok [of ty body c1] read_record_inactive [OF assms(2) r] by metis
qed

lemma parse_v2_hello_no_panic [simp]: "fst (parse_v2_hello body c) \<noteq> Panic"
  unfolding parse_v2_hello_eq Let_def by (auto simp: ret_def throw_def)

lemma parse_v3_hello_panic:
  "fst (parse_v3_hello ty body c) = Panic \<longleftrightarrow>
   ty = ctHandshake \<and> length body = 38 \<and> body ! 0 = hsClientHello"
proof (cases "length body = 38")
  case True
  then show ?thesis unfolding parse_v3_hello_eq Let_def by (simp add: throw_def)
next
  case False
  then have "length (drop 4 body) \<noteq> 34" by auto
  with False show ?thesis
    unfolding parse_v3_hello_eq Let_def by (simp add: throw_def ret_def)
qed

lemma read_v2_hello_no_panic: "fst (read_v2_hello c) \<noteq> Panic"
  unfolding read_v2_hello_def Let_def by (simp add: tbind_fst_Panic)

section \<open>What the reading operations leave alone\<close>

lemma keeps_read_full:
  "(\<And>c i. P c \<Longrightarrow> P (c\<lparr>conn_in := i\<rparr>)) \<Longrightarrow> keeps P (read_full n)"
  by (simp add: keeps_def read_full_def)

lemma keeps_decrypt:
  assumes "\<And>c i. P c \<Longrightarrow> P (c\<lparr>read_iv := i\<rparr>)" and "\<And>c n. P c \<Longrightarrow> P (c\<lparr>read_seq := n\<rparr>)"
  shows "keeps P (decrypt t frag)"
  unfolding keeps_def decrypt_eq
  by (auto simp: Let_def assms split: option.split outcome.split)

lemma keeps_read_record:
  assumes "\<And>c i. P c \<Longrightarrow> P (c\<lparr>conn_in := i\<rparr>)"
    and "\<And>c i. P c \<Longrightarrow> P (c\<lparr>read_iv := i\<rparr>)" and "\<And>c n. P c \<Longrightarrow> P (c\<lparr>read_seq := n\<rparr>)"
  shows "keeps P read_record"
  unfolding read_record_def Let_def
  by (intro keeps_tbind keeps_cond keeps_if keeps_ret keeps_throw keeps_read_full keeps_decrypt assms)

lemma keeps_parse_v2_hello:
  assumes "\<And>c b. P c \<Longrightarrow> P (c\<lparr>transcript := b\<rparr>)"
    and "\<And>c i s. P c \<Longrightarrow> P (c\<lparr>hello_info := i, hello_specs := s\<rparr>)"
  shows "keeps P (parse_v2_hello body)"
  unfolding parse_v2_hello_eq Let_def keeps_def
  by (auto simp: ret_def throw_def assms)

lemma keeps_parse_v3_hello:
  assumes "\<And>c b. P c \<Longrightarrow> P (c\<lparr>transcript := b\<rparr>)"
    and "\<And>c i s. P c \<Longrightarrow> P (c\<lparr>hello_info := i, hello_specs := s\<rparr>)"
  shows "keeps P (parse_v3_hello ty body)"
  unfolding parse_v3_hello_eq Let_def keeps_def
  by (auto simp: ret_def throw_def assms)

lemma keeps_read_client_hello:
  assumes "\<And>c i. P c \<Longrightarrow> P (c\<lparr>conn_in := i\<rparr>)"
    and "\<And>c i. P c \<Longrightarrow> P (c\<lparr>read_iv := i\<rparr>)" and "\<And>c n. P c \<Longrightarrow> P (c\<lparr>read_seq := n\<rparr>)"
    and "\<And>c b. P c \<Longrightarrow> P (c\<lparr>transcript := b\<rparr>)"
    and "\<And>c i s. P c \<Longrightarrow> P (c\<lparr>hello_info := i, hello_specs := s\<rparr>)"
  shows "keeps P read_client_hello"
proof -
  have "keeps P read_v2_hello"
    unfolding read_v2_hello_def Let_def
    by (intro keeps_tbind keeps_read_full keeps_parse_v2_hello assms)
  moreover have "keeps P read_v3_hello"
    unfolding read_v3_hello_def
    by (intro keeps_tbind keeps_prod keeps_read_record keeps_parse_v3_hello assms)
  ultimately show ?thesis by (simp add: keeps_def read_client_hello_def)
qed

lemma read_client_hello_ok [keeps_intros]: "keeps conn_ok read_client_hello"
proof -
  have "keeps conn_ok read_v2_hello"
    unfolding read_v2_hello_def Let_def
    by (intro keeps_tbind read_full_ok keeps_parse_v2_hello) (simp_all add: conn_ok_def)
  moreover have "keeps conn_ok read_v3_hello"
    unfolding read_v3_hello_def
    by (intro keeps_tbind keeps_prod read_record_ok keeps_parse_v3_hello) (simp_all add: conn_ok_def)
  ultimately show ?thesis by (simp add: keeps_def read_client_hello_def)
qed

lemma client_hello_panic:
  assumes "conn_ok c"
  shows "fst (read_client_hello c) = Panic \<longleftrightarrow>
    conn_in c \<noteq> [] \<and> hd (conn_in c) AND 0x80 = 0 \<and>
    (\<exists>body. fst (read_record c) = Ok (ctHandshake, body) \<and> length body = 38 \<and>
      body ! 0 = hsClientHello)"
proof -
  have "fst (read_v3_hello c) = Panic \<longleftrightarrow>
      (\<exists>body. fst (read_record c) = Ok (ctHandshake, body) \<and> length body = 38 \<and> body ! 0 = hsClientHello)"
    using safeD [OF safe_read_record assms]
    by (cases "read_record c")
       (auto simp: read_v3_hello_def tbind_fst_Panic parse_v3_hello_panic)
  then show ?thesis
    by (simp add: read_client_hello_def read_v2_hello_no_panic)
qed

text \<open>
  The input that does it, as the client sends it: a plaintext handshake record of length 38
  holding a ClientHello, whatever the rest of its bytes.
\<close>

definition short_hello :: "bytes \<Rightarrow> bool" where
  "short_hello input \<longleftrightarrow> 43 \<le> length input \<and> input ! 0 = 22 \<and> be16 input 3 = 38 \<and> input ! 5 = 1"

lemma hello_panic_iff:
  assumes "conn_ok c" and "\<not> read_active c"
  shows "fst (read_client_hello c) = Panic \<longleftrightarrow> short_hello (conn_in c)"
proof
  assume "fst (read_client_hello c) = Panic"
  then obtain body where r: "fst (read_record c) = Ok (ctHandshake, body)"
    and b: "length body = 38" "body ! 0 = hsClientHello"
    unfolding client_hello_panic [OF assms(1)] by blast
  let ?n = "be16 (take 5 (conn_in c)) 3"
  have l: "5 \<le> length (conn_in c)" "?n \<le> length (conn_in c) - 5"
    and e: "conn_in c ! 0 = ctHandshake" "body = take ?n (drop 5 (conn_in c))"
    using r assms(2)
    by (auto simp: read_record_def tbind_def read_full_def Let_def throw_def ret_def split: if_splits)
  from e(2) l(2) have n: "length body = ?n" by simp
  with l b(1) have "43 \<le> length (conn_in c)" by simp
  moreover have "be16 (conn_in c) 3 = ?n" using l(1) by (simp add: be16_def)
  moreover have "conn_in c ! 5 = body ! 0" using e(2) l b(1) n by simp
  ultimately show "short_hello (conn_in c)"
    using e(1) b n by (simp add: short_hello_def hs_types ctHandshake_def)
next
  assume s: "short_hello (conn_in c)"
  let ?body = "take 38 (drop 5 (conn_in c))"
  have l: "43 \<le> length (conn_in c)" using s by (simp add: short_hello_def)
  then have "be16 (take 5 (conn_in c)) 3 = 38" using s by (simp add: short_hello_def be16_def)
  then have "fst (read_record c) = Ok (ctHandshake, ?body)"
    using s l assms(2)
    by (simp add: read_record_def tbind_def read_full_def Let_def ret_def short_hello_def ctHandshake_def)
  moreover have "conn_in c \<noteq> []" using l by auto
  moreover from this have "hd (conn_in c) AND 0x80 = 0"
    using s by (simp add: short_hello_def hd_conv_nth)
  ultimately show "fst (read_client_hello c) = Panic"
    unfolding client_hello_panic [OF assms(1)] using s l by (simp add: short_hello_def hs_types)
qed

definition crash_hello :: bytes where
  "crash_hello = frame ctHandshake ([hsClientHello] @ put24 34 @ [3, 1] @ replicate 32 0)"

lemma crash_hello_panics:
  assumes "conn_ok c" and "\<not> read_active c" and "conn_in c = crash_hello @ rest"
  shows "fst (read_client_hello c) = Panic"
proof -
  let ?body = "[hsClientHello] @ put24 34 @ [3, 1] @ replicate 32 0 :: bytes"
  have "read_record c = (Ok (ctHandshake, ?body), c\<lparr>conn_in := rest\<rparr>)"
    using read_record_frame [of c ctHandshake ?body rest] assms(2,3)
    by (simp add: crash_hello_def)
  moreover have "conn_in c \<noteq> []" "hd (conn_in c) AND 0x80 = 0"
    using assms(3) by (simp_all add: crash_hello_def frame_def ctHandshake_def)
  ultimately show ?thesis
    using client_hello_panic [OF assms(1)] by simp
qed

section \<open>Properties\<close>

text \<open>C38. The suite search finds 0x000a exactly when one of the complete 3-byte specs (v2) or
  2-byte suites (v3), counted from the start of the list, is it: no match across entries.\<close>

theorem offers_cipher_iff:
  "offers_cipher list v2 \<longleftrightarrow>
   (if v2 then \<exists>i. 3 * i + 3 \<le> length list \<and> gslice (3 * i) (3 * i + 3) list = [0, 0, 0x0a]
    else \<exists>i. 2 * i + 2 \<le> length list \<and> gslice (2 * i) (2 * i + 2) list = [0, 0x0a])"
  by (simp add: offers_cipher_def offers_v2_index offers_v3_index)

definition demo_v3 :: bytes where
  "demo_v3 = v3_body 3 1 (replicate 32 7) [] [0, 5, 0, 0x0a] [1, 0]"

end
