(* ===== verification/TlsHandshake.thy ===== *)
theory TlsHandshake
  imports TlsHello Server Rsa
begin

text \<open>
  tls10.go, \<open>handshakeAndServe\<close> up to the application data: the server's flight, the
  ClientKeyExchange, the key schedule and the two Finished messages.
\<close>

section \<open>Messages\<close>

definition put_hs_len :: "bytes \<Rightarrow> bytes" where
  "put_hs_len msg =
     (let n = length msg - 4
      in msg[1 := of_nat (n div 65536), 2 := of_nat (n div 256), 3 := of_nat n])"

definition cipherRSA3DES :: nat where "cipherRSA3DES = 0x000a"

definition build_server_hello :: "bytes \<Rightarrow> bytes" where
  "build_server_hello server_random =
     put_hs_len ([hsServerHello, 0, 0, 0] @ tls10Version @ server_random @ [0]
       @ [of_nat (cipherRSA3DES div 256), of_nat cipherRSA3DES] @ [0])"

definition build_certificate :: "bytes list \<Rightarrow> bytes" where
  "build_certificate chain =
     (let certs = concat (map (\<lambda>der. put24 (length der) @ der) chain)
      in put_hs_len ([hsCertificate, 0, 0, 0] @ put24 (length certs) @ certs))"

definition server_hello_done :: bytes where
  "server_hello_done = [hsServerHelloDone, 0, 0, 0]"

section \<open>Keys\<close>

text \<open>\<open>[]byte("...")\<close> of the labels.\<close>

definition label :: "string \<Rightarrow> bytes" where
  "label s = bytes_of s"

text \<open>
  \<open>decryptPremaster\<close>; \<open>rnd\<close> are the random bytes drawn before the decryption, which
  fill the 48-byte replacement (a failing \<open>rand.Read\<close> leaves zeros behind).  The version
  bytes of a decrypted premaster are the client's own, whatever they are.
\<close>

definition decrypt_premaster :: "rsa_key \<Rightarrow> bytes \<Rightarrow> bytes \<Rightarrow> bytes outcome" where
  "decrypt_premaster priv rnd cke =
     obind (go_from 4 cke) (\<lambda>p.
     if length p < 2 then Err (NewErr ''tls: short ClientKeyExchange'')
     else obind (go_be16 0 p) (\<lambda>encLen.
     if 2 + encLen > length p then Err (NewErr ''tls: bad ClientKeyExchange length'')
     else obind (go_slice 2 (2 + int encLen) p) (\<lambda>enc.
     let premaster = (take 48 (rnd @ replicate 48 0))[0 := tls10Version ! 0, 1 := tls10Version ! 1]
     in case rsa_decrypt priv enc of
          Some d \<Rightarrow>
            if length d = 48
            then obind (go_from 2 d) (\<lambda>rest.
                 obind (go_copy 2 rest premaster) (\<lambda>pm.
                 obind (go_index 0 d) (\<lambda>d0.
                 obind (go_index 1 d) (\<lambda>d1. Ok (pm[0 := d0, 1 := d1])))))
            else Ok premaster
        | None \<Rightarrow> Ok premaster)))"

definition master_secret :: "bytes \<Rightarrow> bytes \<Rightarrow> bytes \<Rightarrow> bytes" where
  "master_secret premaster client_random server_random =
     prf10 premaster (label ''master secret'') (client_random @ server_random) 48"

definition key_block :: "bytes \<Rightarrow> bytes \<Rightarrow> bytes \<Rightarrow> bytes" where
  "key_block master client_random server_random =
     prf10 master (label ''key expansion'') (server_random @ client_random)
       (2 * macLen + 2 * keyLen + 2 * ivLen)"

definition des_block :: "bytes \<Rightarrow> cipher option" where
  "des_block key = (case new_triple_des key of Ok k \<Rightarrow> Some k | _ \<Rightarrow> None)"

definition setup_keys :: "bytes \<Rightarrow> bytes \<Rightarrow> bytes \<Rightarrow> tls10_conn \<Rightarrow> tls10_conn" where
  "setup_keys master client_random server_random c =
     (let kb = key_block master client_random server_random;
          cKey = gslice (2 * macLen) (2 * macLen + keyLen) kb;
          sKey = gslice (2 * macLen + keyLen) (2 * macLen + 2 * keyLen) kb
      in c\<lparr>read_mac := gslice 0 macLen kb,
           write_mac := gslice macLen (2 * macLen) kb,
           read_iv := gslice (2 * macLen + 2 * keyLen) (2 * macLen + 2 * keyLen + ivLen) kb,
           write_iv := gslice (2 * macLen + 2 * keyLen + ivLen) (2 * macLen + 2 * keyLen + 2 * ivLen) kb,
           read_cipher := des_block cKey,
           write_cipher := des_block sKey\<rparr>)"

definition client_verify :: "bytes \<Rightarrow> bytes \<Rightarrow> bytes" where
  "client_verify master msgs = prf10 master (label ''client finished'') (finished_hash msgs) 12"

definition server_verify :: "bytes \<Rightarrow> bytes \<Rightarrow> bytes" where
  "server_verify master msgs = prf10 master (label ''server finished'') (finished_hash msgs) 12"

section \<open>The handshake\<close>

text \<open>
  What the server draws from \<open>crypto/rand\<close> for one connection: the server random, whose
  error is checked, and the bytes of the replacement premaster, whose error is not.
\<close>

record entropy =
  server_random :: "bytes outcome"
  premaster_random :: bytes

definition fail_unexpected :: "string \<Rightarrow> byte \<Rightarrow> bytes \<Rightarrow> 'a tls" where
  "fail_unexpected want ty body c = tbind (lift (unexpected want ty body c)) throw c"

text \<open>The first lines: the certificate for the client, and the text about it for the logs.\<close>

definition cert_text :: "certificate \<Rightarrow> string \<Rightarrow> string" where
  "cert_text cert source =
     (case cert_leaf cert of
        None \<Rightarrow> ''presented '' @ source
      | Some l \<Rightarrow> cat [''presented '', source, '': CN='', leaf_cn l, '', '', leaf_alg l,
                  '', valid '', leaf_not_before l, ''..'', leaf_not_after l])"

definition present_cert ::
  "server \<Rightarrow> region_hints option \<Rightarrow> (nat \<Rightarrow> string) \<Rightarrow> (certificate \<times> rsa_key) tls" where
  "present_cert s hs ago c =
     (case cert_for (srv_certs s) (default_region s) hs ago (client_ip (conn_remote c)) of
        (None, _) \<Rightarrow> (Panic, c)
      | (Some cert, source) \<Rightarrow>
          (case cert_key cert of
             OtherKey \<Rightarrow> (Err (NewErr ''tls: server key is not RSA''), c)
           | RSAKey priv \<Rightarrow> (Ok (cert, priv), c\<lparr>cert_info := cert_text cert source\<rparr>)))"

text \<open>\<open>fmt.Errorf("read ClientHello: %w", err)\<close>\<close>

definition wrap_err :: "string \<Rightarrow> 'a tls \<Rightarrow> 'a tls" where
  "wrap_err msg m c = (case m c of (Err e, c1) \<Rightarrow> (Err (WrapErr msg e), c1) | r \<Rightarrow> r)"

definition server_flight :: "bytes \<Rightarrow> bytes list \<Rightarrow> unit tls" where
  "server_flight rnd chain =
     tbind (write_handshake (build_server_hello rnd)) (\<lambda>_.
     tbind (write_handshake (build_certificate chain)) (\<lambda>_.
     write_handshake server_hello_done))"

definition client_key_exchange :: "rsa_key \<Rightarrow> bytes \<Rightarrow> bytes tls" where
  "client_key_exchange priv rnd =
     tbind read_record (\<lambda>(ty, body).
     tbind (lift (or_differs (ty \<noteq> ctHandshake \<or> length body < 4) 0 body hsClientKeyExchange)) (\<lambda>bad.
     if bad then fail_unexpected ''ClientKeyExchange'' ty body
     else tbind (add_transcript body) (\<lambda>_. lift (decrypt_premaster priv rnd body))))"

definition client_finished :: "bytes \<Rightarrow> unit tls" where
  "client_finished master =
     tbind read_record (\<lambda>(ty, body).
     if ty \<noteq> ctChangeCipherSpec then fail_unexpected ''ChangeCipherSpec'' ty body
     else tbind (modify (\<lambda>c. c\<lparr>read_active := True, read_seq := 0\<rparr>)) (\<lambda>_ c.
     let verify = client_verify master (transcript c) in
     tbind read_record (\<lambda>(ty, fin).
     tbind (lift (or_differs (ty \<noteq> ctHandshake \<or> length fin \<noteq> 16) 0 fin hsFinished)) (\<lambda>bad.
     if bad then fail_unexpected ''Finished'' ty fin
     else tbind (lift (go_slice 4 16 fin)) (\<lambda>got.
     if got \<noteq> verify then throw (NewErr ''tls: client Finished mismatch'')
     else add_transcript fin))) c))"

definition server_finished :: "bytes \<Rightarrow> unit tls" where
  "server_finished master =
     tbind (write_record ctChangeCipherSpec [1]) (\<lambda>_.
     tbind (modify (\<lambda>c. c\<lparr>write_active := True, write_seq := 0\<rparr>)) (\<lambda>_ c.
     write_record ctHandshake
       ([hsFinished, 0, 0, 12] @ server_verify master (transcript c)) c))"

definition handshake ::
  "server \<Rightarrow> region_hints option \<Rightarrow> (nat \<Rightarrow> string) \<Rightarrow> entropy \<Rightarrow> unit tls" where
  "handshake s hs ago ent =
     tbind (present_cert s hs ago) (\<lambda>(cert, priv).
     tbind (wrap_err ''read ClientHello'' read_client_hello) (\<lambda>client_rnd.
     tbind (lift (server_random ent)) (\<lambda>server_rnd.
     tbind (server_flight server_rnd (cert_chain cert)) (\<lambda>_.
     tbind (client_key_exchange priv (premaster_random ent)) (\<lambda>premaster.
     let master = master_secret premaster client_rnd server_rnd in
     tbind (modify (setup_keys master client_rnd server_rnd)) (\<lambda>_.
     tbind (client_finished master) (\<lambda>_.
     server_finished master)))))))"

section \<open>The steps without their run-time checks\<close>

lemma splice_self: "length d = 48 \<Longrightarrow> length r = 48 \<Longrightarrow>
  (splice_at 2 (drop 2 d) (r[0 := x, Suc 0 := y]))[0 := d ! 0, Suc 0 := d ! Suc 0] = d"
proof (rule nth_equalityI)
  assume d: "length d = 48" and r: "length r = 48"
  let ?l = "(splice_at 2 (drop 2 d) (r[0 := x, Suc 0 := y]))[0 := d ! 0, Suc 0 := d ! Suc 0]"
  show "length ?l = length d" using d r by (simp add: length_splice)
  fix i assume "i < length ?l"
  then have "i < 48" using d r by (simp add: length_splice)
  then show "?l ! i = d ! i"
    using d r by (cases i; cases "i - 1") (auto simp: splice_at_def nth_append nth_list_update)
qed

lemma fail_unexpected_Err: "\<exists>e. fail_unexpected want ty body c = (Err e, c)"
  using unexpected_no_panic [of want ty body c] by (auto simp: fail_unexpected_def throw_def)

lemma fail_unexpected_simps [simp]:
  "fst (fail_unexpected want ty body c) \<noteq> Panic" "snd (fail_unexpected want ty body c) = c"
  "fail_unexpected want ty body c \<noteq> (Ok x, c')"
proof -
  obtain e where "unexpected want ty body c = Ok e" using unexpected_no_panic by blast
  then show "fst (fail_unexpected want ty body c) \<noteq> Panic" "snd (fail_unexpected want ty body c) = c"
    "fail_unexpected want ty body c \<noteq> (Ok x, c')"
    by (simp_all add: fail_unexpected_def throw_def)
qed

lemma decrypt_premaster_eq:
  assumes "4 \<le> length cke"
  shows "decrypt_premaster priv rnd cke =
     (let p = drop 4 cke in
      if length p < 2 then Err (NewErr ''tls: short ClientKeyExchange'')
      else let encLen = be16 p 0 in
      if 2 + encLen > length p then Err (NewErr ''tls: bad ClientKeyExchange length'')
      else Ok (case rsa_decrypt priv (gslice 2 (2 + encLen) p) of
                 Some d \<Rightarrow> if length d = 48 then d
                           else (take 48 (rnd @ replicate 48 0))[0 := 3, 1 := 1]
               | None \<Rightarrow> (take 48 (rnd @ replicate 48 0))[0 := 3, 1 := 1]))"
proof -
  define p where "p = drop 4 cke"
  define pm where "pm = (take 48 (rnd @ replicate 48 0))[0 := 3, Suc 0 := 1 :: byte]"
  have lpm: "length pm = 48" by (simp add: pm_def)
  have p: "go_from 4 cke = Ok p" using go_from_Ok [of 4 cke] assms by (simp add: p_def)
  have e: "(take 48 (rnd @ replicate 48 0))[0 := tls10Version ! 0, 1 := tls10Version ! 1] = pm"
    "(take 48 (rnd @ replicate 48 0))[0 := 3, 1 := 1] = pm"
    by (simp_all add: tls10Version_def pm_def)
  have full: "obind (go_from 2 d) (\<lambda>rest. obind (go_copy 2 rest pm) (\<lambda>pm.
      obind (go_index 0 d) (\<lambda>d0. obind (go_index 1 d) (\<lambda>d1. Ok (pm[0 := d0, Suc 0 := d1]))))) = Ok d"
    if d: "length d = 48" for d
  proof -
    have "go_from 2 d = Ok (drop 2 d)" "go_copy 2 (drop 2 d) pm = Ok (splice_at 2 (drop 2 d) pm)"
      using go_from_Ok [of 2 d] go_copy_Ok [of 2 "drop 2 d" pm] d lpm by simp_all
    moreover have "go_index 0 d = Ok (d ! 0)" "go_index 1 d = Ok (d ! Suc 0)"
      using d by (auto simp: go_index_def)
    moreover have "(splice_at 2 (drop 2 d) pm)[0 := d ! 0, Suc 0 := d ! Suc 0] = d"
      unfolding pm_def using d by (intro splice_self) simp_all
    ultimately show ?thesis by simp
  qed
  have b: "go_be16 0 p = Ok (be16 p 0)" if "\<not> length p < 2"
    using go_be16_Ok [of 0 p] that by simp
  have s: "go_slice 2 (2 + int n) p = Ok (gslice 2 (2 + n) p)" if "\<not> 2 + n > length p" for n
    using go_slice_Ok [of 2 "2 + n" p] that by simp
  show ?thesis
    unfolding decrypt_premaster_def p obind.simps p_def [symmetric] Let_def e
    using full by (auto simp: b s split: option.split)
qed

lemma client_key_exchange_eq:
  "client_key_exchange priv rnd =
     tbind read_record (\<lambda>(ty, body).
     if ty \<noteq> ctHandshake \<or> length body < 4 \<or> body ! 0 \<noteq> hsClientKeyExchange
     then fail_unexpected ''ClientKeyExchange'' ty body
     else tbind (add_transcript body) (\<lambda>_. lift (decrypt_premaster priv rnd body)))"
proof -
  have "or_differs (ty \<noteq> ctHandshake \<or> length body < 4) 0 body hsClientKeyExchange =
      Ok (ty \<noteq> ctHandshake \<or> length body < 4 \<or> body ! 0 \<noteq> hsClientKeyExchange)" for ty body
    by (subst or_differs_first) auto
  then show ?thesis by (simp add: client_key_exchange_def)
qed

lemma client_finished_eq:
  "client_finished master =
     tbind read_record (\<lambda>(ty, body).
     if ty \<noteq> ctChangeCipherSpec then fail_unexpected ''ChangeCipherSpec'' ty body
     else tbind (modify (\<lambda>c. c\<lparr>read_active := True, read_seq := 0\<rparr>)) (\<lambda>_ c.
     let verify = client_verify master (transcript c) in
     tbind read_record (\<lambda>(ty, fin).
     if ty \<noteq> ctHandshake \<or> length fin \<noteq> 16 \<or> fin ! 0 \<noteq> hsFinished
     then fail_unexpected ''Finished'' ty fin
     else if gslice 4 16 fin \<noteq> verify
     then throw (NewErr ''tls: client Finished mismatch'')
     else add_transcript fin) c))"
proof -
  have e: "or_differs (ty \<noteq> ctHandshake \<or> length fin \<noteq> 16) 0 fin hsFinished =
      Ok (ty \<noteq> ctHandshake \<or> length fin \<noteq> 16 \<or> fin ! 0 \<noteq> hsFinished)" for ty fin
    by (subst or_differs_first) auto
  have "(if ty \<noteq> ctHandshake \<or> length fin \<noteq> 16 \<or> fin ! 0 \<noteq> hsFinished then m
      else tbind (lift (go_slice 4 16 fin)) f) =
    (if ty \<noteq> ctHandshake \<or> length fin \<noteq> 16 \<or> fin ! 0 \<noteq> hsFinished then m
      else f (gslice 4 16 fin))" for ty fin and m :: "unit tls" and f
    using go_slice_Ok [of 4 16 fin] by simp
  then show ?thesis by (simp only: client_finished_def e lift_simps tbind_simps)
qed

section \<open>Messages and keys\<close>

lemma length_put_hs_len [simp]: "length (put_hs_len msg) = length msg"
  by (simp add: put_hs_len_def Let_def)

lemma put_hs_len_shape:
  "put_hs_len ([t, 0, 0, 0] @ body) = [t] @ put24 (length body) @ body"
  by (simp add: put_hs_len_def Let_def put24_def numeral_2_eq_2 numeral_3_eq_3)

lemma length_label [simp]: "length (label s) = length s"
  by (simp add: label_def bytes_of_def)

lemma length_key_block [simp]: "length (key_block m cr sr) = 104"
  by (simp add: key_block_def record_sizes)

lemma des_block_24 [simp]: "length k = 24 \<Longrightarrow> des_block k = Some k"
  by (simp add: des_block_def new_triple_des_def)

text \<open>The six parts of the key block, named by who writes with them.\<close>

definition client_mac :: "bytes \<Rightarrow> bytes" where "client_mac kb = gslice 0 20 kb"
definition server_mac :: "bytes \<Rightarrow> bytes" where "server_mac kb = gslice 20 40 kb"
definition client_key :: "bytes \<Rightarrow> bytes" where "client_key kb = gslice 40 64 kb"
definition server_key :: "bytes \<Rightarrow> bytes" where "server_key kb = gslice 64 88 kb"
definition client_iv :: "bytes \<Rightarrow> bytes" where "client_iv kb = gslice 88 96 kb"
definition server_iv :: "bytes \<Rightarrow> bytes" where "server_iv kb = gslice 96 104 kb"

lemmas key_parts = client_mac_def server_mac_def client_key_def server_key_def
  client_iv_def server_iv_def

lemma length_key_parts [simp]:
  "length kb = 104 \<Longrightarrow> length (client_key kb) = 24" "length kb = 104 \<Longrightarrow> length (server_key kb) = 24"
  "length kb = 104 \<Longrightarrow> length (client_iv kb) = 8" "length kb = 104 \<Longrightarrow> length (server_iv kb) = 8"
  by (simp_all add: key_parts)

lemma setup_keys_parts:
  "setup_keys m cr sr c = (let kb = key_block m cr sr in
     c\<lparr>read_mac := client_mac kb, write_mac := server_mac kb, read_iv := client_iv kb,
       write_iv := server_iv kb, read_cipher := Some (client_key kb),
       write_cipher := Some (server_key kb)\<rparr>)"
proof -
  have "length (gslice 40 64 (key_block m cr sr)) = 24" "length (gslice 64 88 (key_block m cr sr)) = 24"
    by simp_all
  then show ?thesis
    by (simp add: setup_keys_def Let_def record_sizes key_parts)
qed

text \<open>
  Both directions keyed, whether or not they are active yet: the invariant between the
  key exchange and the end of the connection.
\<close>

definition keyed :: "tls10_conn \<Rightarrow> bool" where
  "keyed c \<longleftrightarrow> (\<exists>k. read_cipher c = Some k) \<and> length (read_iv c) = 8 \<and>
     (\<exists>k. write_cipher c = Some k) \<and> length (write_iv c) = 8"

lemma keyed_ok: "keyed c \<Longrightarrow> conn_ok c"
  by (auto simp: keyed_def conn_ok_def)

lemma keyed_setup: "keyed (setup_keys m cr sr c)"
  by (simp add: keyed_def setup_keys_parts Let_def)

definition safe_keyed :: "'a tls \<Rightarrow> bool" where
  "safe_keyed m \<longleftrightarrow> (\<forall>c. keyed c \<longrightarrow> fst (m c) \<noteq> Panic \<and> keyed (snd (m c)))"

named_theorems keyed_intros \<open>operations that do not panic once the connection is keyed\<close>

lemma safe_keyed_ret [keyed_intros]: "safe_keyed (ret x)" "safe_keyed (throw e)"
  by (simp_all add: safe_keyed_def ret_def throw_def)

lemma safe_keyed_fail [keyed_intros]: "safe_keyed (fail_unexpected w t b)"
  by (simp add: safe_keyed_def)

lemma safe_keyed_modify [keyed_intros]: "(\<And>c. keyed c \<Longrightarrow> keyed (f c)) \<Longrightarrow> safe_keyed (modify f)"
  by (simp add: safe_keyed_def modify_def)

lemma safe_keyed_tbind [keyed_intros]:
  "safe_keyed m \<Longrightarrow> (\<And>x. safe_keyed (f x)) \<Longrightarrow> safe_keyed (tbind m f)"
proof (unfold safe_keyed_def, intro allI impI)
  fix c assume m: "\<forall>c. keyed c \<longrightarrow> fst (m c) \<noteq> Panic \<and> keyed (snd (m c))"
    and f: "\<And>x. \<forall>c. keyed c \<longrightarrow> fst (f x c) \<noteq> Panic \<and> keyed (snd (f x c))" and "keyed c"
  then have "fst (m c) \<noteq> Panic \<and> keyed (snd (m c))" by blast
  with f show "fst (tbind m f c) \<noteq> Panic \<and> keyed (snd (tbind m f c))"
    by (cases "m c"; cases "fst (m c)") (simp_all add: tbind_def)
qed

lemma safe_keyed_cond [keyed_intros]:
  "safe_keyed m \<Longrightarrow> safe_keyed n \<Longrightarrow> safe_keyed (if b then m else n)"
  by simp

lemma safe_keyed_prod [keyed_intros]:
  "(\<And>a b. safe_keyed (f a b)) \<Longrightarrow> safe_keyed (case x of (a, b) \<Rightarrow> f a b)"
  by (cases x) simp

lemma safe_keyed_state:
  "(\<And>x. safe_keyed (f x)) \<Longrightarrow> safe_keyed (\<lambda>c. f (g c) c)"
  by (simp add: safe_keyed_def)

lemma keyed_decrypt: "keeps keyed (decrypt t frag)"
  unfolding keeps_def decrypt_eq
  by (auto simp: keyed_def Let_def record_sizes split: option.splits outcome.splits)

lemma keyed_read_record [keyed_intros]: "safe_keyed read_record"
proof -
  have "keeps keyed (read_full n)" for n by (simp add: keeps_def keyed_def read_full_def)
  then have "keeps keyed read_record"
    unfolding read_record_def Let_def
    by (intro keeps_tbind keeps_cond keeps_if keeps_ret keeps_throw keyed_decrypt)
  then show ?thesis
    using safeD [OF safe_read_record keyed_ok] by (simp add: safe_keyed_def keeps_def)
qed

lemma keyed_write_record [keyed_intros]: "safe_keyed (write_record t m)"
proof -
  have "keeps keyed (seal_payload t m)"
  proof (unfold keeps_def, intro allI impI)
    fix c assume "keyed c"
    then obtain k where k: "write_cipher c = Some k" "length (write_iv c) = 8" by (auto simp: keyed_def)
    have "8 \<le> length (sealed k (write_iv c) (write_mac c) (write_seq c) t m)"
      using length_sealed(1) [OF k(2)] by simp
    with \<open>keyed c\<close> seal_payload_active [OF _ k] show "keyed (snd (seal_payload t m c))"
      by (cases "write_active c") (simp_all add: seal_payload_inactive keyed_def last_block_def)
  qed
  moreover have "keeps keyed (conn_write b)" for b
    by (simp add: keeps_def keyed_def conn_write_def split: list.split option.split)
  ultimately have "keeps keyed (write_record t m)"
    unfolding write_record_def by (intro keeps_tbind)
  then show ?thesis
    using safeD [OF safe_write_record keyed_ok] by (simp add: safe_keyed_def keeps_def)
qed

lemma keyed_add_transcript [keyed_intros]: "safe_keyed (add_transcript b)"
  unfolding add_transcript_def by (intro keyed_intros) (simp add: keyed_def)

lemma keyed_client_finished [keyed_intros]: "safe_keyed (client_finished m)"
  unfolding client_finished_eq Let_def
proof (intro safe_keyed_tbind safe_keyed_prod safe_keyed_cond keyed_intros(2,3) keyed_read_record)
  fix body
  show "safe_keyed (modify (\<lambda>c. c\<lparr>read_active := True, read_seq := 0\<rparr>))"
    by (intro keyed_intros) (simp add: keyed_def)
  fix x
  let ?f = "\<lambda>v. tbind read_record (\<lambda>(ty, fin).
     if ty \<noteq> ctHandshake \<or> length fin \<noteq> 16 \<or> fin ! 0 \<noteq> hsFinished
     then fail_unexpected ''Finished'' ty fin
     else if gslice 4 16 fin \<noteq> v then throw (NewErr ''tls: client Finished mismatch'')
     else add_transcript fin)"
  have "safe_keyed (?f v)" for v by (intro keyed_intros)
  from safe_keyed_state [of ?f "\<lambda>c. client_verify m (transcript c)", OF this]
  show "safe_keyed (\<lambda>c. ?f (client_verify m (transcript c)) c)" .
qed

lemma keyed_server_finished [keyed_intros]: "safe_keyed (server_finished m)"
  unfolding server_finished_def
proof (intro safe_keyed_tbind keyed_write_record)
  show "safe_keyed (modify (\<lambda>c. c\<lparr>write_active := True, write_seq := 0\<rparr>))"
    by (intro keyed_intros) (simp add: keyed_def)
  fix x
  let ?f = "\<lambda>v. write_record ctHandshake ([hsFinished, 0, 0, 12] @ v)"
  have "safe_keyed (?f v)" for v by (intro keyed_intros)
  from safe_keyed_state [of ?f "\<lambda>c. server_verify m (transcript c)", OF this]
  show "safe_keyed (\<lambda>c. ?f (server_verify m (transcript c)) c)" .
qed

section \<open>Panics\<close>

lemma safe_enter_keyed:
  "safe_keyed n \<Longrightarrow> (\<And>c. keyed (f c)) \<Longrightarrow> safe (tbind (modify f) (\<lambda>_. n))"
  using keyed_ok by (auto simp: safe_def keeps_def safe_keyed_def)

lemma safe_fail [safe_intros]: "safe (fail_unexpected w t b)"
  by (simp add: safe_def keeps_def)

lemma safe_add_transcript [safe_intros]: "safe (add_transcript b)"
  unfolding add_transcript_def by (intro safe_intros) (simp add: conn_ok_def)

lemma decrypt_premaster_total: "4 \<le> length cke \<Longrightarrow> decrypt_premaster priv rnd cke \<noteq> Panic"
  by (simp add: decrypt_premaster_eq Let_def)

lemma safe_client_key_exchange: "safe (client_key_exchange priv rnd)"
proof -
  have "safe (if ty \<noteq> ctHandshake \<or> length body < 4 \<or> body ! 0 \<noteq> hsClientKeyExchange
      then fail_unexpected ''ClientKeyExchange'' ty body
      else tbind (add_transcript body) (\<lambda>_. lift (decrypt_premaster priv rnd body)))" for ty body
    by (auto intro!: safe_tbind safe_lift safe_fail safe_add_transcript decrypt_premaster_total)
  then show ?thesis
    unfolding client_key_exchange_eq by (intro safe_tbind safe_read_record safe_prod)
qed

definition after_hello :: "server \<Rightarrow> entropy \<Rightarrow> certificate \<Rightarrow> rsa_key \<Rightarrow> bytes \<Rightarrow> unit tls" where
  "after_hello s ent cert priv client_rnd =
     tbind (lift (server_random ent)) (\<lambda>server_rnd.
     tbind (server_flight server_rnd (cert_chain cert)) (\<lambda>_.
     tbind (client_key_exchange priv (premaster_random ent)) (\<lambda>premaster.
     let master = master_secret premaster client_rnd server_rnd in
     tbind (modify (setup_keys master client_rnd server_rnd)) (\<lambda>_.
     tbind (client_finished master) (\<lambda>_.
     server_finished master)))))"

lemma handshake_after_hello:
  "handshake s hs ago ent =
     tbind (present_cert s hs ago) (\<lambda>(cert, priv).
     tbind (wrap_err ''read ClientHello'' read_client_hello) (after_hello s ent cert priv))"
  by (simp add: handshake_def after_hello_def [abs_def])

lemma safe_after_hello:
  assumes "server_random ent \<noteq> Panic"
  shows "safe (after_hello s ent cert priv cr)"
  unfolding after_hello_def server_flight_def Let_def
  by (intro safe_tbind safe_enter_keyed safe_lift safe_client_key_exchange
        safe_write_handshake keyed_setup safe_keyed_tbind keyed_client_finished
        keyed_server_finished assms)

lemma wrap_err_panic: "fst (wrap_err msg m c) = Panic \<longleftrightarrow> fst (m c) = Panic"
  by (auto simp: wrap_err_def split: prod.splits outcome.splits)

lemma wrap_err_snd: "snd (wrap_err msg m c) = snd (m c)"
  by (auto simp: wrap_err_def split: prod.splits outcome.splits)

lemma wrap_err_Ok: "wrap_err msg m c = (Ok x, c') \<longleftrightarrow> m c = (Ok x, c')"
  by (auto simp: wrap_err_def split: prod.splits outcome.splits)

lemma handshake_panic:
  assumes "server_random ent \<noteq> Panic" and "conn_ok c" and "\<not> read_active c"
  shows "fst (handshake s hs ago ent c) = Panic \<longleftrightarrow>
    (case cert_for (srv_certs s) (default_region s) hs ago (client_ip (conn_remote c)) of
       (None, _) \<Rightarrow> True
     | (Some cert, source) \<Rightarrow>
         cert_key cert \<noteq> OtherKey \<and> short_hello (conn_in c))"
proof -
  obtain co source where cf: "cert_for (srv_certs s) (default_region s) hs ago (client_ip (conn_remote c)) = (co, source)"
    by fastforce
  show ?thesis
  proof (cases co)
    case None
    then show ?thesis using cf by (simp add: handshake_after_hello tbind_def present_cert_def)
  next
    case (Some cert)
    show ?thesis
    proof (cases "cert_key cert")
      case OtherKey
      then show ?thesis using cf Some by (simp add: handshake_after_hello tbind_def present_cert_def)
    next
      case (RSAKey priv)
      let ?c1 = "c\<lparr>cert_info := cert_text cert source\<rparr>"
      have ok: "conn_ok ?c1" using assms(2) by (simp add: conn_ok_def)
      have p: "present_cert s hs ago c = (Ok (cert, priv), ?c1)"
        using cf Some RSAKey by (simp add: present_cert_def)
      have "fst (after_hello s ent cert priv cr c2) \<noteq> Panic"
        if "read_client_hello ?c1 = (Ok cr, c2)" for cr c2
        using safeD [OF safe_after_hello [OF assms(1)]] keepsD [OF read_client_hello_ok ok] that
        by simp
      then have "fst (handshake s hs ago ent c) = Panic \<longleftrightarrow> fst (read_client_hello ?c1) = Panic"
        unfolding handshake_after_hello tbind_OkI [where m = "present_cert s hs ago", OF p] prod.case
        by (auto simp: tbind_fst_Panic wrap_err_panic wrap_err_Ok)
      then show ?thesis using cf Some RSAKey hello_panic_iff [OF ok] assms(3) by simp
    qed
  qed
qed

section \<open>What is sent before the Finished\<close>

lemma keeps_fail: "keeps P (fail_unexpected w t b)"
  by (simp add: keeps_def)

lemma keeps_wrap: "keeps P m \<Longrightarrow> keeps P (wrap_err msg m)"
  by (simp add: keeps_def wrap_err_snd)

text \<open>Invariants about the records sent and the write side, kept by everything that only reads.\<close>

definition sent_only :: "byte set \<Rightarrow> tls10_conn \<Rightarrow> bool" where
  "sent_only ts c \<longleftrightarrow> (\<forall>b \<in> set (conn_sent c). b \<noteq> [] \<and> hd b \<in> ts)"

lemma sent_only_read [keeps_intros]: "keeps (sent_only ts) read_record"
  by (rule keeps_read_record) (simp_all add: sent_only_def)

lemma sent_only_hello [keeps_intros]: "keeps (sent_only ts) read_client_hello"
  by (rule keeps_read_client_hello) (simp_all add: sent_only_def)

lemma sent_only_present [keeps_intros]: "keeps (sent_only ts) (present_cert s hs ago)"
  by (simp add: keeps_def present_cert_def sent_only_def split: prod.split option.split private_key.split)

lemma conn_sent_seal: "conn_sent (snd (seal_payload t m c)) = conn_sent c"
proof (cases "write_active c")
  case True
  then show ?thesis
    unfolding seal_payload_eq Let_def
    by (simp split: option.split outcome.split split del: if_split)
qed (simp add: seal_payload_inactive)

lemma sent_only_write [keeps_intros]: "t \<in> ts \<Longrightarrow> keeps (sent_only ts) (write_record t m)"
proof -
  assume t: "t \<in> ts"
  have "keeps (sent_only ts) (seal_payload t m)"
    by (simp add: keeps_def sent_only_def conn_sent_seal)
  moreover have "keeps (sent_only ts) (conn_write (frame t p))" for p
    using t by (auto simp: keeps_def conn_write_def sent_only_def frame_def split: list.split option.split)
  ultimately show ?thesis unfolding write_record_def by (intro keeps_tbind)
qed

lemma sent_only_handshake_msg [keeps_intros]:
  "ctHandshake \<in> ts \<Longrightarrow> keeps (sent_only ts) (write_handshake m)"
  unfolding write_handshake_bind
  by (intro keeps_tbind keeps_modify sent_only_write) (simp_all add: sent_only_def)

lemma sent_only_flight [keeps_intros]:
  "ctHandshake \<in> ts \<Longrightarrow> keeps (sent_only ts) (server_flight r ch)"
  unfolding server_flight_def by (intro keeps_tbind sent_only_handshake_msg)

lemma sent_only_transcript [keeps_intros]: "keeps (sent_only ts) (add_transcript b)"
  unfolding add_transcript_def by (intro keeps_intros) (simp add: sent_only_def)

lemma sent_only_cke [keeps_intros]: "keeps (sent_only ts) (client_key_exchange priv rnd)"
  unfolding client_key_exchange_eq
  by (intro keeps_tbind keeps_prod keeps_cond keeps_fail keeps_lift sent_only_read sent_only_transcript)

lemma keeps_state: "(\<And>x. keeps P (f x)) \<Longrightarrow> keeps P (\<lambda>c. f (g c) c)"
  by (simp add: keeps_def)

lemma sent_only_cfin [keeps_intros]: "keeps (sent_only ts) (client_finished m)"
proof -
  let ?f = "\<lambda>v. tbind read_record (\<lambda>(ty, fin).
     if ty \<noteq> ctHandshake \<or> length fin \<noteq> 16 \<or> fin ! 0 \<noteq> hsFinished
     then fail_unexpected ''Finished'' ty fin
     else if gslice 4 16 fin \<noteq> v then throw (NewErr ''tls: client Finished mismatch'')
     else add_transcript fin)"
  have "keeps (sent_only ts) (?f v)" for v
    by (intro keeps_tbind keeps_prod keeps_cond keeps_fail keeps_throw sent_only_read sent_only_transcript)
  from keeps_state [of "sent_only ts" ?f "\<lambda>c. client_verify m (transcript c)", OF this]
  have "keeps (sent_only ts) (\<lambda>c. ?f (client_verify m (transcript c)) c)" .
  then show ?thesis
    unfolding client_finished_eq Let_def
    by (intro keeps_tbind keeps_prod keeps_cond keeps_fail sent_only_read keeps_modify)
       (simp_all add: sent_only_def)
qed

lemma sent_only_sfin [keeps_intros]:
  assumes "ctHandshake \<in> ts" and "ctChangeCipherSpec \<in> ts"
  shows "keeps (sent_only ts) (server_finished m)"
proof -
  let ?f = "\<lambda>v. write_record ctHandshake ([hsFinished, 0, 0, 12] @ v)"
  have "keeps (sent_only ts) (?f v)" for v by (rule sent_only_write [OF assms(1)])
  from keeps_state [of "sent_only ts" ?f "\<lambda>c. server_verify m (transcript c)", OF this]
  have "keeps (sent_only ts) (\<lambda>c. ?f (server_verify m (transcript c)) c)" .
  then show ?thesis
    unfolding server_finished_def
    by (intro keeps_tbind sent_only_write assms keeps_modify) (simp_all add: sent_only_def)
qed

section \<open>A client that keeps to the protocol\<close>

definition flight :: "bytes \<Rightarrow> bytes list \<Rightarrow> bytes" where
  "flight sr chain = build_server_hello sr @ build_certificate chain @ server_hello_done"

definition flight_records :: "bytes \<Rightarrow> bytes list \<Rightarrow> bytes list" where
  "flight_records sr chain =
     map (frame ctHandshake) [build_server_hello sr, build_certificate chain, server_hello_done]"

lemma write_record_plain:
  "\<not> write_active c \<Longrightarrow> conn_writes c = [] \<Longrightarrow>
   write_record t m c = (Ok (), c\<lparr>conn_sent := conn_sent c @ [frame t m]\<rparr>)"
  by (simp add: write_record_def tbind_def seal_payload_inactive conn_write_def)

lemma write_handshake_plain:
  "\<not> write_active c \<Longrightarrow> conn_writes c = [] \<Longrightarrow>
   write_handshake m c = (Ok (), c\<lparr>transcript := transcript c @ m,
     conn_sent := conn_sent c @ [frame ctHandshake m]\<rparr>)"
  by (simp add: write_handshake_def write_record_plain)

lemma server_flight_plain:
  "\<not> write_active c \<Longrightarrow> conn_writes c = [] \<Longrightarrow>
   server_flight sr chain c = (Ok (), c\<lparr>transcript := transcript c @ flight sr chain,
     conn_sent := conn_sent c @ flight_records sr chain\<rparr>)"
  by (simp add: server_flight_def tbind_def write_handshake_plain flight_def flight_records_def)

lemma client_key_exchange_plain:
  assumes "\<not> read_active c" and "conn_in c = frame ctHandshake cke @ rest"
    and "length cke \<le> maxPlaintext" and "4 \<le> length cke" and "cke ! 0 = hsClientKeyExchange"
    and "decrypt_premaster priv rnd cke = Ok pm"
  shows "client_key_exchange priv rnd c =
    (Ok pm, c\<lparr>conn_in := rest, transcript := transcript c @ cke\<rparr>)"
proof -
  have r: "read_record c = (Ok (ctHandshake, cke), c\<lparr>conn_in := rest\<rparr>)"
    using read_record_frame [OF assms(2)] assms(1,3) by (simp add: maxPlaintext_def)
  show ?thesis
    unfolding client_key_exchange_eq tbind_OkI [where m = read_record, OF r]
    using assms(4,5,6) by (simp add: ret_def)
qed

definition client_fin :: "bytes \<Rightarrow> bytes \<Rightarrow> bytes" where
  "client_fin master msgs = [hsFinished, 0, 0, 12] @ client_verify master msgs"

definition server_fin :: "bytes \<Rightarrow> bytes \<Rightarrow> bytes" where
  "server_fin master msgs = [hsFinished, 0, 0, 12] @ server_verify master msgs"

lemma length_client_verify [simp]: "length (client_verify m t) = 12" "length (server_verify m t) = 12"
  by (simp_all add: client_verify_def server_verify_def)

lemma client_fin_shape:
  "length (client_fin m t) = 16" "client_fin m t ! 0 = hsFinished"
  "gslice 4 16 (client_fin m t) = client_verify m t"
  by (simp_all add: client_fin_def gslice_def)

lemma client_finished_plain:
  assumes "\<not> read_active c" and "read_cipher c = Some k" and "length (read_iv c) = 8"
    and enc: "enc = sealed k (read_iv c) (read_mac c) 0 ctHandshake (client_fin m (transcript c))"
    and "conn_in c = frame ctChangeCipherSpec [1] @ frame ctHandshake enc @ rest"
  shows "client_finished m c =
    (Ok (), c\<lparr>conn_in := rest, read_active := True, read_seq := 1, read_iv := last_block enc,
       transcript := transcript c @ client_fin m (transcript c)\<rparr>)"
proof -
  let ?in = "frame ctHandshake enc @ rest"
  define fin where "fin = client_fin m (transcript c)"
  define c1 where "c1 = c\<lparr>conn_in := ?in, read_active := True, read_seq := 0\<rparr>"
  define c2 where "c2 = c\<lparr>conn_in := rest, read_active := True, read_seq := 1, read_iv := last_block enc\<rparr>"
  have r1: "read_record c = (Ok (ctChangeCipherSpec, [1]), c\<lparr>conn_in := ?in\<rparr>)"
    using read_record_frame [OF assms(5)] assms(1) by simp
  have e: "enc = sealed k (read_iv c) (read_mac c) 0 ctHandshake fin" by (simp add: enc fin_def)
  have l: "length enc \<le> 2 ^ 14 + 2048"
    unfolding e by (rule frame_length_bound [OF _ assms(3)]) (simp add: fin_def client_fin_shape maxPlaintext_def)
  have "decrypt ctHandshake enc (c1\<lparr>conn_in := rest\<rparr>) = (Ok fin, c2)"
    using decrypt_sealed [of "c1\<lparr>conn_in := rest\<rparr>" k enc ctHandshake fin] assms(2,3) e
    by (simp add: c1_def c2_def)
  then have r2: "read_record c1 = (Ok (ctHandshake, fin), c2)"
    using read_record_frame [of c1 ctHandshake enc rest] l by (simp add: c1_def tbind_def ret_def)
  have t: "transcript c1 = transcript c" by (simp add: c1_def)
  have g: "(ctChangeCipherSpec \<noteq> ctChangeCipherSpec) = False"
    "(ctHandshake \<noteq> ctHandshake \<or> length fin \<noteq> 16 \<or> fin ! 0 \<noteq> hsFinished) = False"
    "gslice 4 16 fin = client_verify m (transcript c)"
    by (simp_all add: fin_def client_fin_shape)
  have c1: "(c\<lparr>conn_in := ?in\<rparr>)\<lparr>read_active := True, read_seq := 0\<rparr> = c1" by (simp add: c1_def)
  show ?thesis
    unfolding client_finished_eq tbind_OkI [where m = read_record, OF r1] prod.case g(1) if_False
      tbind_simps Let_def c1 t tbind_OkI [where m = read_record and c = c1, OF r2] g(2,3)
    by (simp add: add_transcript_def modify_def c2_def fin_def)
qed

lemma server_finished_plain:
  assumes "\<not> write_active c" and "write_cipher c = Some k" and "length (write_iv c) = 8"
    and "conn_writes c = []"
    and enc: "enc = sealed k (write_iv c) (write_mac c) 0 ctHandshake (server_fin m (transcript c))"
  shows "server_finished m c =
    (Ok (), c\<lparr>conn_sent := conn_sent c @ [frame ctChangeCipherSpec [1], frame ctHandshake enc],
       write_active := True, write_seq := 1, write_iv := last_block enc\<rparr>)"
proof -
  let ?c1 = "c\<lparr>conn_sent := conn_sent c @ [frame ctChangeCipherSpec [1]], write_active := True, write_seq := 0\<rparr>"
  have w1: "write_record ctChangeCipherSpec [1] c =
      (Ok (), c\<lparr>conn_sent := conn_sent c @ [frame ctChangeCipherSpec [1]]\<rparr>)"
    by (rule write_record_plain [OF assms(1,4)])
  have "seal_payload ctHandshake (server_fin m (transcript c)) ?c1 =
      (Ok enc, ?c1\<lparr>write_iv := last_block enc, write_seq := 1\<rparr>)"
    using seal_payload_active [of ?c1 k ctHandshake "server_fin m (transcript c)"] assms(2,3) enc by simp
  then show ?thesis
    unfolding server_finished_def tbind_OkI [where m = "write_record ctChangeCipherSpec [1]", OF w1]
    using assms(4) by (simp add: write_record_def tbind_def modify_def conn_write_def server_fin_def)
qed

text \<open>
  The whole input of a client that sends an SSLv2-compatible hello, an encrypted premaster,
  its ChangeCipherSpec and its Finished; and what both sides compute from it.
\<close>

definition cke_msg :: "bytes \<Rightarrow> bytes" where
  "cke_msg enc = put_hs_len ([hsClientKeyExchange, 0, 0, 0] @ put16 (length enc) @ enc)"

definition session_master :: "bytes \<Rightarrow> bytes \<Rightarrow> bytes \<Rightarrow> bytes" where
  "session_master pm ch sr = master_secret pm (pad32 ch) sr"

definition session_block :: "bytes \<Rightarrow> bytes \<Rightarrow> bytes \<Rightarrow> bytes" where
  "session_block pm ch sr = key_block (session_master pm ch sr) (pad32 ch) sr"

definition client_sealed_fin :: "bytes \<Rightarrow> bytes \<Rightarrow> bytes \<Rightarrow> bytes \<Rightarrow> bytes" where
  "client_sealed_fin pm ch sr msgs =
     (let kb = session_block pm ch sr
      in sealed (client_key kb) (client_iv kb) (client_mac kb) 0 ctHandshake
           (client_fin (session_master pm ch sr) msgs))"

definition server_sealed_fin :: "bytes \<Rightarrow> bytes \<Rightarrow> bytes \<Rightarrow> bytes \<Rightarrow> bytes" where
  "server_sealed_fin pm ch sr msgs =
     (let kb = session_block pm ch sr; m = session_master pm ch sr
      in sealed (server_key kb) (server_iv kb) (server_mac kb) 0 ctHandshake
           (server_fin m (msgs @ client_fin m msgs)))"

definition client_input :: "bytes \<Rightarrow> bytes \<Rightarrow> bytes \<Rightarrow> bytes \<Rightarrow> bytes \<Rightarrow> bytes list \<Rightarrow> bytes" where
  "client_input hello enc pm ch sr chain =
     v2_hello hello @ frame ctHandshake (cke_msg enc) @ frame ctChangeCipherSpec [1]
       @ frame ctHandshake (client_sealed_fin pm ch sr (hello @ flight sr chain @ cke_msg enc))"

lemma cke_msg_shape:
  "cke_msg enc = [hsClientKeyExchange] @ put24 (2 + length enc) @ put16 (length enc) @ enc"
  unfolding cke_msg_def put_hs_len_shape by simp

lemma cke_msg_parts:
  "length (cke_msg enc) = 6 + length enc" "cke_msg enc ! 0 = hsClientKeyExchange"
  "drop 4 (cke_msg enc) = put16 (length enc) @ enc"
  by (simp_all add: cke_msg_shape put24_def)

lemma decrypt_premaster_cke:
  assumes "length enc < 65536" and "rsa_decrypt priv enc = Some pm" and "length pm = 48"
    and "length rnd = 48"
  shows "decrypt_premaster priv rnd (cke_msg enc) = Ok pm"
proof -
  have b: "be16 (put16 (length enc) @ enc) 0 = length enc"
    using be16_append_put16 [of "[]" "length enc" enc] assms(1) by simp
  have g: "gslice 2 (2 + length enc) (put16 (length enc) @ enc) = enc"
    by (simp add: gslice_def put16_def)
  show ?thesis
    using assms(2,3)
    by (simp add: decrypt_premaster_eq Let_def cke_msg_parts b g [simplified])
qed

text \<open>The state the handshake ends in.\<close>

definition established ::
  "bytes \<Rightarrow> bytes \<Rightarrow> bytes \<Rightarrow> bytes list \<Rightarrow> bytes \<Rightarrow> bytes \<Rightarrow> tls10_conn \<Rightarrow> tls10_conn" where
  "established pm ch sr chain msgs rest c =
     (let kb = session_block pm ch sr
      in c\<lparr>conn_in := rest,
           conn_sent := conn_sent c @ flight_records sr chain @
             [frame ctChangeCipherSpec [1], frame ctHandshake (server_sealed_fin pm ch sr msgs)],
           transcript := msgs @ client_fin (session_master pm ch sr) msgs,
           read_active := True, write_active := True, read_seq := 1, write_seq := 1,
           read_cipher := Some (client_key kb), write_cipher := Some (server_key kb),
           read_iv := last_block (client_sealed_fin pm ch sr msgs),
           write_iv := last_block (server_sealed_fin pm ch sr msgs),
           read_mac := client_mac kb, write_mac := server_mac kb\<rparr>)"

lemma after_hello_completes:
  assumes "server_random ent = Ok sr" and "length (premaster_random ent) = 48"
    and "length enc \<le> 2048" and "rsa_decrypt priv enc = Some pm" and "length pm = 48"
    and "\<not> read_active c" and "\<not> write_active c" and "conn_writes c = []"
    and "transcript c = hello" and msgs: "msgs = hello @ flight sr (cert_chain cert) @ cke_msg enc"
    and inp: "conn_in c = frame ctHandshake (cke_msg enc) @ frame ctChangeCipherSpec [1]
       @ frame ctHandshake (client_sealed_fin pm ch sr msgs) @ rest"
  shows "after_hello s ent cert priv (pad32 ch) c =
    (Ok (), established pm ch sr (cert_chain cert) msgs rest c)"
proof -
  define chain where "chain = cert_chain cert"
  define m where "m = session_master pm ch sr"
  define kb where "kb = session_block pm ch sr"
  define c1 where "c1 = c\<lparr>transcript := hello @ flight sr chain, conn_sent := conn_sent c @ flight_records sr chain\<rparr>"
  define in2 where "in2 = frame ctChangeCipherSpec [1] @ frame ctHandshake (client_sealed_fin pm ch sr msgs) @ rest"
  define c2 where "c2 = c1\<lparr>conn_in := in2, transcript := msgs\<rparr>"
  define c3 where "c3 = setup_keys m (pad32 ch) sr c2"
  define efin where "efin = client_sealed_fin pm ch sr msgs"
  define c4 where "c4 = c3\<lparr>conn_in := rest, read_active := True, read_seq := 1, read_iv := last_block efin,
    transcript := msgs @ client_fin m msgs\<rparr>"
  have kbl: "length kb = 104" by (simp add: kb_def session_block_def)
  have s1: "server_flight sr chain c = (Ok (), c1)"
    using server_flight_plain [OF assms(7,8)] assms(9) by (simp add: c1_def)
  have s2: "client_key_exchange priv (premaster_random ent) c1 = (Ok pm, c2)"
  proof -
    have "client_key_exchange priv (premaster_random ent) c1 =
        (Ok pm, c1\<lparr>conn_in := in2, transcript := transcript c1 @ cke_msg enc\<rparr>)"
    proof (rule client_key_exchange_plain)
      show "decrypt_premaster priv (premaster_random ent) (cke_msg enc) = Ok pm"
        by (rule decrypt_premaster_cke [OF _ assms(4,5,2)]) (use assms(3) in simp)
      show "\<not> read_active c1" using assms(6) by (simp add: c1_def)
      show "conn_in c1 = frame ctHandshake (cke_msg enc) @ in2" using inp by (simp add: c1_def in2_def)
      show "length (cke_msg enc) \<le> maxPlaintext" using assms(3) by (simp add: cke_msg_parts maxPlaintext_def)
      show "4 \<le> length (cke_msg enc)" "cke_msg enc ! 0 = hsClientKeyExchange"
        by (simp_all add: cke_msg_parts)
    qed
    then show ?thesis by (simp add: c2_def c1_def msgs chain_def)
  qed
  have c3: "c3 = c2\<lparr>read_mac := client_mac kb, write_mac := server_mac kb, read_iv := client_iv kb,
      write_iv := server_iv kb, read_cipher := Some (client_key kb), write_cipher := Some (server_key kb)\<rparr>"
    by (simp add: c3_def setup_keys_parts Let_def kb_def session_block_def m_def)
  have s4: "client_finished m c3 = (Ok (), c4)"
  proof -
    have "client_finished m c3 = (Ok (), c3\<lparr>conn_in := rest, read_active := True, read_seq := 1,
        read_iv := last_block efin, transcript := transcript c3 @ client_fin m (transcript c3)\<rparr>)"
      by (rule client_finished_plain)
         (use kbl assms(6) in \<open>simp_all add: c3 c2_def c1_def in2_def efin_def client_sealed_fin_def Let_def kb_def m_def\<close>)
    then show ?thesis by (simp add: c4_def c3 c2_def)
  qed
  have "server_finished m c4 = (Ok (), c4\<lparr>conn_sent := conn_sent c4 @
      [frame ctChangeCipherSpec [1], frame ctHandshake (server_sealed_fin pm ch sr msgs)],
      write_active := True, write_seq := 1, write_iv := last_block (server_sealed_fin pm ch sr msgs)\<rparr>)"
    by (rule server_finished_plain)
       (use kbl assms(7,8) in \<open>simp_all add: c4_def c3 c2_def c1_def server_sealed_fin_def Let_def kb_def m_def\<close>)
  also have "c4\<lparr>conn_sent := conn_sent c4 @
      [frame ctChangeCipherSpec [1], frame ctHandshake (server_sealed_fin pm ch sr msgs)],
      write_active := True, write_seq := 1, write_iv := last_block (server_sealed_fin pm ch sr msgs)\<rparr>
    = established pm ch sr chain msgs rest c"
    by (simp add: established_def Let_def c4_def c3 c2_def c1_def kb_def m_def efin_def)
  finally have s5: "server_finished m c4 = (Ok (), established pm ch sr chain msgs rest c)" .
  have s3: "tbind (modify (setup_keys m (pad32 ch) sr)) f c2 = f () c3" for f :: "unit \<Rightarrow> unit tls"
    by (simp add: c3_def)
  show ?thesis
    unfolding after_hello_def assms(1) chain_def [symmetric] Let_def m_def [unfolded session_master_def, symmetric]
    by (simp add: tbind_def lift_def s1 s2 modify_def s4 s5 c3_def [symmetric] m_def [unfolded session_master_def, symmetric])
qed

text \<open>From an accepted hello, of either form, the handshake runs through.\<close>

lemma handshake_from_hello:
  assumes "cert_for (srv_certs s) (default_region s) hs ago (client_ip (conn_remote c)) = (Some cert, source)"
    and "cert_key cert = RSAKey priv"
    and "server_random ent = Ok sr" and "length (premaster_random ent) = 48"
    and "length enc \<le> 2048" and "rsa_decrypt priv enc = Some pm" and "length pm = 48"
    and "msgs = hello @ flight sr (cert_chain cert) @ cke_msg enc"
    and "read_client_hello (c\<lparr>cert_info := cert_text cert source\<rparr>) = (Ok (pad32 ch), c2)"
    and "\<not> read_active c2" and "\<not> write_active c2" and "conn_writes c2 = []" and "transcript c2 = hello"
    and "conn_in c2 = frame ctHandshake (cke_msg enc) @ frame ctChangeCipherSpec [1]
       @ frame ctHandshake (client_sealed_fin pm ch sr msgs) @ rest"
  shows "handshake s hs ago ent c = (Ok (), established pm ch sr (cert_chain cert) msgs rest c2)"
proof -
  have p: "present_cert s hs ago c = (Ok (cert, priv), c\<lparr>cert_info := cert_text cert source\<rparr>)"
    using assms(1,2) by (simp add: present_cert_def)
  have h: "wrap_err ''read ClientHello'' read_client_hello (c\<lparr>cert_info := cert_text cert source\<rparr>) = (Ok (pad32 ch), c2)"
    using assms(9) by (simp add: wrap_err_Ok)
  have "after_hello s ent cert priv (pad32 ch) c2 =
      (Ok (), established pm ch sr (cert_chain cert) msgs rest c2)"
    by (rule after_hello_completes [OF assms(3-7,10-13,8,14)])
  then show ?thesis
    unfolding handshake_after_hello tbind_OkI [where m = "present_cert s hs ago", OF p] prod.case
      tbind_OkI [where m = "wrap_err ''read ClientHello'' read_client_hello", OF h]
    by simp
qed

lemma handshake_runs:
  assumes cert: "cert_for (srv_certs s) (default_region s) hs ago (client_ip (conn_remote c)) = (Some cert, source)"
    and key: "cert_key cert = RSAKey priv"
    and "server_random ent = Ok sr" and "length (premaster_random ent) = 48"
    and hello: "hello = v2_body a b specs sid ch" and "length hello < 2 ^ 15" and "offers_v2 specs"
    and "length enc \<le> 2048" and "rsa_decrypt priv enc = Some pm" and "length pm = 48"
    and msgs: "msgs = hello @ flight sr (cert_chain cert) @ cke_msg enc"
    and c: "c = new_conn remote (client_input hello enc pm ch sr (cert_chain cert) @ rest) e []"
  shows "handshake s hs ago ent c = (Ok (), established pm ch sr (cert_chain cert) msgs rest
    (c\<lparr>cert_info := cert_text cert source, hello_info := v2_info a b specs ch,
       hello_specs := hex_encode specs\<rparr>))"
proof -
  define c1 where "c1 = c\<lparr>cert_info := cert_text cert source\<rparr>"
  define in1 where "in1 = frame ctHandshake (cke_msg enc) @ frame ctChangeCipherSpec [1]
       @ frame ctHandshake (client_sealed_fin pm ch sr msgs) @ rest"
  define c2 where "c2 = c1\<lparr>conn_in := in1, transcript := hello,
    hello_info := v2_info a b specs ch, hello_specs := hex_encode specs\<rparr>"
  have "conn_in c1 = v2_hello (v2_body a b specs sid ch) @ in1"
    by (simp add: c1_def c new_conn_def client_input_def in1_def msgs hello)
  from read_v2_hello_built [OF _ this assms(7)] assms(6)
  have "read_client_hello (c\<lparr>cert_info := cert_text cert source\<rparr>) = (Ok (pad32 ch), c2)"
    by (simp add: hello c2_def c1_def c new_conn_def)
  from handshake_from_hello [OF cert key assms(3,4,8-10) msgs this]
  have "handshake s hs ago ent c = (Ok (), established pm ch sr (cert_chain cert) msgs rest c2)"
    by (simp add: c2_def c1_def c new_conn_def in1_def)
  moreover have "established pm ch sr (cert_chain cert) msgs rest c2 =
      established pm ch sr (cert_chain cert) msgs rest
        (c\<lparr>cert_info := cert_text cert source, hello_info := v2_info a b specs ch,
           hello_specs := hex_encode specs\<rparr>)"
    by (simp add: established_def Let_def c2_def c1_def)
  ultimately show ?thesis by simp
qed

text \<open>The same for an ordinary v3 client: its random takes the place of the padded challenge.\<close>

definition v3_client_input :: "bytes \<Rightarrow> bytes \<Rightarrow> bytes \<Rightarrow> bytes \<Rightarrow> bytes \<Rightarrow> bytes list \<Rightarrow> bytes" where
  "v3_client_input hello enc pm random sr chain =
     frame ctHandshake hello @ frame ctHandshake (cke_msg enc) @ frame ctChangeCipherSpec [1]
       @ frame ctHandshake (client_sealed_fin pm random sr (hello @ flight sr chain @ cke_msg enc))"

lemma handshake_runs_v3:
  assumes cert: "cert_for (srv_certs s) (default_region s) hs ago (client_ip (conn_remote c)) = (Some cert, source)"
    and key: "cert_key cert = RSAKey priv"
    and "server_random ent = Ok sr" and "length (premaster_random ent) = 48"
    and hello: "hello = v3_body a b random sid suites exts" and "length hello \<le> maxPlaintext"
    and fields: "length random = 32" "length sid < 256" "length suites < 65536" "offers_v3 suites"
    and "length enc \<le> 2048" and "rsa_decrypt priv enc = Some pm" and "length pm = 48"
    and msgs: "msgs = hello @ flight sr (cert_chain cert) @ cke_msg enc"
    and c: "c = new_conn remote (v3_client_input hello enc pm random sr (cert_chain cert) @ rest) e []"
  shows "handshake s hs ago ent c = (Ok (), established pm random sr (cert_chain cert) msgs rest
    (c\<lparr>cert_info := cert_text cert source, hello_info := v3_info a b suites sid,
       hello_specs := hex_encode suites\<rparr>))"
proof -
  define c1 where "c1 = c\<lparr>cert_info := cert_text cert source\<rparr>"
  define in1 where "in1 = frame ctHandshake (cke_msg enc) @ frame ctChangeCipherSpec [1]
       @ frame ctHandshake (client_sealed_fin pm random sr msgs) @ rest"
  define c2 where "c2 = c1\<lparr>conn_in := in1, transcript := hello,
    hello_info := v3_info a b suites sid, hello_specs := hex_encode suites\<rparr>"
  have r: "pad32 random = random" using fields(1) by (simp add: pad32_def)
  have "conn_in c1 = frame ctHandshake (v3_body a b random sid suites exts) @ in1" "\<not> read_active c1"
    by (simp_all add: c1_def c new_conn_def v3_client_input_def in1_def msgs hello)
  from read_v3_hello_built [OF fields(1-3) this(2) _ this(1) fields(4)] assms(6)
  have "read_client_hello (c\<lparr>cert_info := cert_text cert source\<rparr>) = (Ok (pad32 random), c2)"
    by (simp add: hello c2_def c1_def c new_conn_def r)
  from handshake_from_hello [OF cert key assms(3,4,11-13) msgs this]
  have "handshake s hs ago ent c = (Ok (), established pm random sr (cert_chain cert) msgs rest c2)"
    by (simp add: c2_def c1_def c new_conn_def in1_def)
  moreover have "established pm random sr (cert_chain cert) msgs rest c2 =
      established pm random sr (cert_chain cert) msgs rest
        (c\<lparr>cert_info := cert_text cert source, hello_info := v3_info a b suites sid,
           hello_specs := hex_encode suites\<rparr>)"
    by (simp add: established_def Let_def c2_def c1_def)
  ultimately show ?thesis by simp
qed

text \<open>
  \<open>setupClientKeys\<close> of the tests: the same block cut from the client's side.  A client that
  has sent its Finished and has seen the server's ChangeCipherSpec is \<open>client_ready\<close>.
\<close>

definition client_setup_keys :: "bytes \<Rightarrow> bytes \<Rightarrow> bytes \<Rightarrow> tls10_conn \<Rightarrow> tls10_conn" where
  "client_setup_keys master client_rnd server_rnd c =
     (let kb = key_block master client_rnd server_rnd
      in c\<lparr>write_mac := gslice 0 macLen kb,
           read_mac := gslice macLen (2 * macLen) kb,
           write_iv := gslice (2 * macLen + 2 * keyLen) (2 * macLen + 2 * keyLen + ivLen) kb,
           read_iv := gslice (2 * macLen + 2 * keyLen + ivLen) (2 * macLen + 2 * keyLen + 2 * ivLen) kb,
           write_cipher := des_block (gslice (2 * macLen) (2 * macLen + keyLen) kb),
           read_cipher := des_block (gslice (2 * macLen + keyLen) (2 * macLen + 2 * keyLen) kb)\<rparr>)"

definition client_ready :: "bytes \<Rightarrow> bytes \<Rightarrow> bytes \<Rightarrow> bytes \<Rightarrow> tls10_conn \<Rightarrow> tls10_conn" where
  "client_ready pm ch sr msgs c =
     (snd (seal_payload ctHandshake (client_fin (session_master pm ch sr) msgs)
       ((client_setup_keys (session_master pm ch sr) (pad32 ch) sr c)
          \<lparr>write_active := True, write_seq := 0\<rparr>)))
       \<lparr>read_active := True, read_seq := 0\<rparr>"

lemma client_ready_parts:
  "client_ready pm ch sr msgs c = (let kb = session_block pm ch sr in
     c\<lparr>write_active := True, read_active := True, write_seq := 1, read_seq := 0,
       write_mac := client_mac kb, read_mac := server_mac kb,
       write_iv := last_block (client_sealed_fin pm ch sr msgs), read_iv := server_iv kb,
       write_cipher := Some (client_key kb), read_cipher := Some (server_key kb)\<rparr>)"
proof -
  define kb where "kb = session_block pm ch sr"
  define c1 where "c1 = c\<lparr>write_mac := client_mac kb, read_mac := server_mac kb,
      write_iv := client_iv kb, read_iv := server_iv kb, write_cipher := Some (client_key kb),
      read_cipher := Some (server_key kb), write_active := True, write_seq := 0\<rparr>"
  have l: "length (gslice 40 64 kb) = 24" "length (gslice 64 88 kb) = 24" "length (client_iv kb) = 8"
    by (simp_all add: kb_def session_block_def)
  have k: "key_block (session_master pm ch sr) (pad32 ch) sr = kb" by (simp add: kb_def session_block_def)
  have c1: "(client_setup_keys (session_master pm ch sr) (pad32 ch) sr c)
          \<lparr>write_active := True, write_seq := 0\<rparr> = c1"
    using l by (simp add: client_setup_keys_def k Let_def record_sizes key_parts c1_def)
  have "seal_payload ctHandshake (client_fin (session_master pm ch sr) msgs) c1 =
      (Ok (client_sealed_fin pm ch sr msgs),
       c1\<lparr>write_iv := last_block (client_sealed_fin pm ch sr msgs), write_seq := 1\<rparr>)"
    using seal_payload_active [of c1 "client_key kb"] l(3)
    by (simp add: c1_def client_sealed_fin_def Let_def kb_def)
  then show ?thesis
    by (simp add: client_ready_def c1 Let_def kb_def [symmetric]) (simp add: c1_def)
qed

lemma established_in_step:
  assumes c'_def: "c' = established pm ch sr chain msgs rest c"
    and fin_def: "fin = server_fin (session_master pm ch sr) (msgs @ client_fin (session_master pm ch sr) msgs)"
  shows "\<exists>cl'. get_record (frame ctHandshake (server_sealed_fin pm ch sr msgs)) (client_ready pm ch sr msgs cl) =
      Some ((ctHandshake, fin), [], cl') \<and> synced cl' c' \<and> synced c' cl'"
proof -
  define kb where "kb = session_block pm ch sr"
  define sf where "sf = server_sealed_fin pm ch sr msgs"
  define cr where "cr = (client_ready pm ch sr msgs cl)\<lparr>conn_in := frame ctHandshake sf\<rparr>"
  have kl: "length kb = 104" by (simp add: kb_def session_block_def)
  have sf: "sf = sealed (server_key kb) (server_iv kb) (server_mac kb) 0 ctHandshake fin"
    by (simp add: sf_def server_sealed_fin_def Let_def kb_def fin_def)
  have cf: "client_sealed_fin pm ch sr msgs = sealed (client_key kb) (client_iv kb) (client_mac kb) 0
      ctHandshake (client_fin (session_master pm ch sr) msgs)"
    by (simp add: client_sealed_fin_def Let_def kb_def)
  have lf: "length fin = 16" by (simp add: fin_def server_fin_def)
  have l: "length sf \<le> 2 ^ 14 + 2048"
    unfolding sf by (rule frame_length_bound) (use kl lf in \<open>simp_all add: maxPlaintext_def\<close>)
  define cl' where "cl' = cr\<lparr>conn_in := [], read_iv := last_block sf, read_seq := 1\<rparr>"
  have d: "decrypt ctHandshake sf (cr\<lparr>conn_in := []\<rparr>) = (Ok fin, cl')"
    using decrypt_sealed [of "cr\<lparr>conn_in := []\<rparr>" "server_key kb" sf ctHandshake fin] kl
    by (simp add: cr_def cl'_def client_ready_parts Let_def sf kb_def [symmetric])
  have "read_record cr = (Ok (ctHandshake, fin), cl')"
    using read_record_frame [of cr ctHandshake sf "[]"] l d
    by (simp add: cr_def client_ready_parts Let_def tbind_def ret_def)
  then have g: "get_record (frame ctHandshake sf) (client_ready pm ch sr msgs cl) =
      Some ((ctHandshake, fin), [], cl')"
    by (simp add: get_record_def cr_def [symmetric]) (simp add: cl'_def)
  have lb: "length (last_block sf) = 8" "length (last_block (client_sealed_fin pm ch sr msgs)) = 8"
    using length_sealed(1) [of "server_iv kb"] length_sealed(1) [of "client_iv kb"] kl
    by (simp_all add: sf cf last_block_def)
  then have "synced cl' c'" "synced c' cl'"
    by (simp_all add: synced_def c'_def established_def Let_def cl'_def cr_def client_ready_parts
        kb_def [symmetric] sf_def [symmetric])
  with g show ?thesis unfolding sf_def by blast
qed

section \<open>What a verified handshake has seen\<close>

lemma read_record_frame_rule: "\<exists>inp iv sq. snd (read_record c) = c\<lparr>conn_in := inp, read_iv := iv, read_seq := sq\<rparr>"
proof -
  let ?P = "\<lambda>c'. \<exists>inp iv sq. c' = c\<lparr>conn_in := inp, read_iv := iv, read_seq := sq\<rparr>"
  have "keeps ?P read_record"
  proof (rule keeps_read_record; elim exE)
    fix c' i inp iv sq assume e: "c' = c\<lparr>conn_in := inp, read_iv := iv, read_seq := sq\<rparr>"
    show "?P (c'\<lparr>conn_in := i\<rparr>)" by (intro exI [of _ i] exI [of _ iv] exI [of _ sq]) (simp add: e)
    show "?P (c'\<lparr>read_iv := i\<rparr>)" by (intro exI [of _ inp] exI [of _ i] exI [of _ sq]) (simp add: e)
  next
    fix c' n inp iv sq assume e: "c' = c\<lparr>conn_in := inp, read_iv := iv, read_seq := sq\<rparr>"
    show "?P (c'\<lparr>read_seq := n\<rparr>)" by (intro exI [of _ inp] exI [of _ iv] exI [of _ n]) (simp add: e)
  qed
  moreover have "?P c" by (rule exI [of _ "conn_in c"], rule exI [of _ "read_iv c"], rule exI [of _ "read_seq c"]) simp
  ultimately show ?thesis by (rule keepsD)
qed

lemma read_record_same:
  "read_record c = (r, c') \<Longrightarrow> transcript c' = transcript c \<and> read_active c' = read_active c"
  using read_record_frame_rule [of c] by auto

lemma seal_payload_same:
  "transcript (snd (seal_payload t m c)) = transcript c \<and>
   read_active (snd (seal_payload t m c)) = read_active c"
proof (cases "write_active c")
  case True
  then show ?thesis
    unfolding seal_payload_eq Let_def
    by (simp split: option.split outcome.split split del: if_split)
qed (simp add: seal_payload_inactive)

lemma write_record_same:
  "transcript (snd (write_record t m c)) = transcript c \<and>
   read_active (snd (write_record t m c)) = read_active c"
proof -
  have "transcript (snd (conn_write b c1)) = transcript c1 \<and>
      read_active (snd (conn_write b c1)) = read_active c1" for b c1
    by (simp add: conn_write_def split: list.split option.split)
  then show ?thesis
    using seal_payload_same [of t m c]
    by (cases "seal_payload t m c"; cases "fst (seal_payload t m c)")
       (simp_all add: write_record_def tbind_def)
qed

lemma write_handshake_same:
  "transcript (snd (write_handshake m c)) = transcript c @ m \<and>
   read_active (snd (write_handshake m c)) = read_active c"
  by (simp add: write_handshake_def write_record_same)

lemma server_flight_Ok:
  assumes "server_flight sr chain c = (Ok x, c')"
  shows "transcript c' = transcript c @ flight sr chain \<and> read_active c' = read_active c"
proof -
  from assms obtain c1 c2 where w: "write_handshake (build_server_hello sr) c = (Ok (), c1)"
    "write_handshake (build_certificate chain) c1 = (Ok (), c2)"
    "write_handshake server_hello_done c2 = (Ok (), c')"
    by (auto simp: server_flight_def tbind_Ok)
  show ?thesis
    using write_handshake_same [of "build_server_hello sr" c]
      write_handshake_same [of "build_certificate chain" c1]
      write_handshake_same [of server_hello_done c2]
    by (simp add: w flight_def)
qed

lemma client_key_exchange_Ok:
  assumes "client_key_exchange priv rnd c = (Ok pm, c')"
  shows "\<exists>cke. cke ! 0 = hsClientKeyExchange \<and> decrypt_premaster priv rnd cke = Ok pm \<and>
    transcript c' = transcript c @ cke \<and> read_active c' = read_active c"
proof -
  from assms obtain ty body c1 where r: "read_record c = (Ok (ty, body), c1)"
    and "body ! 0 = hsClientKeyExchange" "decrypt_premaster priv rnd body = Ok pm"
      "c' = c1\<lparr>transcript := transcript c1 @ body\<rparr>"
    by (auto simp: client_key_exchange_eq tbind_Ok lift_def add_transcript_def
        modify_def split: if_splits)
  then show ?thesis using read_record_same [OF r] by (intro exI [of _ body]) simp
qed

lemma client_finished_Ok:
  assumes "client_finished m c = (Ok x, c')"
  shows "\<exists>fin. length fin = 16 \<and> fin ! 0 = hsFinished \<and>
    gslice 4 16 fin = client_verify m (transcript c) \<and> transcript c' = transcript c @ fin"
proof -
  from assms obtain ty b c1 where r: "read_record c = (Ok (ty, b), c1)"
    and "tbind read_record (\<lambda>(ty, fin).
     if ty \<noteq> ctHandshake \<or> length fin \<noteq> 16 \<or> fin ! 0 \<noteq> hsFinished
     then fail_unexpected ''Finished'' ty fin
     else if gslice 4 16 fin \<noteq> client_verify m (transcript c1)
     then throw (NewErr ''tls: client Finished mismatch'')
     else add_transcript fin) (c1\<lparr>read_active := True, read_seq := 0\<rparr>) = (Ok x, c')"
    by (auto simp: client_finished_eq tbind_Ok Let_def modify_def split: if_splits)
  then obtain fin c2 where r2: "read_record (c1\<lparr>read_active := True, read_seq := 0\<rparr>) = (Ok (ctHandshake, fin), c2)"
    and f: "length fin = 16" "fin ! 0 = hsFinished" "gslice 4 16 fin = client_verify m (transcript c1)"
      "c' = c2\<lparr>transcript := transcript c2 @ fin\<rparr>"
    by (auto simp: tbind_Ok throw_def add_transcript_def modify_def split: if_splits)
  have "transcript c1 = transcript c" "transcript c2 = transcript c1"
    using read_record_same [OF r] read_record_same [OF r2] by simp_all
  with f show ?thesis by (intro exI [of _ fin]) simp
qed

lemma server_finished_same: "transcript (snd (server_finished m c)) = transcript c"
proof (cases "write_record ctChangeCipherSpec [1] c")
  case (Pair r c1)
  have "transcript c1 = transcript c" using write_record_same [of ctChangeCipherSpec "[1]" c] Pair by simp
  then show ?thesis
    using Pair write_record_same [of ctHandshake _ "c1\<lparr>write_active := True, write_seq := 0\<rparr>"]
    by (cases r) (simp_all add: server_finished_def tbind_def modify_def)
qed

text \<open>The handshake up to the point where the server first answers under the new keys.\<close>

definition verified ::
  "server \<Rightarrow> region_hints option \<Rightarrow> (nat \<Rightarrow> string) \<Rightarrow> entropy \<Rightarrow> bytes tls" where
  "verified s hs ago ent =
     tbind (present_cert s hs ago) (\<lambda>(cert, priv).
     tbind (wrap_err ''read ClientHello'' read_client_hello) (\<lambda>client_rnd.
     tbind (lift (server_random ent)) (\<lambda>server_rnd.
     tbind (server_flight server_rnd (cert_chain cert)) (\<lambda>_.
     tbind (client_key_exchange priv (premaster_random ent)) (\<lambda>premaster.
     let master = master_secret premaster client_rnd server_rnd in
     tbind (modify (setup_keys master client_rnd server_rnd)) (\<lambda>_.
     tbind (client_finished master) (\<lambda>_. ret master)))))))"

lemma tbind_assoc: "tbind (tbind m f) g = tbind m (\<lambda>x. tbind (f x) g)"
  by (rule ext) (auto simp: tbind_def split: prod.splits outcome.splits)

lemma tbind_case_prod: "tbind (case x of (a, b) \<Rightarrow> f a b) g = (case x of (a, b) \<Rightarrow> tbind (f a b) g)"
  by (cases x) simp

lemma handshake_verified: "handshake s hs ago ent = tbind (verified s hs ago ent) server_finished"
  unfolding handshake_def verified_def tbind_assoc tbind_case_prod Let_def tbind_simps ..

lemma verified_quiet: "keeps (sent_only {ctHandshake}) (verified s hs ago ent)"
  unfolding verified_def Let_def
  by (intro keeps_tbind keeps_prod keeps_lift keeps_wrap keeps_ret keeps_modify sent_only_present
        sent_only_hello sent_only_flight sent_only_cke sent_only_cfin)
     (simp_all add: sent_only_def setup_keys_parts Let_def)

definition verified_by ::
  "server \<Rightarrow> region_hints option \<Rightarrow> (nat \<Rightarrow> string) \<Rightarrow> entropy \<Rightarrow> tls10_conn \<Rightarrow> bytes \<Rightarrow> bytes \<Rightarrow> bool" where
  "verified_by s hs ago ent c master msgs \<longleftrightarrow>
     (\<exists>cert source priv sr hello cr cke pm fin.
        cert_for (srv_certs s) (default_region s) hs ago (client_ip (conn_remote c)) = (Some cert, source) \<and>
        cert_key cert = RSAKey priv \<and> server_random ent = Ok sr \<and> length cr = 32 \<and>
        decrypt_premaster priv (premaster_random ent) cke = Ok pm \<and>
        master = master_secret pm cr sr \<and> length fin = 16 \<and> fin ! 0 = hsFinished \<and>
        gslice 4 16 fin = client_verify master (hello @ flight sr (cert_chain cert) @ cke) \<and>
        msgs = hello @ flight sr (cert_chain cert) @ cke @ fin)"

lemma verified_Ok:
  assumes "verified s hs ago ent c = (Ok master, c')" and "\<not> read_active c" and "transcript c = []"
  shows "verified_by s hs ago ent c master (transcript c')"
proof -
  from assms(1) obtain cert priv c1 cr c2 sr c3 pm c4 c5
    where p: "present_cert s hs ago c = (Ok (cert, priv), c1)"
      and h: "read_client_hello c1 = (Ok cr, c2)"
      and sr: "server_random ent = Ok sr"
      and f: "server_flight sr (cert_chain cert) c2 = (Ok (), c3)"
      and k: "client_key_exchange priv (premaster_random ent) c3 = (Ok pm, c4)"
      and cf: "client_finished (master_secret pm cr sr) (setup_keys (master_secret pm cr sr) cr sr c4) = (Ok (), c')"
      and m: "master = master_secret pm cr sr"
    unfolding verified_def Let_def
    by (auto simp: tbind_Ok wrap_err_Ok lift_def modify_def ret_def)
  from p obtain source where cert: "cert_for (srv_certs s) (default_region s) hs ago (client_ip (conn_remote c)) = (Some cert, source)"
    "cert_key cert = RSAKey priv" and c1: "c1 = c\<lparr>cert_info := cert_text cert source\<rparr>"
    by (auto simp: present_cert_def split: prod.splits option.splits private_key.splits)
  obtain hello where cr: "length cr = 32" and t2: "transcript c2 = hello"
    using read_client_hello_Ok [OF h] assms(2,3) by (auto simp: c1 hello_step_def)
  have t3: "transcript c3 = hello @ flight sr (cert_chain cert)"
    using server_flight_Ok [OF f] t2 by simp
  obtain cke where cke: "decrypt_premaster priv (premaster_random ent) cke = Ok pm"
    and t4: "transcript c4 = hello @ flight sr (cert_chain cert) @ cke"
    using client_key_exchange_Ok [OF k] t3 by auto
  have ts: "transcript (setup_keys m' a b c4) = transcript c4" for m' a b
    by (simp add: setup_keys_parts Let_def)
  obtain fin where fin: "length fin = 16" "fin ! 0 = hsFinished"
    "gslice 4 16 fin = client_verify master (transcript c4)" "transcript c' = transcript c4 @ fin"
    using client_finished_Ok [OF cf] by (auto simp: ts m)
  show ?thesis
    unfolding verified_by_def
    using cert sr cr cke m fin t4 by (intro exI conjI) auto
qed

lemma handshake_verifies:
  assumes "\<not> read_active c" and "transcript c = []" and "sent_only {ctHandshake} c"
    and "\<not> sent_only {ctHandshake} (snd (handshake s hs ago ent c))"
  shows "\<exists>master. verified_by s hs ago ent c master (transcript (snd (handshake s hs ago ent c)))"
proof -
  obtain r c1 where v: "verified s hs ago ent c = (r, c1)" by fastforce
  have q: "sent_only {ctHandshake} c1" using keepsD [OF verified_quiet assms(3)] v by (metis snd_conv)
  show ?thesis
  proof (cases r)
    case (Ok master)
    then have "transcript (snd (handshake s hs ago ent c)) = transcript c1"
      using v server_finished_same by (simp add: handshake_verified tbind_def)
    then show ?thesis using verified_Ok [OF v [unfolded Ok] assms(1,2)] by auto
  qed (use assms(4) q v in \<open>simp_all add: handshake_verified tbind_def\<close>)
qed

section \<open>Reading the certificate message\<close>

text \<open>The reader of the tests: certificates with their 3-byte lengths, one after the other.\<close>

function parse_certs :: "bytes \<Rightarrow> bytes list option" where
  "parse_certs p =
     (if p = [] then Some []
      else if length p < 3 then None
      else let n = be24 p 0
      in if length p < 3 + n then None
      else map_option ((#) (gslice 3 (3 + n) p)) (parse_certs (drop (3 + n) p)))"
  by pat_completeness auto
termination by (relation "measure length") (auto simp: Let_def)

declare parse_certs.simps [simp del]

definition parse_certificate_msg :: "bytes \<Rightarrow> bytes list option" where
  "parse_certificate_msg msg =
     (if length msg < 7 \<or> msg ! 0 \<noteq> hsCertificate \<or> be24 msg 1 \<noteq> length msg - 4
        \<or> be24 msg 4 \<noteq> length msg - 7 then None
      else parse_certs (drop 7 msg))"

definition cert_entry :: "bytes \<Rightarrow> bytes" where
  "cert_entry der = put24 (length der) @ der"

lemma parse_certs_entries:
  "\<forall>der \<in> set chain. length der < 2 ^ 24 \<Longrightarrow> parse_certs (concat (map cert_entry chain)) = Some chain"
proof (induction chain)
  case (Cons der chain)
  let ?r = "concat (map cert_entry chain)"
  let ?p = "put24 (length der) @ der @ ?r"
  have n: "be24 ?p 0 = length der"
    using be24_append_put24 [of "[]" "length der" "der @ ?r"] Cons.prems by simp
  have p: "?p \<noteq> []" "\<not> length ?p < 3" "\<not> length ?p < 3 + length der" by (simp_all add: put24_def)
  have g: "gslice 3 (3 + length der) ?p = der" "drop (3 + length der) ?p = ?r"
    by (simp_all add: gslice_def)
  have "parse_certs ?p = map_option ((#) der) (parse_certs ?r)"
    by (subst parse_certs.simps) (simp only: p n g Let_def if_False)
  moreover have "parse_certs ?r = Some chain" using Cons by simp
  moreover have "concat (map cert_entry (der # chain)) = ?p" by (simp add: cert_entry_def [of der])
  ultimately show ?case by simp
qed (simp add: parse_certs.simps)

lemma build_certificate_shape:
  "build_certificate chain = [hsCertificate] @ put24 (3 + length (concat (map cert_entry chain)))
     @ put24 (length (concat (map cert_entry chain))) @ concat (map cert_entry chain)"
proof -
  have e: "(\<lambda>der. put24 (length der) @ der) = cert_entry" by (simp add: fun_eq_iff cert_entry_def)
  show ?thesis
    unfolding build_certificate_def Let_def e put_hs_len_shape by simp
qed

section \<open>Properties\<close>

text \<open>A server with one certificate, whose RSA key is the identity on a 472-bit modulus.\<close>

definition demo_rsa :: rsa_key where
  "demo_rsa = \<lparr>rsa_n = 256 ^ 59 - 1, rsa_d = 1\<rparr>"

definition demo_cert :: certificate where
  "demo_cert = \<lparr>cert_chain = [[0x30, 1], [0x30, 2, 3]], cert_key = RSAKey demo_rsa, cert_leaf = None\<rparr>"

definition demo_server :: server where
  "demo_server = \<lparr>doc_root = ''/srv/www'', srv_certs = [''jp'' \<mapsto> demo_cert],
     default_region = ''jp'', force_success = SuccessOff, srv_proxies = []\<rparr>"

definition demo_entropy :: entropy where
  "demo_entropy = \<lparr>server_random = Ok (replicate 32 6), premaster_random = replicate 48 0\<rparr>"

definition demo_pm :: bytes where "demo_pm = replicate 48 3"
definition demo_enc :: bytes where "demo_enc = pkcs1_pad (replicate 8 1) demo_pm"
definition demo_hello :: bytes where "demo_hello = v2_body 3 1 [0, 0, 0x66, 0, 0, 0x0a] [] (replicate 16 4)"

definition demo_client :: tls10_conn where
  "demo_client = new_conn ''10.0.0.2:1024''
     (client_input demo_hello demo_enc demo_pm (replicate 16 4) (replicate 32 6) (cert_chain demo_cert) @ []) EOF []"

lemma demo_rsa_decrypt: "rsa_decrypt demo_rsa demo_enc = Some demo_pm"
proof (rule rsa_decrypt_encrypt [where ps = "replicate 8 1" and e = 1])
  show "byte_size (rsa_n demo_rsa) = length (pkcs1_pad (replicate 8 1) demo_pm)"
    by (simp add: demo_rsa_def pkcs1_pad_def demo_pm_def byte_size.simps)
  have m: "be_nat (pkcs1_pad (replicate 8 1) demo_pm) 0 < rsa_n demo_rsa"
  proof -
    have "be_nat (2 # replicate 8 1 @ 0 # demo_pm) 0 < Suc 0 * 256 ^ 58"
      using be_nat_bound [of "2 # replicate 8 1 @ 0 # demo_pm" 0] by (simp add: demo_pm_def)
    then show ?thesis by (simp add: demo_rsa_def pkcs1_pad_def)
  qed
  then show "be_nat demo_enc 0 = be_nat (pkcs1_pad (replicate 8 1) demo_pm) 0 ^ 1 mod rsa_n demo_rsa"
    "be_nat (pkcs1_pad (replicate 8 1) demo_pm) 0 ^ (1 * rsa_d demo_rsa) mod rsa_n demo_rsa =
      be_nat (pkcs1_pad (replicate 8 1) demo_pm) 0"
    by (simp_all add: demo_enc_def demo_rsa_def)
qed simp_all

lemma demo_cert_for:
  "cert_for (srv_certs demo_server) (default_region demo_server) None (\<lambda>_. []) ip =
   (Some demo_cert, ''jp certificate (default; no DNS lookup seen from this client)'')"
  by (simp add: cert_for_def demo_server_def)

text \<open>C2. A client that keeps to the protocol completes the handshake: the server accepts its
  SSLv2-compatible hello, key exchange and Finished, answers with exactly its flight, its
  ChangeCipherSpec and its own Finished, and leaves the rest of the input unread; the client
  decrypts the server's Finished to the value it expects, and from then on both directions
  are in step, so application data flows (records_in_order).\<close>

theorem handshake_completes:
  assumes "cert_for (srv_certs s) (default_region s) hs ago (client_ip (conn_remote c)) = (Some cert, source)"
    and "cert_key cert = RSAKey priv"
    and "server_random ent = Ok sr" and "length (premaster_random ent) = 48"
    and "hello = v2_body a b specs sid ch" and "length hello < 2 ^ 15" and "offers_v2 specs"
    and "length enc \<le> 2048" and "rsa_decrypt priv enc = Some pm" and "length pm = 48"
    and "msgs = hello @ flight sr (cert_chain cert) @ cke_msg enc"
    and "c = new_conn remote (client_input hello enc pm ch sr (cert_chain cert) @ rest) e []"
  shows "\<exists>c' cl'. handshake s hs ago ent c = (Ok (), c') \<and> conn_in c' = rest \<and>
    conn_sent c' = flight_records sr (cert_chain cert) @
      [frame ctChangeCipherSpec [1], frame ctHandshake (server_sealed_fin pm ch sr msgs)] \<and>
    get_record (frame ctHandshake (server_sealed_fin pm ch sr msgs)) (client_ready pm ch sr msgs cl) =
      Some ((ctHandshake, server_fin (session_master pm ch sr)
        (msgs @ client_fin (session_master pm ch sr) msgs)), [], cl') \<and>
    synced cl' c' \<and> synced c' cl'"
proof -
  define c' where "c' = established pm ch sr (cert_chain cert) msgs rest
    (c\<lparr>cert_info := cert_text cert source, hello_info := v2_info a b specs ch,
       hello_specs := hex_encode specs\<rparr>)"
  have "handshake s hs ago ent c = (Ok (), c')" unfolding c'_def by (rule handshake_runs [OF assms])
  moreover have "conn_in c' = rest" by (simp add: c'_def established_def Let_def)
  moreover have "conn_sent c' = flight_records sr (cert_chain cert) @
      [frame ctChangeCipherSpec [1], frame ctHandshake (server_sealed_fin pm ch sr msgs)]"
    by (simp add: c'_def established_def Let_def assms(12) new_conn_def)
  moreover note established_in_step [OF c'_def refl, of cl]
  ultimately show ?thesis by blast
qed

theorem handshake_completes_witness:
  "\<exists>c' cl'. handshake demo_server None (\<lambda>_. []) demo_entropy demo_client = (Ok (), c') \<and> conn_in c' = [] \<and>
     synced cl' c' \<and> synced c' cl'"
  using handshake_completes [OF demo_cert_for [of "client_ip (conn_remote demo_client)"], of demo_rsa
      demo_entropy "replicate 32 6" demo_hello 3 1 "[0, 0, 0x66, 0, 0, 0x0a]" "[]" "replicate 16 4"
      demo_enc demo_pm _ "''10.0.0.2:1024''" "[]" EOF demo_client]
  by (simp add: demo_rsa_decrypt demo_client_def)
    (auto simp: demo_cert_def demo_entropy_def demo_hello_def length_v2_body demo_enc_def pkcs1_pad_def demo_pm_def)

text \<open>C3. An ordinary TLS 1.0 client completes the handshake as well: with a v3 hello that offers
  the suite, whatever its version, session ID and extensions are, the server answers with the
  same flight, keyed with the hello's own random and hashed over the hello message, and both
  directions end up in step.\<close>

theorem v3_client_completes:
  assumes "cert_for (srv_certs s) (default_region s) hs ago (client_ip (conn_remote c)) = (Some cert, source)"
    and "cert_key cert = RSAKey priv"
    and "server_random ent = Ok sr" and "length (premaster_random ent) = 48"
    and "hello = v3_body a b random sid suites exts" and "length hello \<le> maxPlaintext"
    and "length random = 32" and "length sid < 256" and "length suites < 65536" and "offers_v3 suites"
    and "length enc \<le> 2048" and "rsa_decrypt priv enc = Some pm" and "length pm = 48"
    and "msgs = hello @ flight sr (cert_chain cert) @ cke_msg enc"
    and "c = new_conn remote (v3_client_input hello enc pm random sr (cert_chain cert) @ rest) e []"
  shows "\<exists>c' cl'. handshake s hs ago ent c = (Ok (), c') \<and> conn_in c' = rest \<and>
    conn_sent c' = flight_records sr (cert_chain cert) @
      [frame ctChangeCipherSpec [1], frame ctHandshake (server_sealed_fin pm random sr msgs)] \<and>
    get_record (frame ctHandshake (server_sealed_fin pm random sr msgs)) (client_ready pm random sr msgs cl) =
      Some ((ctHandshake, server_fin (session_master pm random sr)
        (msgs @ client_fin (session_master pm random sr) msgs)), [], cl') \<and>
    synced cl' c' \<and> synced c' cl'"
proof -
  define c' where "c' = established pm random sr (cert_chain cert) msgs rest
    (c\<lparr>cert_info := cert_text cert source, hello_info := v3_info a b suites sid,
       hello_specs := hex_encode suites\<rparr>)"
  have "handshake s hs ago ent c = (Ok (), c')" unfolding c'_def by (rule handshake_runs_v3 [OF assms])
  moreover have "conn_in c' = rest" by (simp add: c'_def established_def Let_def)
  moreover have "conn_sent c' = flight_records sr (cert_chain cert) @
      [frame ctChangeCipherSpec [1], frame ctHandshake (server_sealed_fin pm random sr msgs)]"
    by (simp add: c'_def established_def Let_def assms(15) new_conn_def)
  moreover note established_in_step [OF c'_def refl, of cl]
  ultimately show ?thesis by blast
qed

definition demo_v3_client :: tls10_conn where
  "demo_v3_client = new_conn ''10.0.0.2:1024''
     (v3_client_input demo_v3 demo_enc demo_pm (replicate 32 7) (replicate 32 6) (cert_chain demo_cert) @ [9]) EOF []"

theorem v3_client_completes_witness:
  "\<exists>c' cl'. handshake demo_server None (\<lambda>_. []) demo_entropy demo_v3_client = (Ok (), c') \<and> conn_in c' = [9] \<and>
     synced cl' c' \<and> synced c' cl'"
proof -
  have d: "cert_key demo_cert = RSAKey demo_rsa" "server_random demo_entropy = Ok (replicate 32 6)"
    "length (premaster_random demo_entropy) = 48" "length demo_v3 \<le> maxPlaintext"
    "length (replicate 32 (7 :: byte)) = 32" "length ([] :: bytes) < 256" "length [0, 5, 0, 0x0a :: byte] < 65536"
    "offers_v3 [0, 5, 0, 0x0a]" "length demo_enc \<le> 2048" "length demo_pm = 48"
    by (simp_all add: demo_cert_def demo_entropy_def demo_v3_def length_v3_body demo_enc_def pkcs1_pad_def
        demo_pm_def maxPlaintext_def)
  from v3_client_completes [OF demo_cert_for d(1-3) demo_v3_def d(4-9) demo_rsa_decrypt d(10) refl demo_v3_client_def]
  show ?thesis by blast
qed

text \<open>C4. The server says nothing under the new keys, and no record other than handshake records,
  before it has verified the client: if anything else was sent, then the client's Finished
  holds the PRF of the hash of exactly the hello, the server's flight and the key exchange,
  under the master secret of the decrypted premaster and both randoms.\<close>

theorem silent_until_verified:
  assumes "\<not> read_active c" and "transcript c = []" and "sent_only {ctHandshake} c"
    and "\<not> sent_only {ctHandshake} (snd (handshake s hs ago ent c))"
  shows "\<exists>master. verified_by s hs ago ent c master (transcript (snd (handshake s hs ago ent c)))"
  by (rule handshake_verifies [OF assms])

lemma demo_handshake:
  "handshake demo_server None (\<lambda>_. []) demo_entropy demo_client =
   (Ok (), established demo_pm (replicate 16 4) (replicate 32 6) (cert_chain demo_cert)
     (demo_hello @ flight (replicate 32 6) (cert_chain demo_cert) @ cke_msg demo_enc) []
     (demo_client\<lparr>cert_info := cert_text demo_cert ''jp certificate (default; no DNS lookup seen from this client)'',
       hello_info := v2_info 3 1 [0, 0, 0x66, 0, 0, 0x0a] (replicate 16 4),
       hello_specs := hex_encode [0, 0, 0x66, 0, 0, 0x0a]\<rparr>))"
  by (rule handshake_runs [OF demo_cert_for _ _ _ demo_hello_def _ _ _ demo_rsa_decrypt _ refl demo_client_def])
     (simp_all add: demo_cert_def demo_entropy_def demo_hello_def length_v2_body demo_enc_def pkcs1_pad_def demo_pm_def)

theorem silent_until_verified_witness:
  "\<exists>master. verified_by demo_server None (\<lambda>_. []) demo_entropy demo_client master
     (transcript (snd (handshake demo_server None (\<lambda>_. []) demo_entropy demo_client)))"
proof (rule silent_until_verified)
  show "\<not> sent_only {ctHandshake} (snd (handshake demo_server None (\<lambda>_. []) demo_entropy demo_client))"
    by (simp add: demo_handshake established_def Let_def sent_only_def frame_def ctChangeCipherSpec_def ctHandshake_def)
qed (simp_all add: demo_client_def new_conn_def sent_only_def)

text \<open>C24. The handshake panics, which ends the server process, in exactly two cases: no
  certificate for the client's region nor the default region, and, under an RSA certificate, a
  plaintext handshake record of length 38 that starts with a ClientHello.  No other input, at
  any of its length fields, and no failing read or write makes any later step panic.\<close>

theorem handshake_panics_iff:
  assumes "server_random ent \<noteq> Panic" and "conn_ok c" and "\<not> read_active c"
  shows "fst (handshake s hs ago ent c) = Panic \<longleftrightarrow>
    (case cert_for (srv_certs s) (default_region s) hs ago (client_ip (conn_remote c)) of
       (None, _) \<Rightarrow> True
     | (Some cert, source) \<Rightarrow>
         cert_key cert \<noteq> OtherKey \<and>
         43 \<le> length (conn_in c) \<and> conn_in c ! 0 = 22 \<and> be16 (conn_in c) 3 = 38 \<and> conn_in c ! 5 = 1)"
  by (rule handshake_panic [OF assms, unfolded short_hello_def])

theorem handshake_panics_iff_witness:
  "fst (handshake demo_server None (\<lambda>_. []) demo_entropy (new_conn ''10.0.0.2:9'' crash_hello EOF [])) = Panic"
  using handshake_panics_iff [of demo_entropy "new_conn ''10.0.0.2:9'' crash_hello EOF []" demo_server None "\<lambda>_. []"]
  by (simp add: demo_entropy_def new_conn_ok demo_cert_for)
     (simp add: new_conn_def crash_hello_def frame_def put16_def be16_def tls10Version_def
       ctHandshake_def hs_types demo_cert_def)

text \<open>C21. A Certificate message carries the whole chain: a client that reads the two length
  fields and then the certificates one by one gets back the chain, leaf first, for every chain
  whose list fits the 3-byte length.\<close>

theorem certificate_round_trip:
  assumes "length (concat (map cert_entry chain)) + 3 < 2 ^ 24"
  shows "parse_certificate_msg (build_certificate chain) = Some chain"
proof -
  let ?cs = "concat (map cert_entry chain)"
  let ?m = "build_certificate chain"
  note b = build_certificate_shape [of chain]
  have l: "length ?m = 7 + length ?cs" unfolding b by simp
  have h: "be24 ?m 1 = 3 + length ?cs"
    using be24_append_put24 [of "[hsCertificate]" "3 + length ?cs" "put24 (length ?cs) @ ?cs"] assms
    by (simp add: b)
  have h2: "be24 ?m 4 = length ?cs"
    using be24_append_put24 [of "[hsCertificate] @ put24 (3 + length ?cs)" "length ?cs" ?cs] assms
    by (simp add: b)
  have d: "drop 7 ?m = ?cs" "?m ! 0 = hsCertificate" unfolding b by (simp_all add: put24_def)
  have "length der < 2 ^ 24" if "der \<in> set chain" for der
  proof -
    have "length (cert_entry der) \<le> length ?cs"
      using that by (induction chain) auto
    then show ?thesis using assms by (simp add: cert_entry_def)
  qed
  then show ?thesis
    using parse_certs_entries [of chain] by (simp add: parse_certificate_msg_def l h [simplified] h2 d [simplified])
qed

theorem certificate_round_trip_witness:
  "parse_certificate_msg (build_certificate [[0x30, 1], [], [0x30, 2, 3]]) = Some [[0x30, 1], [], [0x30, 2, 3]]"
  by (rule certificate_round_trip) (simp add: cert_entry_def)

end
