(* ===== verification/Serve.thy ===== *)
theory Serve
  imports Dnas Proxy TlsHandshake
begin

text \<open>
  tls10.go, the application layer: routing one request, and the loop that reads it from the
  connection, answers it and is done; then the whole of \<open>handshakeAndServe\<close>.
\<close>

section \<open>Static files\<close>

definition content_type_of :: "(string \<Rightarrow> string) \<Rightarrow> string \<Rightarrow> string" where
  "content_type_of ul full =
     (let e = to_lower ul (ext full)
      in if e = ''.xml'' then ''text/xml''
         else if e = ''.html'' \<or> e = ''.htm'' then ''text/html''
         else ''application/octet-stream'')"

definition serve_static :: "(string \<Rightarrow> string) \<Rightarrow> server \<Rightarrow> file_system \<Rightarrow> string \<Rightarrow> bytes" where
  "serve_static ul s fs upath =
     (let full = join_path [doc_root s, clean (slash @ upath)]
      in case rel (doc_root s) full of
           None \<Rightarrow> http_status ''404 Not Found''
         | Some r \<Rightarrow>
             if has_prefix r dotdot then http_status ''404 Not Found''
             else (case read_file fs full of
                     Ok data \<Rightarrow> http_response (content_type_of ul full) data
                   | _ \<Rightarrow> http_status ''404 Not Found''))"

section \<open>Dispatch\<close>

definition image_gif :: string where "image_gif = ''image/gif''"

text \<open>\<open>ul\<close> is \<open>strings.ToLower\<close> on text that is not ASCII, \<open>backend\<close> the network behind the proxy.\<close>

definition dispatch ::
  "(string \<Rightarrow> string) \<Rightarrow> server \<Rightarrow> file_system \<Rightarrow> backend \<Rightarrow> http_request \<Rightarrow> bytes outcome" where
  "dispatch ul s fs backend req =
     (case proxy_for (srv_proxies s) (req_path req) of
        Some rule \<Rightarrow> Ok (proxy backend rule req)
      | None \<Rightarrow>
          let b = base (req_path req) in
          if b = ''v2.5_i-connect'' \<or> b = ''v2.1_d-connect'' \<or> b = ''v2.5_others'' then
            (case gw_dir_for (doc_root s) (req_path req) of
               None \<Rightarrow> Ok (http_response image_gif [])
             | Some gw_dir \<Rightarrow>
                 if force_success s = SuccessAlways
                 then obind (success_reply fs gw_dir (req_body req))
                        (\<lambda>r. Ok (http_response image_gif r))
                 else if b = ''v2.5_others''
                 then obind (others_reply (force_success s) fs gw_dir (req_body req))
                        (\<lambda>r. Ok (http_response image_gif r))
                 else obind (connect_reply (force_success s) fs gw_dir (req_body req))
                        (\<lambda>r. Ok (http_response image_gif r)))
          else Ok (serve_static ul s fs (req_path req)))"

section \<open>Reading application data\<close>

lemma read_record_shorter:
  "read_record c = (Ok x, c') \<Longrightarrow> length (conn_in c') < length (conn_in c)"
proof -
  assume a: "read_record c = (Ok x, c')"
  then obtain hdr c1 where r: "read_full 5 c = (Ok hdr, c1)"
    by (auto simp: read_record_def tbind_Ok)
  then have l: "length (conn_in c1) < length (conn_in c)" by (auto simp: read_full_Ok)
  let ?P = "\<lambda>c'. length (conn_in c') \<le> length (conn_in c1)"
  have f: "keeps ?P (read_full n)" for n
    by (auto simp: keeps_def read_full_def)
  have d: "keeps ?P (decrypt t frag)" for t frag
    by (rule keeps_decrypt) simp_all
  have "keeps ?P (let len = be16 hdr 3 in
     if len > 2 ^ 14 + 2048 then throw (NewErr ''tls: record too large'')
     else tbind (read_full len) (\<lambda>frag c.
       if \<not> read_active c then ret (hdr ! 0, frag) c
       else tbind (decrypt (hdr ! 0) frag) (\<lambda>content. ret (hdr ! 0, content)) c))"
    unfolding Let_def by (intro keeps_tbind keeps_cond keeps_if keeps_ret keeps_throw f d)
  then have "?P c'"
    using a unfolding read_record_def tbind_OkI [where m = "read_full 5", OF r]
    by (metis (no_types, lifting) keepsD order_refl snd_conv)
  with l show ?thesis by simp
qed

function read_app_records :: "bytes tls" where
  "read_app_records c =
     (case read_record c of
        (Ok (ty, data), c1) \<Rightarrow>
          if ty = ctApplicationData then (Ok data, c1)
          else if ty = ctAlert then (Err EOF, c1)
          else read_app_records c1
      | (Err e, c1) \<Rightarrow> (Err e, c1)
      | (Panic, c1) \<Rightarrow> (Panic, c1))"
  by pat_completeness auto
termination
  by (relation "measure (\<lambda>c. length (conn_in c))") (auto dest: read_record_shorter [OF sym])

declare read_app_records.simps [simp del]

definition read_app_data :: "bytes tls" where
  "read_app_data c =
     (if 0 < length (plain_buf c) then (Ok (plain_buf c), c\<lparr>plain_buf := []\<rparr>)
      else read_app_records c)"

section \<open>Answering\<close>

function write_response :: "bytes \<Rightarrow> unit tls" where
  "write_response resp =
     (if length resp > maxPlaintext
      then tbind (write_record ctApplicationData (take maxPlaintext resp))
             (\<lambda>_. write_response (drop maxPlaintext resp))
      else write_record ctApplicationData resp)"
  by pat_completeness auto
termination
  by (relation "measure length") (auto simp: maxPlaintext_def)

declare write_response.simps [simp del]

definition conn_measure :: "tls10_conn \<Rightarrow> nat" where
  "conn_measure c = length (conn_in c) + (if plain_buf c = [] then 0 else 1)"

lemma read_app_records_shorter:
  "read_app_records c = (Ok x, c') \<Longrightarrow> length (conn_in c') < length (conn_in c) \<and> plain_buf c' = plain_buf c"
proof (induction c rule: read_app_records.induct)
  case (1 c)
  obtain r c1 where r: "read_record c = (r, c1)" by fastforce
  have p: "plain_buf c1 = plain_buf c" using read_record_frame_rule [of c] r by auto
  show ?case
  proof (cases r)
    case (Ok a)
    obtain ty data where a: "a = (ty, data)" by fastforce
    have l: "length (conn_in c1) < length (conn_in c)" using read_record_shorter r Ok by blast
    show ?thesis
      using "1.prems" "1.IH" [OF r [unfolded Ok a, symmetric] refl refl] l p r
      by (subst (asm) read_app_records.simps) (auto simp: Ok a split: if_splits)
  qed (use "1.prems" r in \<open>simp_all add: read_app_records.simps [of c]\<close>)
qed

lemma read_app_data_shorter:
  "read_app_data c = (Ok x, c') \<Longrightarrow> conn_measure c' < conn_measure c"
  using read_app_records_shorter [of c x c']
  by (auto simp: read_app_data_def conn_measure_def split: if_splits)

function serve_loop ::
  "(http_request \<Rightarrow> bytes outcome) \<Rightarrow> bytes \<Rightarrow> unit tls" where
  "serve_loop answer buf0 c =
     (case read_app_data c of
        (Err e, c1) \<Rightarrow> (Err e, c1)
      | (Panic, c1) \<Rightarrow> (Panic, c1)
      | (Ok chunk, c1) \<Rightarrow>
          let buf = buf0 @ chunk in
          (case parse_http_request buf of
             Ok None \<Rightarrow> serve_loop answer buf c1
           | Ok (Some req) \<Rightarrow>
               (case answer (req\<lparr>req_remote := client_ip (conn_remote c1)\<rparr>) of
                  Ok resp \<Rightarrow> write_response resp c1
                | Err e \<Rightarrow> (Err e, c1)
                | Panic \<Rightarrow> (Panic, c1))
           | Err e \<Rightarrow> (Err e, c1)
           | Panic \<Rightarrow> (Panic, c1)))"
  by pat_completeness auto
termination
  by (relation "measure (\<lambda>(answer, buf, c). conn_measure c)") (auto dest: read_app_data_shorter [OF sym])

declare serve_loop.simps [simp del]

definition serve_http ::
  "(string \<Rightarrow> string) \<Rightarrow> server \<Rightarrow> file_system \<Rightarrow> backend \<Rightarrow> unit tls" where
  "serve_http ul s fs backend = serve_loop (dispatch ul s fs backend) []"

definition handshake_and_serve ::
  "(string \<Rightarrow> string) \<Rightarrow> server \<Rightarrow> region_hints option \<Rightarrow> (nat \<Rightarrow> string) \<Rightarrow> entropy \<Rightarrow>
   file_system \<Rightarrow> backend \<Rightarrow> unit tls" where
  "handshake_and_serve ul s hs ago ent fs backend =
     tbind (handshake s hs ago ent) (\<lambda>_. serve_http ul s fs backend)"

text \<open>
  \<open>serveTLS10\<close>: a fresh connection state; the error is only logged, the connection is
  closed.  What remains of it is what was sent and whether the process survived.
\<close>

definition serve_tls10 ::
  "(string \<Rightarrow> string) \<Rightarrow> server \<Rightarrow> region_hints option \<Rightarrow> (nat \<Rightarrow> string) \<Rightarrow> entropy \<Rightarrow>
   file_system \<Rightarrow> backend \<Rightarrow> string \<Rightarrow> bytes \<Rightarrow> go_error \<Rightarrow> go_error option list \<Rightarrow> bytes list outcome" where
  "serve_tls10 ul s hs ago ent fs backend remote input end_err writes =
     (case handshake_and_serve ul s hs ago ent fs backend (new_conn remote input end_err writes) of
        (Panic, c) \<Rightarrow> Panic
      | (_, c) \<Rightarrow> Ok (conn_sent c))"

section \<open>Static files stay in the document root\<close>

lemma serve_static_contained:
  assumes "doc_root s \<noteq> []"
  shows "list_all proper (elems (clean (slash @ upath)))"
    and "serve_static ul s fs upath =
      (let es = elems (clean (slash @ upath)); full = render (rooted (doc_root s)) (elems (doc_root s) @ es)
       in if es \<noteq> [] \<and> has_prefix (hd es) dotdot then http_status ''404 Not Found''
          else case fs full of
            None \<Rightarrow> http_status ''404 Not Found''
          | Some data \<Rightarrow> http_response (content_type_of ul full) data)"
proof -
  define q where "q = slash @ upath"
  have r: "rooted q" by (simp add: q_def rooted_def)
  have p: "\<forall>e \<in> set (elems q). proper e" by (rule elems_proper [OF r])
  then show "list_all proper (elems (clean (slash @ upath)))"
    unfolding q_def [symmetric] list_all_iff elems_clean .
  note j = clean_join [OF assms r]
  note rl = rel_join [OF assms r, unfolded j]
  have d: "has_prefix (if elems q = [] then dot else join (elems q) slash) dotdot \<longleftrightarrow>
      elems q \<noteq> [] \<and> has_prefix (hd (elems q)) dotdot"
    using has_prefix_join_dotdot [of "elems q"] p by (simp add: has_prefix_def)
  show "serve_static ul s fs upath =
      (let es = elems (clean (slash @ upath)); full = render (rooted (doc_root s)) (elems (doc_root s) @ es)
       in if es \<noteq> [] \<and> has_prefix (hd es) dotdot then http_status ''404 Not Found''
          else case fs full of
            None \<Rightarrow> http_status ''404 Not Found''
          | Some data \<Rightarrow> http_response (content_type_of ul full) data)"
    unfolding serve_static_def q_def [symmetric] j Let_def rl option.case d elems_clean
    by (simp add: read_file_def split: option.split)
qed

section \<open>Responses in pieces\<close>

function fragments :: "bytes \<Rightarrow> bytes list" where
  "fragments resp =
     (if length resp > maxPlaintext then take maxPlaintext resp # fragments (drop maxPlaintext resp)
      else [resp])"
  by pat_completeness auto
termination
  by (relation "measure length") (auto simp: maxPlaintext_def)

declare fragments.simps [simp del]

lemma fragments_spec: "concat (fragments resp) = resp \<and> (\<forall>f \<in> set (fragments resp). length f \<le> maxPlaintext)"
proof (induction resp rule: fragments.induct)
  case (1 resp)
  then show ?case
    by (cases "length resp > maxPlaintext") (simp_all add: fragments.simps [of resp])
qed

abbreviation app_records :: "bytes list \<Rightarrow> (byte \<times> bytes) list" where
  "app_records fs \<equiv> map (Pair ctApplicationData) fs"

lemma seal_writes: "conn_writes (snd (seal_payload t m c)) = conn_writes c"
proof (cases "write_active c")
  case True
  then show ?thesis
    unfolding seal_payload_eq Let_def
    by (simp split: option.split outcome.split split del: if_split)
qed (simp add: seal_payload_inactive)

lemma put_record_write:
  assumes "put_record t m w = Some (b, w')" and "conn_writes w = []"
  shows "write_record t m w = (Ok (), w'\<lparr>conn_sent := conn_sent w @ [b]\<rparr>)
    \<and> conn_writes w' = [] \<and> conn_sent w' = conn_sent w"
proof -
  from assms(1) obtain p where p: "seal_payload t m w = (Ok p, w')" "b = frame t p"
    by (auto simp: put_record_def split: prod.splits outcome.splits)
  have "conn_sent w' = conn_sent w" using conn_sent_seal [of t m w] p by simp
  moreover have "conn_writes w' = conn_writes w"
    using seal_writes [of t m w] p by simp
  ultimately show ?thesis using p assms(2) by (simp add: write_record_def tbind_def conn_write_def)
qed

text \<open>\<open>conn_sent\<close> plays no part in sealing, so the puts may run before the sends are noted.\<close>

lemma put_record_sent:
  "put_record t m (w\<lparr>conn_sent := x\<rparr>) = map_option (\<lambda>(b, w'). (b, w'\<lparr>conn_sent := x\<rparr>)) (put_record t m w)"
proof (cases "write_active w")
  case True
  then show ?thesis
    unfolding put_record_def seal_payload_eq Let_def
    by (simp split: option.split outcome.split split del: if_split cong: if_cong)
qed (simp add: put_record_def seal_payload_inactive)

lemma put_all_sent:
  "put_all put_record ms (w\<lparr>conn_sent := x\<rparr>) =
   map_option (\<lambda>(bs, w'). (bs, w'\<lparr>conn_sent := x\<rparr>)) (put_all put_record ms w)"
proof (induction ms arbitrary: w)
  case (Cons a ms)
  obtain t m where a: "a = (t, m)" by fastforce
  show ?case
    by (auto simp: a put_record_sent Cons split: option.split)
qed simp

lemma write_response_puts:
  "put_all put_record (app_records (fragments resp)) w = Some (bs, w') \<Longrightarrow> conn_writes w = [] \<Longrightarrow>
   write_response resp w = (Ok (), w'\<lparr>conn_sent := conn_sent w @ bs\<rparr>)"
proof (induction resp arbitrary: w bs w' rule: write_response.induct)
  case (1 resp)
  show ?case
  proof (cases "length resp > maxPlaintext")
    case False
    then obtain b where "put_record ctApplicationData resp w = Some (b, w')" "bs = [b]"
      using "1.prems"(1) by (auto simp: fragments.simps [of resp] split: option.splits)
    with put_record_write [OF _ "1.prems"(2)] False show ?thesis
      by (simp add: write_response.simps [of resp])
  next
    case True
    let ?m = "take maxPlaintext resp"
    from "1.prems"(1) True obtain b w1 bs1
      where p: "put_record ctApplicationData ?m w = Some (b, w1)"
        and ps: "put_all put_record (app_records (fragments (drop maxPlaintext resp))) w1 = Some (bs1, w')"
        and bs: "bs = b # bs1"
      by (auto simp: fragments.simps [of resp] split: option.splits)
    let ?w1 = "w1\<lparr>conn_sent := conn_sent w @ [b]\<rparr>"
    note w = put_record_write [OF p "1.prems"(2)]
    have "put_all put_record (app_records (fragments (drop maxPlaintext resp))) ?w1 =
        Some (bs1, w'\<lparr>conn_sent := conn_sent w @ [b]\<rparr>)"
      by (simp add: put_all_sent ps)
    from "1.IH" [OF True this] w
    have "write_response (drop maxPlaintext resp) ?w1 = (Ok (), w'\<lparr>conn_sent := conn_sent w @ b # bs1\<rparr>)"
      by simp
    then show ?thesis
      using w True by (simp add: write_response.simps [of resp] tbind_def bs)
  qed
qed

lemma response_delivered:
  assumes "synced w r" and "conn_writes w = []"
  obtains bs w' r' where "write_response resp w = (Ok (), w')" and "conn_sent w' = conn_sent w @ bs"
    and "get_all get_record (length bs) (concat bs) r = Some (app_records (fragments resp), [], r')"
proof -
  have f: "list_all (\<lambda>(t, m). length m \<le> maxPlaintext) (app_records (fragments resp))"
    using fragments_spec [of resp] by (auto simp: list_all_iff)
  from tls_channel.deliver_all [OF assms(1) f] obtain bs w1
    where p: "put_all put_record (app_records (fragments resp)) w = Some (bs, w1)"
      and l: "length bs = length (app_records (fragments resp))"
      and g: "\<And>rest. \<exists>r'. get_all get_record (length (app_records (fragments resp))) (concat bs @ rest) r =
        Some (app_records (fragments resp), rest, r') \<and> synced w1 r'" by blast
  from g [of "[]"] obtain r' where "get_all get_record (length bs) (concat bs) r =
      Some (app_records (fragments resp), [], r')" by (auto simp: l)
  from that [OF write_response_puts [OF p assms(2)] _ this] show ?thesis by simp
qed

section \<open>A request in pieces\<close>

lemma read_record_frame_app: "read_record c = (r, c') \<Longrightarrow>
  \<exists>inp iv sq. c' = c\<lparr>conn_in := inp, read_iv := iv, read_seq := sq\<rparr>"
  using read_record_frame_rule [of c] by auto

lemma read_app_data_record:
  assumes "plain_buf c = []" and "read_record c = (Ok (ctApplicationData, data), c1)"
  shows "read_app_data c = (Ok data, c1)"
  using assms by (simp add: read_app_data_def read_app_records.simps [of c])

text \<open>
  However the client cuts a request into records, the loop collects it, parses it once it is
  complete and answers it; nothing but the reading side of the connection has changed by then.
\<close>

lemma serve_loop_chunks:
  "synced cl c \<Longrightarrow> plain_buf c = [] \<Longrightarrow> pieces \<noteq> [] \<Longrightarrow>
   list_all (\<lambda>m. length m \<le> maxPlaintext) pieces \<Longrightarrow>
   put_all put_record (app_records pieces) cl = Some (bs, cl') \<Longrightarrow> conn_in c = concat bs @ rest \<Longrightarrow>
   parse_http_request (buf0 @ concat pieces) = Ok (Some req) \<Longrightarrow>
   \<exists>inp iv sq. serve_loop answer buf0 c =
     (let c' = c\<lparr>conn_in := inp, read_iv := iv, read_seq := sq\<rparr>
      in case answer (req\<lparr>req_remote := client_ip (conn_remote c)\<rparr>) of
           Ok resp \<Rightarrow> write_response resp c' | Err e \<Rightarrow> (Err e, c') | Panic \<Rightarrow> (Panic, c'))"
proof (induction pieces arbitrary: cl c bs buf0)
  case (Cons m ms)
  from Cons.prems(5) obtain b bs1 cl1
    where p: "put_record ctApplicationData m cl = Some (b, cl1)"
      and ps: "put_all put_record (app_records ms) cl1 = Some (bs1, cl')" and bs: "bs = b # bs1"
    by (auto split: option.splits)
  from p obtain payload where pl: "seal_payload ctApplicationData m cl = (Ok payload, cl1)"
    and b: "b = frame ctApplicationData payload"
    by (auto simp: put_record_def split: prod.splits outcome.splits)
  have inp: "conn_in c = frame ctApplicationData payload @ concat bs1 @ rest"
    using Cons.prems(6) by (simp add: bs b)
  from Cons.prems(4) have "length m \<le> maxPlaintext" by simp
  from record_round_trip [OF Cons.prems(1) this pl inp] obtain c1
    where r: "read_record c = (Ok (ctApplicationData, m), c1)"
      and c1: "conn_in c1 = concat bs1 @ rest" "synced cl1 c1" by blast
  from read_record_frame_app [OF r] obtain inp iv sq
    where c1': "c1 = c\<lparr>conn_in := inp, read_iv := iv, read_seq := sq\<rparr>" by blast
  note d = read_app_data_record [OF Cons.prems(2) r]
  show ?case
  proof (cases "parse_http_request (buf0 @ m)")
    case (Err e)
    then show ?thesis by (simp add: parse_http_request_no_error)
  next
    case Panic
    from parse_panic_append [OF this, of "concat ms"] Cons.prems(7) show ?thesis by simp
  next
    case (Ok a)
    show ?thesis
    proof (cases a)
      case (Some req')
      with Ok parse_http_request_append [of "buf0 @ m" req' "concat ms"] Cons.prems(7)
      have "req' = req" by simp
      with Ok Some d show ?thesis
        by - (rule exI [of _ inp], rule exI [of _ iv], rule exI [of _ sq],
            simp add: serve_loop.simps [of answer buf0 c] c1' Let_def)
    next
      case None
      have "ms \<noteq> []" using Ok None Cons.prems(7) by auto
      from Cons.IH [OF c1(2) _ this _ ps c1(1), of "buf0 @ m"] Cons.prems(2,4,7) c1'
      obtain inp iv sq where "serve_loop answer (buf0 @ m) c1 =
         (let c' = c1\<lparr>conn_in := inp, read_iv := iv, read_seq := sq\<rparr>
          in case answer (req\<lparr>req_remote := client_ip (conn_remote c)\<rparr>) of
               Ok resp \<Rightarrow> write_response resp c' | Err e \<Rightarrow> (Err e, c') | Panic \<Rightarrow> (Panic, c'))"
        by auto
      moreover have "serve_loop answer buf0 c = serve_loop answer (buf0 @ m) c1"
        using Ok None d by (simp add: serve_loop.simps [of answer buf0 c])
      ultimately show ?thesis
        by - (rule exI [of _ inp], rule exI [of _ iv], rule exI [of _ sq],
            simp add: c1' Let_def)
    qed
  qed
qed simp

lemma dispatch_Ok: "\<exists>b. dispatch ul s fs backend req = Ok b"
  using connect_reply_lookup [of "force_success s" fs _ "req_body req"]
    others_reply_lookup [of "force_success s" fs _ "req_body req"]
  by (simp add: dispatch_def Let_def success_reply_relabelled split: option.split)

section \<open>Panics\<close>

lemma handshake_conn_ok:
  assumes "server_random ent \<noteq> Panic"
  shows "keeps conn_ok (handshake s hs ago ent)"
proof -
  have "keeps conn_ok (present_cert s hs ago)"
    by (auto simp: keeps_def present_cert_def conn_ok_def split: prod.split option.split private_key.split)
  moreover have "keeps conn_ok (wrap_err w read_client_hello)" for w
    using keepsD [OF read_client_hello_ok]
    by (auto simp: keeps_def wrap_err_def split: prod.split outcome.split) (metis snd_conv)+
  moreover have "keeps conn_ok (after_hello s ent cert priv cr)" for cert priv cr
    using safe_after_hello [OF assms] by (simp add: safe_def)
  ultimately show ?thesis
    unfolding handshake_after_hello by (intro keeps_intros) auto
qed

lemma safe_read_app_records: "conn_ok c \<Longrightarrow> fst (read_app_records c) \<noteq> Panic \<and> conn_ok (snd (read_app_records c))"
proof (induction c rule: read_app_records.induct)
  case (1 c)
  obtain r c1 where r: "read_record c = (r, c1)" by fastforce
  then have ok: "r \<noteq> Panic" "conn_ok c1" using safeD [OF safe_read_record "1.prems"] by simp_all
  show ?case
  proof (cases r)
    case (Ok a)
    obtain ty data where a: "a = (ty, data)" by fastforce
    show ?thesis
      using "1.IH" [OF r [unfolded Ok a, symmetric] refl refl] ok r
      by (subst (1 2) read_app_records.simps) (simp add: Ok a)
  qed (use ok r in \<open>simp_all add: read_app_records.simps [of c]\<close>)
qed

lemma safe_read_app_data [safe_intros]: "safe read_app_data"
  using safe_read_app_records
  by (auto simp: safe_def keeps_def read_app_data_def) (simp add: conn_ok_def)

lemma safe_write_response [safe_intros]: "safe (write_response resp)"
proof (induction resp rule: write_response.induct)
  case (1 resp)
  then show ?case
    by (cases "length resp > maxPlaintext")
       (simp_all add: write_response.simps [of resp] safe_intros)
qed

text \<open>The application data of the first n records that carry some.\<close>

fun received :: "nat \<Rightarrow> tls10_conn \<Rightarrow> (bytes \<times> tls10_conn) option" where
  "received 0 c = Some ([], c)"
| "received (Suc n) c =
     (case read_app_data c of
        (Ok d, c1) \<Rightarrow> map_option (\<lambda>(b, c2). (d @ b, c2)) (received n c1)
      | _ \<Rightarrow> None)"

lemma serve_loop_panic:
  "(\<And>req. answer req \<noteq> Panic) \<Longrightarrow> conn_ok c \<Longrightarrow> fst (serve_loop answer buf c) = Panic \<longleftrightarrow>
    (\<exists>n data c'. received (Suc n) c = Some (data, c') \<and> parse_http_request (buf @ data) = Panic)"
proof (induction answer buf c rule: serve_loop.induct)
  case (1 answer buf c)
  obtain r c1 where d: "read_app_data c = (r, c1)" by fastforce
  then have ok: "r \<noteq> Panic" "conn_ok c1"
    using safeD [OF safe_read_app_data "1.prems"(2)] by simp_all
  show ?case
  proof (cases r)
    case (Ok m)
    show ?thesis
    proof (cases "parse_http_request (buf @ m)")
      case (Ok a)
      have r1: "received (Suc n) c = map_option (\<lambda>(b, c2). (m @ b, c2)) (received n c1)" for n
        by (simp add: d \<open>r = Ok m\<close>)
      show ?thesis
      proof (cases a)
        case (Some req)
        let ?req = "req\<lparr>req_remote := client_ip (conn_remote c1)\<rparr>"
        have "fst (serve_loop answer buf c) \<noteq> Panic"
          using "1.prems"(1) [of ?req] safeD [OF safe_write_response ok(2)] Ok Some
          by (simp add: serve_loop.simps [of answer buf c] d \<open>r = Ok m\<close> split: outcome.split)
        moreover have "parse_http_request (buf @ m @ b) \<noteq> Panic" for b
          using parse_http_request_append [of "buf @ m" req b] Ok Some by simp
        ultimately show ?thesis by (auto simp: r1 simp del: received.simps)
      next
        case None
        have "serve_loop answer buf c = serve_loop answer (buf @ m) c1"
          using Ok None by (simp add: serve_loop.simps [of answer buf c] d \<open>r = Ok m\<close>)
        moreover note "1.IH" [OF d [unfolded \<open>r = Ok m\<close>, symmetric] refl refl Ok None "1.prems"(1) ok(2)]
        ultimately have e: "fst (serve_loop answer buf c) = Panic \<longleftrightarrow>
            (\<exists>n data c'. received (Suc n) c1 = Some (data, c') \<and> parse_http_request (buf @ m @ data) = Panic)"
          by simp
        show ?thesis
        proof
          assume "fst (serve_loop answer buf c) = Panic"
          then obtain n data c' where "received (Suc n) c1 = Some (data, c')"
            "parse_http_request (buf @ m @ data) = Panic" unfolding e by blast
          then show "\<exists>n data c'. received (Suc n) c = Some (data, c') \<and> parse_http_request (buf @ data) = Panic"
            using r1 [of "Suc n"] by (metis (no_types, lifting) case_prod_conv option.simps(9))
        next
          assume "\<exists>n data c'. received (Suc n) c = Some (data, c') \<and> parse_http_request (buf @ data) = Panic"
          then obtain n b c' where n: "received n c1 = Some (b, c')" "parse_http_request (buf @ m @ b) = Panic"
            unfolding r1 by auto
          then show "fst (serve_loop answer buf c) = Panic"
            using Ok None unfolding e by (cases n) (auto simp del: received.simps(2))
        qed
      qed
    next
      case Panic
      then have "received (Suc 0) c = Some (m, c1)" "fst (serve_loop answer buf c) = Panic"
        by (simp_all add: serve_loop.simps [of answer buf c] d \<open>r = Ok m\<close>)
      with Panic show ?thesis by blast
    qed (simp add: parse_http_request_no_error)
  qed (use ok d in \<open>simp_all add: serve_loop.simps [of answer buf c]\<close>)
qed

lemma seal_reading_side:
  "read_active (snd (seal_payload t m c)) = read_active c \<and> read_cipher (snd (seal_payload t m c)) = read_cipher c
   \<and> read_iv (snd (seal_payload t m c)) = read_iv c \<and> read_mac (snd (seal_payload t m c)) = read_mac c
   \<and> read_seq (snd (seal_payload t m c)) = read_seq c"
proof (cases "write_active c")
  case True
  then show ?thesis
    unfolding seal_payload_eq Let_def
    by (simp split: option.split outcome.split split del: if_split)
qed (simp add: seal_payload_inactive)

lemma put_all_synced:
  "put_all put_record ms cl = Some (bs, cl') \<Longrightarrow> synced c cl \<Longrightarrow> synced c cl'"
proof (induction ms arbitrary: cl bs)
  case (Cons a ms)
  obtain t m where a: "a = (t, m)" by fastforce
  from Cons.prems(1) obtain b cl1 bs1 where p: "put_record t m cl = Some (b, cl1)"
    and ps: "put_all put_record ms cl1 = Some (bs1, cl')"
    by (auto simp: a split: option.splits)
  have "synced c cl1"
    using Cons.prems(2) seal_reading_side [of t m cl] p
    by (auto simp: put_record_def synced_def split: prod.splits outcome.splits)
  from Cons.IH [OF ps this] show ?case .
qed simp

lemma request_service:
  assumes "synced cl c" and "synced c cl" and "plain_buf c = []" and "conn_writes c = []"
    and "pieces \<noteq> []" and "list_all (\<lambda>m. length m \<le> maxPlaintext) pieces"
    and "put_all put_record (app_records pieces) cl = Some (bs, cl')"
    and "conn_in c = concat bs @ rest" and "parse_http_request (concat pieces) = Ok (Some req)"
  shows "\<exists>reply sent frags c' cl''.
    dispatch ul s fs backend (req\<lparr>req_remote := client_ip (conn_remote c)\<rparr>) = Ok reply \<and>
    serve_http ul s fs backend c = (Ok (), c') \<and> conn_sent c' = conn_sent c @ sent \<and>
    get_all get_record (length sent) (concat sent) cl' = Some (app_records frags, [], cl'') \<and>
    concat frags = reply \<and> (\<forall>f \<in> set frags. length f \<le> 2 ^ 14)"
proof -
  let ?req = "req\<lparr>req_remote := client_ip (conn_remote c)\<rparr>"
  obtain reply where reply: "dispatch ul s fs backend ?req = Ok reply" using dispatch_Ok by blast
  from serve_loop_chunks [OF assms(1,3,5,6,7,8), of "[]" req "dispatch ul s fs backend"] assms(9)
  obtain inp iv sq where loop: "serve_http ul s fs backend c =
      write_response reply (c\<lparr>conn_in := inp, read_iv := iv, read_seq := sq\<rparr>)"
    by (auto simp: serve_http_def reply Let_def)
  let ?c = "c\<lparr>conn_in := inp, read_iv := iv, read_seq := sq\<rparr>"
  have "synced ?c cl'" using put_all_synced [OF assms(7,2)] by (simp add: synced_def)
  then obtain sent c' cl'' where "write_response reply ?c = (Ok (), c')" "conn_sent c' = conn_sent ?c @ sent"
    "get_all get_record (length sent) (concat sent) cl' = Some (app_records (fragments reply), [], cl'')"
    using assms(4) by (rule_tac response_delivered [of ?c cl' reply]) simp_all
  with loop reply fragments_spec [of reply] show ?thesis
    unfolding maxPlaintext_def by (intro exI conjI) auto
qed

lemma serve_panic:
  assumes "server_random ent \<noteq> Panic"
  shows "serve_tls10 ul s hs ago ent fs backend remote input e writes = Panic \<longleftrightarrow>
    (let c0 = new_conn remote input e writes
     in fst (handshake s hs ago ent c0) = Panic \<or>
        (\<exists>c n data c'. handshake s hs ago ent c0 = (Ok (), c) \<and> received (Suc n) c = Some (data, c') \<and>
           parse_http_request data = Panic))"
proof -
  let ?c0 = "new_conn remote input e writes"
  obtain r c where h: "handshake s hs ago ent ?c0 = (r, c)" by fastforce
  then have ok: "conn_ok c" using keepsD [OF handshake_conn_ok [OF assms] new_conn_ok, of s hs ago remote input e writes]
    by simp
  have d: "dispatch ul s fs backend req \<noteq> Panic" for req
    using dispatch_Ok [of ul s fs backend req] by auto
  have "serve_tls10 ul s hs ago ent fs backend remote input e writes = Panic \<longleftrightarrow>
      fst (handshake_and_serve ul s hs ago ent fs backend ?c0) = Panic"
    by (simp add: serve_tls10_def split: prod.split outcome.split)
  then show ?thesis
    using serve_loop_panic [of "dispatch ul s fs backend", OF d ok, of "[]"] h
    by (cases r) (auto simp: handshake_and_serve_def tbind_def Let_def serve_http_def)
qed

text \<open>The same with the input spelled out.\<close>

lemma serve_panic_input:
  assumes "server_random ent \<noteq> Panic"
  shows "serve_tls10 ul s hs ago ent fs backend remote input e writes = Panic \<longleftrightarrow>
    (case cert_for (srv_certs s) (default_region s) hs ago (client_ip remote) of
       (None, _) \<Rightarrow> True
     | (Some cert, source) \<Rightarrow> cert_key cert \<noteq> OtherKey \<and> short_hello input) \<or>
    (\<exists>c n data c' idx head.
       handshake s hs ago ent (new_conn remote input e writes) = (Ok (), c) \<and>
       received (Suc n) c = Some (data, c') \<and> index_of data head_end = Some idx \<and>
       head = split_on (string_of (take idx data)) crlf \<and> 2 \<le> length (str_fields (hd head)) \<and>
       atoi (header_get (add_lines Map.empty (tl head)) ''Content-Length'') < 0)"
proof -
  have n: "\<not> read_active (new_conn remote input e writes)" "conn_remote (new_conn remote input e writes) = remote"
    "conn_in (new_conn remote input e writes) = input" by (simp_all add: new_conn_def)
  show ?thesis
    unfolding serve_panic [OF assms] Let_def handshake_panic [OF assms new_conn_ok n(1)] n(2,3)
      parse_http_request_panic by (simp only: ex_simps)
qed

section \<open>Properties\<close>

lemma render_nonempty: "\<forall>e \<in> set es. kept e \<Longrightarrow> render r es \<noteq> []"
  using join_slash_hd [of es] by (auto simp: render_def)

text \<open>The gateway directory of a plain path, and the path of a capture in it.\<close>

lemma gw_dir_plain:
  assumes "root \<noteq> []" and "\<forall>d \<in> set ds. proper d" and "proper e"
    and "ds = [] \<or> \<not> has_prefix (hd ds) dotdot"
  shows "gw_dir_for root (slash @ join (ds @ [e]) slash) = Some (render (rooted root) (elems root @ ds))"
  using gw_containment [OF assms(1), of "slash @ join (ds @ [e]) slash"] dir_plain [OF assms(2,3)] assms(4)
  by (auto simp: Let_def)

lemma capture_path:
  assumes "\<forall>d \<in> set ds. proper d" and "4 \<le> length body"
    and "gw = render (rooted root) (elems root @ ds)"
  shows "captured fs gw body off (body ! 1) =
    fs (render (rooted root) (elems root @ ds @
      [''packets'', hex_encode (gslice off (off + 8) body) @ ''_'' @ hex_encode (take 4 body)]))"
proof -
  have k: "\<forall>e \<in> set (elems root @ ds). kept e"
    using assms(1) elems_kept [of root] by (auto simp: proper_kept)
  have "gw \<noteq> []" "rooted gw = rooted root" "elems gw = elems root @ ds"
    unfolding assms(3) using render_nonempty [OF k] k elems_clean_append [OF assms(1)] by simp_all
  moreover have "capture_name body off (body ! 1) =
      hex_encode (gslice off (off + 8) body) @ ''_'' @ hex_encode (take 4 body)"
    using four_bytes [OF assms(2)] by (simp add: capture_name_def gslice_def)
  ultimately show ?thesis
    using packet_path [of gw body off "body ! 1"] by (simp add: captured_def)
qed

text \<open>C15. A captured title gets its capture, from the request line to the bytes of the reply:
  a request for an endpoint in a gateway directory (at any depth, no proxy rule, not in the
  always mode) whose game ID and query type name a file in that directory's packets is
  answered with status 200, the true length, and a body that is the capture byte for byte
  on the others endpoint, and that the title opens to the capture on the connect endpoints.\<close>

theorem capture_replayed:
  assumes "proxy_for (srv_proxies s) (req_path req) = None"
    and "req_path req = slash @ join (ds @ [ep]) slash"
    and "ep \<in> {''v2.5_i-connect'', ''v2.1_d-connect'', ''v2.5_others''}"
    and "\<forall>d \<in> set ds. proper d" and "ds = [] \<or> \<not> has_prefix (hd ds) dotdot"
    and "doc_root s \<noteq> []" and "force_success s \<noteq> SuccessAlways"
    and "off = (if ep = ''v2.5_others'' then 0x1b else 0x2c)"
    and "off + 8 \<le> length (req_body req)"
    and "fs (render (rooted (doc_root s)) (elems (doc_root s) @ ds @ [''packets'',
        hex_encode (gslice off (off + 8) (req_body req)) @ ''_'' @ hex_encode (take 4 (req_body req))])) = Some p"
    and "ep = ''v2.5_others'' \<or> 0x134 \<le> length (req_body req) \<and> 0x148 \<le> length p"
  shows "\<exists>reply body. dispatch ul s fs backend req = Ok reply \<and>
    cut_reply reply = Some ([''HTTP/1.0 200 OK'', ''Content-Type: image/gif'',
      ''Content-Length: '' @ itoa (length p), ''Connection: close''], body) \<and>
    (if ep = ''v2.5_others'' then body = p else open_reply (req_body req) body = p)"
proof -
  let ?req = "req_body req" and ?gw = "render (rooted (doc_root s)) (elems (doc_root s) @ ds)"
  have ep: "proper ep" using assms(3) by (auto simp: proper_def)
  have b: "base (req_path req) = ep" unfolding assms(2) by (rule base_plain [OF ep])
  have gw: "gw_dir_for (doc_root s) (req_path req) = Some ?gw"
    unfolding assms(2) by (rule gw_dir_plain [OF assms(6,4) ep assms(5)])
  have l: "4 \<le> length ?req" using assms(8,9) by simp
  have found: "find_capture fs ?gw ?req off = Found p"
    using capture_path [OF assms(4) l refl, of fs "doc_root s" off] assms(9,10) l
    by (simp add: find_capture_def)
  show ?thesis
  proof (cases "ep = ''v2.5_others''")
    case True
    then have "dispatch ul s fs backend req = Ok (http_response image_gif p)"
      using found assms(7,8) by (simp add: dispatch_def assms(1) Let_def b gw others_reply_lookup)
    with True show ?thesis
      using reply_cut [of image_gif p] by (simp add: image_gif_def)
  next
    case False
    then have off: "off = 0x2c" and len: "0x134 \<le> length ?req" "0x148 \<le> length p"
      using assms(8,11) by simp_all
    obtain r where r: "connect_encrypt p ?req = Ok r" "open_reply ?req r = p" "length r = length p"
      by (rule connect_encrypt_opens [OF len])
    have "dispatch ul s fs backend req = Ok (http_response image_gif r)"
      using found [unfolded off] assms(3,7) False r(1)
      by (auto simp: dispatch_def assms(1) Let_def b gw connect_reply_lookup)
    with False r show ?thesis
      using reply_cut [of image_gif r] by (simp add: image_gif_def)
  qed
qed

definition demo_connect :: http_request where
  "demo_connect = \<lparr>req_method = ''POST'', req_path = ''/us-gw/v2.5_i-connect'', req_header = Map.empty,
     req_body = replicate 0x134 0, req_remote = ''10.0.0.2''\<rparr>"

definition demo_captures :: file_system where
  "demo_captures path = (if path = ''/srv/www/us-gw/packets/0000000000000000_00000000''
     then Some (replicate 0x148 7) else None)"

theorem capture_replayed_witness:
  "\<exists>reply body. dispatch (\<lambda>x. x) demo_server demo_captures demo_backend demo_connect = Ok reply \<and>
    cut_reply reply = Some ([''HTTP/1.0 200 OK'', ''Content-Type: image/gif'',
      ''Content-Length: '' @ itoa (length (replicate 0x148 (7 :: byte))), ''Connection: close''], body) \<and>
    (if ''v2.5_i-connect'' = ''v2.5_others'' then body = replicate 0x148 7
     else open_reply (req_body demo_connect) body = replicate 0x148 7)"
proof -
  have root: "doc_root demo_server = ''/srv/www''" by (simp add: demo_server_def)
  have path: "render (rooted ''/srv/www'') (elems ''/srv/www'' @ [''us-gw''] @ [''packets'',
      hex_encode (replicate 8 0) @ ''_'' @ hex_encode (replicate 4 0)]) =
      ''/srv/www/us-gw/packets/0000000000000000_00000000''" by code_simp
  have gs: "gslice 0x2c (0x2c + 8) (req_body demo_connect) = replicate 8 0"
    "take 4 (req_body demo_connect) = replicate 4 0" by (simp_all add: gslice_def demo_connect_def)
  show ?thesis
  proof (rule capture_replayed [where ds = "[''us-gw'']" and off = "0x2c"])
    show "demo_captures (render (rooted (doc_root demo_server)) (elems (doc_root demo_server) @ [''us-gw''] @ [''packets'',
        hex_encode (gslice 0x2c (0x2c + 8) (req_body demo_connect)) @ ''_'' @
        hex_encode (take 4 (req_body demo_connect))])) = Some (replicate 0x148 7)"
      unfolding root gs path by (simp add: demo_captures_def)
  qed (simp_all add: demo_server_def demo_connect_def proper_def has_prefix_def)
qed

text \<open>C16. A static request reads no file outside the document root: the file is the root's own
  elements followed by proper elements of the request path; a path whose first element starts
  with two dots is refused, a missing file is a 404, and a file is sent whole with its type.\<close>

theorem static_contained:
  assumes "doc_root s \<noteq> []" and "es = elems (clean (slash @ upath))"
    and "full = render (rooted (doc_root s)) (elems (doc_root s) @ es)"
  shows "list_all proper es \<and> serve_static ul s fs upath =
    (if es \<noteq> [] \<and> has_prefix (hd es) dotdot then http_status ''404 Not Found''
     else case fs full of
       None \<Rightarrow> http_status ''404 Not Found''
     | Some data \<Rightarrow> http_response (content_type_of ul full) data)"
  unfolding assms(3) unfolding assms(2)
  using serve_static_contained(1) [OF assms(1), of upath]
    serve_static_contained(2) [OF assms(1), of ul fs upath, unfolded Let_def] by (rule conjI)

theorem static_contained_witness:
  "serve_static (\<lambda>x. x) demo_server (\<lambda>p. if p = ''/srv/www/etc/a.XML'' then Some [1] else Some [2])
     ''../x/../../etc/a.XML'' = http_response ''text/xml'' [1]"
proof -
  have es: "[''etc'', ''a.XML''] = elems (clean (slash @ ''../x/../../etc/a.XML''))" by code_simp
  have full: "''/srv/www/etc/a.XML'' =
      render (rooted (doc_root demo_server)) (elems (doc_root demo_server) @ [''etc'', ''a.XML''])"
    by (simp add: demo_server_def) code_simp
  have d: "\<not> has_prefix ''etc'' dotdot" "content_type_of (\<lambda>x. x) ''/srv/www/etc/a.XML'' = ''text/xml''"
    by code_simp+
  show ?thesis
    using static_contained [OF _ es full, of "\<lambda>x. x" "\<lambda>p. if p = ''/srv/www/etc/a.XML'' then Some [1] else Some [2]"]
    by (simp add: demo_server_def d)
qed

text \<open>C9. On an established connection a request arrives and its answer departs whole: however the
  client cuts the request into records, the server answers exactly that request, noted with
  the client's address, and the client that reads the records sent back gets, in pieces of
  at most 2^14 bytes, exactly the bytes \<open>dispatch\<close> returned.\<close>

theorem request_answered:
  assumes "synced cl c" and "synced c cl" and "plain_buf c = []" and "conn_writes c = []"
    and "pieces \<noteq> []" and "list_all (\<lambda>m. length m \<le> maxPlaintext) pieces"
    and "put_all put_record (app_records pieces) cl = Some (bs, cl')"
    and "conn_in c = concat bs @ rest" and "parse_http_request (concat pieces) = Ok (Some req)"
  shows "\<exists>reply sent frags c' cl''.
    dispatch ul s fs backend (req\<lparr>req_remote := client_ip (conn_remote c)\<rparr>) = Ok reply \<and>
    serve_http ul s fs backend c = (Ok (), c') \<and> conn_sent c' = conn_sent c @ sent \<and>
    get_all get_record (length sent) (concat sent) cl' = Some (app_records frags, [], cl'') \<and>
    concat frags = reply \<and> (\<forall>f \<in> set frags. length f \<le> 2 ^ 14)"
  by (rule request_service [OF assms])

definition demo_get :: bytes where
  "demo_get = print_request ''GET'' ''/a'' [] ([] @ [])"

lemma demo_get_parsed: "parse_http_request demo_get =
  Ok (Some \<lparr>req_method = ''GET'', req_path = ''/a'', req_header = header_of [], req_body = [], req_remote = []\<rparr>)"
  unfolding demo_get_def
proof (rule parse_printed)
  show "atoi (header_get (header_of []) ''Content-Length'') = int (length ([] :: bytes))" by code_simp
qed (simp_all add: visible_def)

theorem request_answered_witness:
  "\<exists>bs cl' reply sent frags c' cl''.
    put_all put_record (app_records [take 5 demo_get, drop 5 demo_get]) demo_conn = Some (bs, cl') \<and>
    dispatch (\<lambda>x. x) demo_server (\<lambda>_. Some [7, 7]) demo_backend
      \<lparr>req_method = ''GET'', req_path = ''/a'', req_header = header_of [], req_body = [],
       req_remote = client_ip ''10.0.0.2:1024''\<rparr> = Ok reply \<and>
    serve_http (\<lambda>x. x) demo_server (\<lambda>_. Some [7, 7]) demo_backend (demo_conn\<lparr>conn_in := concat bs\<rparr>) = (Ok (), c') \<and>
    conn_sent c' = sent \<and>
    get_all get_record (length sent) (concat sent) cl' = Some (app_records frags, [], cl'') \<and>
    concat frags = reply"
proof -
  let ?ps = "[take 5 demo_get, drop 5 demo_get]"
  have l: "length demo_get = 19" unfolding demo_get_def by code_simp
  have s: "synced demo_conn demo_conn" by (simp add: demo_conn_def new_conn_def synced_def)
  have f: "list_all (\<lambda>m. length m \<le> maxPlaintext) ?ps" by (simp add: l maxPlaintext_def)
  then have "list_all (\<lambda>(t, m). length m \<le> maxPlaintext) (app_records ?ps)" by simp
  from tls_channel.deliver_all [OF s this] obtain bs cl'
    where p: "put_all put_record (app_records ?ps) demo_conn = Some (bs, cl')" by blast
  have s2: "synced demo_conn (demo_conn\<lparr>conn_in := concat bs\<rparr>)" "synced (demo_conn\<lparr>conn_in := concat bs\<rparr>) demo_conn"
    using s by (simp_all add: synced_def)
  let ?c = "demo_conn\<lparr>conn_in := concat bs\<rparr>"
  have c: "plain_buf ?c = []" "conn_writes ?c = []" "conn_in ?c = concat bs @ []" "conn_sent ?c = []"
    "conn_remote ?c = ''10.0.0.2:1024''"
    by (simp_all add: demo_conn_def new_conn_def)
  have "parse_http_request (concat ?ps) =
    Ok (Some \<lparr>req_method = ''GET'', req_path = ''/a'', req_header = header_of [], req_body = [], req_remote = []\<rparr>)"
    using demo_get_parsed by simp
  from request_answered [OF s2 c(1,2) _ f p c(3) this, of "\<lambda>x. x" demo_server "\<lambda>_. Some [7, 7]" demo_backend]
  obtain reply sent frags c' cl'' where
    "dispatch (\<lambda>x. x) demo_server (\<lambda>_. Some [7, 7]) demo_backend
      \<lparr>req_method = ''GET'', req_path = ''/a'', req_header = header_of [], req_body = [],
       req_remote = client_ip ''10.0.0.2:1024''\<rparr> = Ok reply"
    "serve_http (\<lambda>x. x) demo_server (\<lambda>_. Some [7, 7]) demo_backend ?c = (Ok (), c')" "conn_sent c' = sent"
    "get_all get_record (length sent) (concat sent) cl' = Some (app_records frags, [], cl'')"
    "concat frags = reply"
    unfolding c(4,5) append_Nil by auto
  with p show ?thesis by (intro exI conjI)
qed

text \<open>C25. Serving a connection ends the server process in exactly three cases: no certificate for
  the client's region nor the default region; under an RSA certificate, the 38-byte hello; and,
  after a completed handshake, application data of the first records that holds a complete
  request head, with a request line of two words, whose Content-Length is negative.  Routing,
  replies, proxying, all other record, handshake and request bytes and failing writes never do.\<close>

theorem serve_panics_iff:
  assumes "server_random ent \<noteq> Panic"
  shows "serve_tls10 ul s hs ago ent fs backend remote input e writes = Panic \<longleftrightarrow>
    (case cert_for (srv_certs s) (default_region s) hs ago (client_ip remote) of
       (None, _) \<Rightarrow> True
     | (Some cert, source) \<Rightarrow>
         cert_key cert \<noteq> OtherKey \<and>
         43 \<le> length input \<and> input ! 0 = 22 \<and> be16 input 3 = 38 \<and> input ! 5 = 1) \<or>
    (\<exists>c n data c' idx head.
       handshake s hs ago ent (new_conn remote input e writes) = (Ok (), c) \<and>
       received (Suc n) c = Some (data, c') \<and> index_of data head_end = Some idx \<and>
       head = split_on (string_of (take idx data)) crlf \<and> 2 \<le> length (str_fields (hd head)) \<and>
       atoi (header_get (add_lines Map.empty (tl head)) ''Content-Length'') < 0)"
  by (rule serve_panic_input [OF assms, unfolded short_hello_def])

theorem serve_panics_iff_witness:
  "serve_tls10 (\<lambda>x. x) demo_server None (\<lambda>_. []) demo_entropy (\<lambda>_. None) demo_backend
     ''10.0.0.2:9'' crash_hello EOF [] = Panic"
  by (subst serve_panics_iff)
    (simp_all add: demo_entropy_def demo_cert_for crash_hello_def frame_def put16_def be16_def
      tls10Version_def ctHandshake_def hs_types demo_cert_def)

end
