(* ===== verification/Process.thy ===== *)
theory Process
  imports Startup Serve "HOL-Library.Multiset"
begin

text \<open>
  The running server process: the goroutines that \<open>main\<close>, \<open>DNSServer.listen\<close> and
  \<open>listenTLS10\<close> start, interleaved in any order around what they share: the hint store, the
  memory that holds the packets, and the error channel of \<open>listenTLS10\<close>.  A step is what one
  goroutine does between two points where another can come in.  Goroutines that wait to run are
  multisets: accepted connections, connections being served, packets read, regions still to be
  noted.
\<close>

section \<open>The process\<close>

text \<open>
  A connection as \<open>Accept\<close> returns it: the peer's address, the bytes it will send, how the
  stream ends, the results of the writes to it and the random bytes its handshake draws.
\<close>

record incoming =
  in_remote :: string
  in_input :: bytes
  in_end :: go_error
  in_writes :: "go_error option list"
  in_entropy :: entropy

text \<open>What does not change while the process runs.\<close>

record host =
  h_service :: service
  h_ul :: "string \<Rightarrow> string"
  h_ago :: "nat \<Rightarrow> string"
  h_fs :: file_system
  h_backend :: backend

text \<open>\<open>log.Fatal\<close> ends the process with an error, a panic in any goroutine crashes it.\<close>

datatype life = Running | Fatal go_error | Crashed

text \<open>
  The byte slices of the read loop and the handlers.  \<open>ReadBuf\<close> is the one array of 512 bytes
  that every \<open>ReadFrom\<close> of the loop fills, a \<open>Block\<close> is an array made for one packet; a slice
  is an array with the length that is visible.  \<open>ReadFrom\<close> overwrites the front of the buffer
  and cuts a longer datagram off; \<open>copy\<close> moves as many bytes as both sides have.
\<close>

datatype ref = ReadBuf | Block nat

type_synonym slice = "ref \<times> nat"

record memory =
  mem_buf :: bytes
  mem_blocks :: "bytes list"

fun mem_get :: "memory \<Rightarrow> ref \<Rightarrow> bytes" where
  "mem_get m ReadBuf = mem_buf m"
| "mem_get m (Block i) = mem_blocks m ! i"

definition slice_bytes :: "memory \<Rightarrow> slice \<Rightarrow> bytes" where
  "slice_bytes m s = take (snd s) (mem_get m (fst s))"

definition overwrite :: "bytes \<Rightarrow> bytes \<Rightarrow> bytes" where
  "overwrite src dst = take (length dst) src @ drop (length src) dst"

fun mem_copy :: "ref \<Rightarrow> bytes \<Rightarrow> memory \<Rightarrow> memory" where
  "mem_copy ReadBuf src m = m\<lparr>mem_buf := overwrite src (mem_buf m)\<rparr>"
| "mem_copy (Block i) src m = m\<lparr>mem_blocks := (mem_blocks m)[i := overwrite src (mem_blocks m ! i)]\<rparr>"

definition mem_make :: "nat \<Rightarrow> memory \<Rightarrow> ref \<times> memory" where
  "mem_make n m = (Block (length (mem_blocks m)), m\<lparr>mem_blocks := mem_blocks m @ [replicate n 0]\<rparr>)"

definition read_from :: "bytes \<Rightarrow> memory \<Rightarrow> nat \<times> memory" where
  "read_from datagram m =
     (min 512 (length datagram),
      m\<lparr>mem_buf := take 512 datagram @ drop (length datagram) (mem_buf m)\<rparr>)"

text \<open>One round of the read loop: the slice that the handler is started with.\<close>

definition receive_packet :: "bytes \<Rightarrow> memory \<Rightarrow> slice \<times> memory" where
  "receive_packet datagram m =
     (case read_from datagram m of (n, m1) \<Rightarrow>
      case mem_make n m1 of (query, m2) \<Rightarrow>
      ((query, n), mem_copy query (slice_bytes m2 (ReadBuf, n)) m2))"

text \<open>A channel of errors: its capacity, what is in its buffer, and the senders that wait.\<close>

record chan =
  ch_cap :: nat
  ch_buf :: "go_error list"
  ch_senders :: "go_error list"

definition chan_make :: "nat \<Rightarrow> chan" where
  "chan_make n = \<lparr>ch_cap = n, ch_buf = [], ch_senders = []\<rparr>"

definition chan_send :: "go_error \<Rightarrow> chan \<Rightarrow> chan" where
  "chan_send e ch =
     (if length (ch_buf ch) < ch_cap ch then ch\<lparr>ch_buf := ch_buf ch @ [e]\<rparr>
      else ch\<lparr>ch_senders := ch_senders ch @ [e]\<rparr>)"

definition chan_receive :: "chan \<Rightarrow> (go_error \<times> chan) option" where
  "chan_receive ch =
     (case ch_buf ch @ ch_senders ch of
        [] \<Rightarrow> None
      | e # es \<Rightarrow> Some (e, ch\<lparr>ch_buf := take (ch_cap ch) es, ch_senders := drop (ch_cap ch) es\<rparr>))"

text \<open>
  A connection that is served is kept with the hint store as its goroutine found it; a packet
  that waits for its handler is its source and a slice.
\<close>

record process =
  pr_hints :: "region_hints option"
  pr_dns :: bool
  pr_todo :: "string list"
  pr_listening :: "string multiset"
  pr_errors :: chan
  pr_conns :: "incoming multiset"
  pr_serving :: "(incoming \<times> region_hints option) multiset"
  pr_mem :: memory
  pr_queries :: "(string \<times> slice) multiset"
  pr_notes :: "(string \<times> string) multiset"
  pr_sent :: "(incoming \<times> bytes list) list"
  pr_answers :: "(string \<times> bytes \<times> bytes list) list"
  pr_life :: life

definition start_process :: "service \<Rightarrow> process" where
  "start_process sv =
     \<lparr>pr_hints = sv_hints sv, pr_dns = False, pr_todo = sv_https sv, pr_listening = {#},
      pr_errors = chan_make (length (sv_https sv)), pr_conns = {#}, pr_serving = {#},
      pr_mem = \<lparr>mem_buf = replicate 512 0, mem_blocks = []\<rparr>, pr_queries = {#}, pr_notes = {#},
      pr_sent = [], pr_answers = [], pr_life = Running\<rparr>"

datatype event =
    BindDns "go_error option"
  | Packet string bytes
  | ReadError go_error
  | Answer string slice "bytes option"
  | Note nat string string
  | Listen "go_error option"
  | Accepted string incoming
  | AcceptError string go_error
  | MainError
  | Begin incoming
  | Finish incoming "region_hints option"

section \<open>What the goroutines do\<close>

text \<open>
  A handler of \<open>DNSServer.handle\<close> reads its query from memory and writes its answer; that the
  region is noted afterwards is a step of its own.  \<open>exchange\<close> is the result of the exchange
  with the upstream resolver, if there is one.  A panic while it parses or answers ends the
  process.
\<close>

definition receive :: "string \<Rightarrow> bytes \<Rightarrow> process \<Rightarrow> process" where
  "receive src datagram p =
     (case receive_packet datagram (pr_mem p) of (query, m) \<Rightarrow>
      p\<lparr>pr_mem := m, pr_queries := pr_queries p + {#(src, query)#}\<rparr>)"

definition answer_query :: "host \<Rightarrow> redirector \<Rightarrow> string \<Rightarrow> slice \<Rightarrow> bytes option \<Rightarrow> process \<Rightarrow> process" where
  "answer_query H rd src s exchange p =
     (let query = slice_bytes (pr_mem p) s
      in case (dns_packets (h_ul H) (rd_rules rd) (dns_forward (\<lambda>_. exchange)) query,
               dns_note (h_ul H) (rd_rules rd) query) of
           (Ok out, Ok noted) \<Rightarrow>
             p\<lparr>pr_queries := pr_queries p - {#(src, s)#},
               pr_answers := pr_answers p @ [(src, query, out)],
               pr_notes := (case (noted, pr_hints p) of
                              (Some region, Some h) \<Rightarrow> pr_notes p + {#(client_ip src, region)#}
                            | _ \<Rightarrow> pr_notes p)\<rparr>
         | _ \<Rightarrow> p\<lparr>pr_life := Crashed\<rparr>)"

definition note_region :: "nat \<Rightarrow> string \<Rightarrow> string \<Rightarrow> process \<Rightarrow> process" where
  "note_region now ip region p =
     p\<lparr>pr_notes := pr_notes p - {#(ip, region)#},
       pr_hints := map_option (\<lambda>h. hints_set now h ip region) (pr_hints p)\<rparr>"

text \<open>
  \<open>serveTLS10\<close> in its goroutine.  Its only access to what others change is the \<open>certFor\<close> at
  its beginning, so it is two steps: it begins, with the hint store as it is then, and it may
  finish at any later time, with what it has sent, or with a panic that takes the process with
  it.  No deadline is set on the connection: a client that falls silent keeps its goroutine, so
  the second step need not come.
\<close>

definition serve_incoming :: "host \<Rightarrow> region_hints option \<Rightarrow> incoming \<Rightarrow> bytes list outcome" where
  "serve_incoming H hs c =
     serve_tls10 (h_ul H) (sv_server (h_service H)) hs (h_ago H) (in_entropy c) (h_fs H) (h_backend H)
       (in_remote c) (in_input c) (in_end c) (in_writes c)"

definition begin_conn :: "incoming \<Rightarrow> process \<Rightarrow> process" where
  "begin_conn c p =
     p\<lparr>pr_conns := pr_conns p - {#c#}, pr_serving := pr_serving p + {#(c, pr_hints p)#}\<rparr>"

definition finish_conn :: "host \<Rightarrow> incoming \<Rightarrow> region_hints option \<Rightarrow> process \<Rightarrow> process" where
  "finish_conn H c hs p =
     (case serve_incoming H hs c of
        Ok out \<Rightarrow> p\<lparr>pr_serving := pr_serving p - {#(c, hs)#}, pr_sent := pr_sent p @ [(c, out)]\<rparr>
      | _ \<Rightarrow> p\<lparr>pr_life := Crashed\<rparr>)"

text \<open>One address of \<open>listenTLS10\<close>: its accept loop starts, or \<open>main\<close> ends with the error.\<close>

definition listen_next :: "string \<Rightarrow> string list \<Rightarrow> go_error option \<Rightarrow> process \<Rightarrow> process" where
  "listen_next addr rest r p =
     (case r of
        Some e \<Rightarrow> p\<lparr>pr_life := Fatal (WrapErr (''listen '' @ addr) e)\<rparr>
      | None \<Rightarrow> p\<lparr>pr_todo := rest, pr_listening := pr_listening p + {#addr#}\<rparr>)"

definition bind_dns :: "go_error option \<Rightarrow> process \<Rightarrow> process" where
  "bind_dns r p =
     (case r of Some e \<Rightarrow> p\<lparr>pr_life := Fatal (WrapErr ''dns'' e)\<rparr> | None \<Rightarrow> p\<lparr>pr_dns := True\<rparr>)"

text \<open>A failed \<open>Accept\<close> ends its loop, which sends the error; \<open>main\<close> receives one and ends.\<close>

definition accept_failed :: "string \<Rightarrow> go_error \<Rightarrow> process \<Rightarrow> process" where
  "accept_failed addr e p =
     p\<lparr>pr_listening := pr_listening p - {#addr#}, pr_errors := chan_send e (pr_errors p)\<rparr>"

section \<open>Steps\<close>

text \<open>
  \<open>listenTLS10\<close> receives from the channel once every address is listened on; then \<open>main\<close> ends.
  Reading the random bytes of a handshake gives an error or the bytes, never a panic.
\<close>

inductive proc_step :: "host \<Rightarrow> process \<Rightarrow> event \<Rightarrow> process \<Rightarrow> bool" for H where
  do_bind: "pr_life p = Running \<Longrightarrow> sv_redirector (h_service H) = Some rd \<Longrightarrow> \<not> pr_dns p \<Longrightarrow>
     proc_step H p (BindDns r) (bind_dns r p)"
| do_packet: "pr_life p = Running \<Longrightarrow> pr_dns p \<Longrightarrow>
     proc_step H p (Packet src q) (receive src q p)"
| do_read_error: "pr_life p = Running \<Longrightarrow> pr_dns p \<Longrightarrow> proc_step H p (ReadError e) p"
| do_answer: "pr_life p = Running \<Longrightarrow> sv_redirector (h_service H) = Some rd \<Longrightarrow> (src, s) \<in># pr_queries p \<Longrightarrow>
     proc_step H p (Answer src s exchange) (answer_query H rd src s exchange p)"
| do_note: "pr_life p = Running \<Longrightarrow> (ip, region) \<in># pr_notes p \<Longrightarrow>
     proc_step H p (Note now ip region) (note_region now ip region p)"
| do_listen: "pr_life p = Running \<Longrightarrow> pr_todo p = addr # rest \<Longrightarrow>
     proc_step H p (Listen r) (listen_next addr rest r p)"
| do_accepted: "pr_life p = Running \<Longrightarrow> addr \<in># pr_listening p \<Longrightarrow> server_random (in_entropy c) \<noteq> Panic \<Longrightarrow>
     proc_step H p (Accepted addr c) (p\<lparr>pr_conns := pr_conns p + {#c#}\<rparr>)"
| do_accept_error: "pr_life p = Running \<Longrightarrow> addr \<in># pr_listening p \<Longrightarrow>
     proc_step H p (AcceptError addr e) (accept_failed addr e p)"
| do_main_error: "pr_life p = Running \<Longrightarrow> pr_todo p = [] \<Longrightarrow> chan_receive (pr_errors p) = Some (e, ch) \<Longrightarrow>
     proc_step H p MainError (p\<lparr>pr_errors := ch, pr_life := Fatal e\<rparr>)"
| do_begin: "pr_life p = Running \<Longrightarrow> c \<in># pr_conns p \<Longrightarrow> proc_step H p (Begin c) (begin_conn c p)"
| do_finish: "pr_life p = Running \<Longrightarrow> (c, hs) \<in># pr_serving p \<Longrightarrow>
     proc_step H p (Finish c hs) (finish_conn H c hs p)"

inductive_simps proc_step_simps:
  "proc_step H p (BindDns r) p'"
  "proc_step H p (Packet src q) p'"
  "proc_step H p (ReadError e) p'"
  "proc_step H p (Answer src s exchange) p'"
  "proc_step H p (Note now ip region) p'"
  "proc_step H p (Listen r) p'"
  "proc_step H p (Accepted addr c) p'"
  "proc_step H p (AcceptError addr e) p'"
  "proc_step H p MainError p'"
  "proc_step H p (Begin c) p'"
  "proc_step H p (Finish c hs) p'"

lemmas proc_step_defs = note_region_def begin_conn_def finish_conn_def listen_next_def bind_dns_def accept_failed_def

inductive proc_run :: "host \<Rightarrow> process \<Rightarrow> event list \<Rightarrow> process \<Rightarrow> bool" for H where
  run_start: "proc_run H p [] p"
| run_step: "proc_run H p0 evs p \<Longrightarrow> proc_step H p e p' \<Longrightarrow> proc_run H p0 (evs @ [e]) p'"

text \<open>What every step keeps, every run keeps.\<close>

locale process_invariant =
  fixes H :: host and inv :: "event list \<Rightarrow> process \<Rightarrow> bool"
  assumes kept: "proc_step H p e p' \<Longrightarrow> inv evs p \<Longrightarrow> inv (evs @ [e]) p'"
begin

lemma reached: "proc_run H p0 evs p \<Longrightarrow> inv [] p0 \<Longrightarrow> inv evs p"
  by (induction rule: proc_run.induct) (simp_all add: kept)

end

section \<open>What the step relation keeps\<close>

lemma serve_incoming_outcome: "serve_incoming H hs c \<noteq> Err e"
  by (auto simp: serve_incoming_def serve_tls10_def split: prod.split outcome.split)

lemma life_step:
  assumes "proc_step H p e p'"
  shows "pr_life p = Running"
  using assms by cases auto

text \<open>The only choice is which goroutine comes next: a schedule determines the process.\<close>

lemma proc_step_deterministic: "proc_step H p e p1 \<Longrightarrow> proc_step H p e p2 \<Longrightarrow> p1 = p2"
  by (cases e) (auto simp: proc_step_simps)

lemma proc_run_deterministic: "proc_run H p0 evs p1 \<Longrightarrow> proc_run H p0 evs p2 \<Longrightarrow> p1 = p2"
proof (induction arbitrary: p2 rule: proc_run.induct)
  case (run_step p0 evs p e p')
  from run_step.prems obtain q where "proc_run H p0 evs q" "proc_step H q e p2"
    by (cases rule: proc_run.cases) auto
  with run_step.IH run_step.hyps(2) proc_step_deterministic show ?case by blast
qed (auto elim: proc_run.cases)

text \<open>The packets read, the connections accepted and the errors of \<open>Accept\<close> in a run.\<close>

definition packets :: "event list \<Rightarrow> (string \<times> bytes) list" where
  "packets = List.map_filter (\<lambda>e. case e of Packet src q \<Rightarrow> Some (src, take 512 q) | _ \<Rightarrow> None)"

definition connections :: "event list \<Rightarrow> incoming list" where
  "connections = List.map_filter (\<lambda>e. case e of Accepted addr c \<Rightarrow> Some c | _ \<Rightarrow> None)"

definition accept_errors :: "event list \<Rightarrow> go_error list" where
  "accept_errors = List.map_filter (\<lambda>e. case e of AcceptError addr err \<Rightarrow> Some err | _ \<Rightarrow> None)"

lemmas trace_defs = packets_def connections_def accept_errors_def List.map_filter_def

lemma events_append [simp]:
  "packets (es @ es') = packets es @ packets es'"
  "connections (es @ es') = connections es @ connections es'"
  "accept_errors (es @ es') = accept_errors es @ accept_errors es'"
  by (simp_all add: trace_defs)

lemma events_Nil [simp]: "packets [] = []" "connections [] = []" "accept_errors [] = []"
  by (simp_all add: trace_defs)

lemma packets_one [simp]:
  "packets [e] = (case e of Packet src q \<Rightarrow> [(src, take 512 q)] | _ \<Rightarrow> [])"
  by (simp add: trace_defs split: event.split)

lemma connections_one [simp]:
  "connections [e] = (case e of Accepted addr c \<Rightarrow> [c] | _ \<Rightarrow> [])"
  by (simp add: trace_defs split: event.split)

lemma accept_errors_one [simp]:
  "accept_errors [e] = (case e of AcceptError addr err \<Rightarrow> [err] | _ \<Rightarrow> [])"
  by (simp add: trace_defs split: event.split)

text \<open>No packet makes the handler panic, so answering is the following.\<close>

lemma answer_query_eq:
  "answer_query H rd src s exchange p =
   p\<lparr>pr_queries := pr_queries p - {#(src, s)#},
     pr_answers := pr_answers p @
       [(src, slice_bytes (pr_mem p) s,
         packets_of (h_ul H) (rd_rules rd) (dns_forward (\<lambda>_. exchange)) (slice_bytes (pr_mem p) s))],
     pr_notes := (case (noted_region (h_ul H) (rd_rules rd) (slice_bytes (pr_mem p) s), pr_hints p) of
                    (Some region, Some h) \<Rightarrow> pr_notes p + {#(client_ip src, region)#}
                  | _ \<Rightarrow> pr_notes p)\<rparr>"
  by (simp add: answer_query_def dns_packets_eq dns_note_eq Let_def)

section \<open>Packets in memory\<close>

text \<open>Slices of arrays that were made for a packet: what a later read leaves alone.\<close>

definition in_block :: "memory \<Rightarrow> slice \<Rightarrow> bool" where
  "in_block m s \<longleftrightarrow> (\<exists>i. fst s = Block i \<and> i < length (mem_blocks m))"

lemma receive_packet_fresh:
  assumes "receive_packet datagram m = (s, m')"
  shows "in_block m' s \<and> slice_bytes m' s = take 512 datagram \<and>
    (\<forall>s'. in_block m s' \<longrightarrow> in_block m' s' \<and> slice_bytes m' s' = slice_bytes m s')"
proof -
  let ?n = "min 512 (length datagram)"
  have d: "take ?n (take 512 datagram @ drop (length datagram) (mem_buf m)) = take 512 datagram"
    by (simp add: min_def)
  have s: "s = (Block (length (mem_blocks m)), ?n)"
    using assms by (simp add: receive_packet_def read_from_def mem_make_def)
  have "mem_blocks m' = mem_blocks m @ [overwrite (take 512 datagram) (replicate ?n 0)]"
    using assms d by (auto simp: receive_packet_def read_from_def mem_make_def slice_bytes_def)
  moreover have "overwrite (take 512 datagram) (replicate ?n 0) = take 512 datagram"
    by (simp add: overwrite_def min_def)
  ultimately have b: "mem_blocks m' = mem_blocks m @ [take 512 datagram]" by simp
  then show ?thesis
    by (auto simp: s in_block_def slice_bytes_def nth_append min_def)
qed

text \<open>The packets that wait, with the contents their handlers will find.\<close>

definition waiting_packets :: "process \<Rightarrow> (string \<times> bytes) multiset" where
  "waiting_packets p = image_mset (\<lambda>(src, s). (src, slice_bytes (pr_mem p) s)) (pr_queries p)"

definition handled_packets :: "process \<Rightarrow> (string \<times> bytes) multiset" where
  "handled_packets p = mset (map (\<lambda>(src, q, out). (src, q)) (pr_answers p))"

definition owned :: "process \<Rightarrow> bool" where
  "owned p \<longleftrightarrow> (\<forall>x \<in># pr_queries p. in_block (pr_mem p) (snd x))"

definition packet_books :: "event list \<Rightarrow> process \<Rightarrow> bool" where
  "packet_books evs p \<longleftrightarrow> owned p \<and> handled_packets p + waiting_packets p = mset (packets evs)"

lemma books_receive:
  assumes "packet_books evs p"
  shows "packet_books (evs @ [Packet src q]) (receive src q p)"
proof -
  obtain s m' where r: "receive_packet q (pr_mem p) = (s, m')" by fastforce
  note f = receive_packet_fresh [OF r]
  have "owned p" using assms by (simp add: packet_books_def)
  then have "owned (receive src q p)" using f by (auto simp: owned_def receive_def r)
  moreover have "image_mset (\<lambda>(src, s). (src, slice_bytes m' s)) (pr_queries p) = waiting_packets p"
    unfolding waiting_packets_def
    by (rule image_mset_cong) (use \<open>owned p\<close> f in \<open>auto simp: owned_def\<close>)
  ultimately show ?thesis
    using assms f by (simp add: packet_books_def waiting_packets_def handled_packets_def receive_def r)
qed

lemma books_answer:
  assumes "packet_books evs p" and "(src, s) \<in># pr_queries p"
  shows "packet_books evs (answer_query H rd src s exchange p)"
proof -
  obtain Q where "pr_queries p = add_mset (src, s) Q" using assms(2) by (meson multi_member_split)
  with assms(1) show ?thesis
    by (simp add: packet_books_def owned_def waiting_packets_def handled_packets_def answer_query_eq)
qed

lemma books_frame:
  "pr_mem p' = pr_mem p \<Longrightarrow> pr_queries p' = pr_queries p \<Longrightarrow> pr_answers p' = pr_answers p \<Longrightarrow>
   packets es = [] \<Longrightarrow> packet_books evs p \<Longrightarrow> packet_books (evs @ es) p'"
  by (simp add: packet_books_def owned_def waiting_packets_def handled_packets_def)

lemma books_step:
  assumes "proc_step H p e p'" and "packet_books evs p"
  shows "packet_books (evs @ [e]) p'"
  using assms(1)
proof cases
  case (do_packet src q)
  with books_receive [OF assms(2)] show ?thesis by simp
next
  case (do_answer rd src s exchange)
  have "packet_books (evs @ [e]) p" by (rule books_frame [OF _ _ _ _ assms(2)]) (simp_all add: do_answer)
  with books_answer do_answer show ?thesis by simp
qed (rule books_frame [OF _ _ _ _ assms(2)]; simp add: proc_step_defs split: option.split outcome.split)+

interpretation books: process_invariant H packet_books for H
  by unfold_locales (rule books_step)

lemma books_start: "packet_books [] (start_process sv)"
  by (simp add: packet_books_def owned_def waiting_packets_def handled_packets_def start_process_def)

lemma query_packet:
  assumes "packet_books evs p" and "(src, s) \<in># pr_queries p"
  shows "(src, slice_bytes (pr_mem p) s) \<in> set (packets evs)"
proof -
  have "(src, slice_bytes (pr_mem p) s) \<in># waiting_packets p"
    using assms(2) by (force simp: waiting_packets_def)
  moreover have "waiting_packets p \<subseteq># mset (packets evs)"
    using assms(1) unfolding packet_books_def by (metis mset_subset_eq_add_right)
  ultimately show ?thesis by (metis mset_subset_eqD set_mset_mset)
qed

definition answered_right :: "host \<Rightarrow> process \<Rightarrow> bool" where
  "answered_right H p \<longleftrightarrow>
     (\<forall>x \<in> set (pr_answers p). \<exists>rd exchange. sv_redirector (h_service H) = Some rd \<and>
        dns_packets (h_ul H) (rd_rules rd) (dns_forward (\<lambda>_. exchange)) (fst (snd x)) = Ok (snd (snd x)))"

lemma answered_right_answer:
  "answered_right H p \<Longrightarrow> sv_redirector (h_service H) = Some rd \<Longrightarrow>
   answered_right H (answer_query H rd src s exchange p)"
  by (auto simp: answered_right_def answer_query_eq dns_packets_eq)

interpretation answers: process_invariant H "\<lambda>_. answered_right H" for H
proof unfold_locales
  fix p e p'
  assume st: "proc_step H p e p'" and a: "answered_right H p"
  from st show "answered_right H p'"
  proof cases
    case (do_answer rd src s exchange)
    with answered_right_answer [OF a] show ?thesis by simp
  qed (use a in \<open>auto simp: answered_right_def receive_def proc_step_defs split: option.split outcome.split prod.split\<close>)
qed

lemma packets_of_length: "length (packets_of ul rules forward q) \<le> 1"
  by (auto simp: packets_of_def dns_forward_reply_def split: option.split)

section \<open>The error channel\<close>

definition channel_ok :: "event list \<Rightarrow> process \<Rightarrow> bool" where
  "channel_ok evs p \<longleftrightarrow> ch_senders (pr_errors p) = [] \<and>
     length (ch_buf (pr_errors p)) + size (pr_listening p) + length (pr_todo p) \<le> ch_cap (pr_errors p) \<and>
     (pr_life p \<in> {Running, Crashed} \<longrightarrow> ch_buf (pr_errors p) = accept_errors evs)"

lemma channel_frame:
  "pr_errors p' = pr_errors p \<Longrightarrow> pr_listening p' = pr_listening p \<Longrightarrow> pr_todo p' = pr_todo p \<Longrightarrow>
   accept_errors es = [] \<Longrightarrow> pr_life p = Running \<Longrightarrow> channel_ok evs p \<Longrightarrow> channel_ok (evs @ es) p'"
  by (auto simp: channel_ok_def)

lemma channel_accept_error:
  assumes "channel_ok evs p" and "addr \<in># pr_listening p" and "pr_life p = Running"
  shows "channel_ok (evs @ [AcceptError addr err]) (accept_failed addr err p)"
proof -
  obtain L where "pr_listening p = add_mset addr L" using assms(2) by (meson multi_member_split)
  with assms(1,3) show ?thesis by (auto simp: channel_ok_def accept_failed_def chan_send_def)
qed

lemma channel_step:
  assumes "proc_step H p e p'" and "channel_ok evs p"
  shows "channel_ok (evs @ [e]) p'"
  using assms(1)
proof cases
  case (do_accept_error addr err)
  with channel_accept_error [OF assms(2)] show ?thesis by simp
next
  case (do_main_error err ch)
  from assms(2) do_main_error have "ch_buf (pr_errors p) = accept_errors evs" "ch_senders (pr_errors p) = []"
    by (simp_all add: channel_ok_def)
  with do_main_error obtain es where "accept_errors evs = err # es"
    "ch = (pr_errors p)\<lparr>ch_buf := take (ch_cap (pr_errors p)) es, ch_senders := drop (ch_cap (pr_errors p)) es\<rparr>"
    by (auto simp: chan_receive_def split: list.splits)
  with do_main_error assms(2) show ?thesis by (auto simp: channel_ok_def)
next
  case (do_listen addr rest r)
  with assms(2) show ?thesis by (auto simp: channel_ok_def listen_next_def split: option.split)
qed (rule channel_frame [OF _ _ _ _ _ assms(2)];
     simp add: receive_def answer_query_eq proc_step_defs split: option.split outcome.split prod.split)+

interpretation channel: process_invariant H channel_ok for H
  by unfold_locales (rule channel_step)

section \<open>A connection sees only its own hint\<close>

text \<open>The store that holds nothing but the hint of one client.\<close>

definition only_hint :: "string \<Rightarrow> region_hint option \<Rightarrow> region_hints option" where
  "only_hint ip h = Some (Map.empty(ip := h))"

definition own_hint :: "region_hints option \<Rightarrow> string \<Rightarrow> region_hint option" where
  "own_hint hs ip = (case hs of None \<Rightarrow> None | Some h \<Rightarrow> hints_get h ip)"

lemma cert_for_own: "cert_for certs dr hs ago ip = cert_for certs dr (only_hint ip (own_hint hs ip)) ago ip"
  by (simp add: cert_for_def only_hint_def own_hint_def hints_get_def)

lemma handshake_own:
  "handshake s hs ago ent c =
   handshake s (only_hint (client_ip (conn_remote c)) (own_hint hs (client_ip (conn_remote c)))) ago ent c"
proof -
  have "present_cert s hs ago c =
      present_cert s (only_hint (client_ip (conn_remote c)) (own_hint hs (client_ip (conn_remote c)))) ago c"
    by (subst (1) present_cert_def, subst cert_for_own) (simp add: present_cert_def)
  then show ?thesis by (simp add: handshake_def tbind_def)
qed

lemma serve_incoming_own:
  "serve_incoming H hs c =
   serve_incoming H (only_hint (client_ip (in_remote c)) (own_hint hs (client_ip (in_remote c)))) c"
proof -
  let ?c = "new_conn (in_remote c) (in_input c) (in_end c) (in_writes c)"
  have "client_ip (conn_remote ?c) = client_ip (in_remote c)" by (simp add: new_conn_def)
  with handshake_own [where c = ?c] show ?thesis
    by (simp add: serve_incoming_def serve_tls10_def handshake_and_serve_def tbind_def)
qed

text \<open>
  Where a region comes from: a packet of the same client that the redirector answered itself.
\<close>

definition looked_up :: "host \<Rightarrow> event list \<Rightarrow> string \<Rightarrow> string \<Rightarrow> bool" where
  "looked_up H evs ip region \<longleftrightarrow>
     (\<exists>(src, q) \<in> set (packets evs). client_ip src = ip \<and>
       (\<exists>rd. sv_redirector (h_service H) = Some rd \<and> dns_note (h_ul H) (rd_rules rd) q = Ok (Some region)))"

lemma looked_up_mono: "looked_up H evs ip region \<Longrightarrow> looked_up H (evs @ es) ip region"
  by (auto simp: looked_up_def)

definition own_notes :: "host \<Rightarrow> event list \<Rightarrow> (string \<times> string) multiset \<Rightarrow> bool" where
  "own_notes H evs N \<longleftrightarrow> (\<forall>x \<in># N. looked_up H evs (fst x) (snd x))"

definition own_hints :: "host \<Rightarrow> event list \<Rightarrow> region_hints option \<Rightarrow> bool" where
  "own_hints H evs hs \<longleftrightarrow> (\<forall>ip h. own_hint hs ip = Some h \<longrightarrow> looked_up H evs ip (hint_region h))"

definition own_served :: "host \<Rightarrow> event list \<Rightarrow> (incoming \<times> region_hints option) multiset \<Rightarrow> bool" where
  "own_served H evs S \<longleftrightarrow>
     (\<forall>x \<in># S. \<forall>h. own_hint (snd x) (client_ip (in_remote (fst x))) = Some h \<longrightarrow>
        looked_up H evs (client_ip (in_remote (fst x))) (hint_region h))"

definition own_reply :: "host \<Rightarrow> event list \<Rightarrow> incoming \<Rightarrow> bytes list \<Rightarrow> bool" where
  "own_reply H evs c out \<longleftrightarrow>
     (\<exists>ho. serve_incoming H (only_hint (client_ip (in_remote c)) ho) c = Ok out \<and>
       (\<forall>h. ho = Some h \<longrightarrow> looked_up H evs (client_ip (in_remote c)) (hint_region h)))"

definition own_replies :: "host \<Rightarrow> event list \<Rightarrow> (incoming \<times> bytes list) list \<Rightarrow> bool" where
  "own_replies H evs xs \<longleftrightarrow> (\<forall>x \<in> set xs. own_reply H evs (fst x) (snd x))"

definition traced :: "host \<Rightarrow> event list \<Rightarrow> process \<Rightarrow> bool" where
  "traced H evs p \<longleftrightarrow> own_notes H evs (pr_notes p) \<and> own_hints H evs (pr_hints p) \<and>
     own_served H evs (pr_serving p) \<and> own_replies H evs (pr_sent p)"

lemma own_mono:
  "own_notes H evs N \<Longrightarrow> own_notes H (evs @ es) N"
  "own_hints H evs hs \<Longrightarrow> own_hints H (evs @ es) hs"
  "own_served H evs S \<Longrightarrow> own_served H (evs @ es) S"
  "own_replies H evs xs \<Longrightarrow> own_replies H (evs @ es) xs"
proof -
  show "own_replies H evs xs \<Longrightarrow> own_replies H (evs @ es) xs"
    unfolding own_replies_def own_reply_def using looked_up_mono by metis
qed (auto simp: own_notes_def own_hints_def own_served_def looked_up_mono)

lemma traced_mono: "traced H evs p \<Longrightarrow> traced H (evs @ es) p"
  by (simp add: traced_def own_mono)

lemma own_hint_set:
  "own_hint (map_option (\<lambda>h. hints_set now h ip region) hs) ip' =
   (if hs \<noteq> None \<and> ip' = ip then Some \<lparr>hint_region = region, hint_at = now\<rparr> else own_hint hs ip')"
  by (auto simp: own_hint_def hints_set_def hints_get_def split: option.split)

lemma own_hints_set:
  "own_hints H evs hs \<Longrightarrow> looked_up H evs ip region \<Longrightarrow>
   own_hints H evs (map_option (\<lambda>h. hints_set now h ip region) hs)"
  unfolding own_hints_def own_hint_set by auto

lemma looked_up_packet:
  "(src, q) \<in> set (packets evs) \<Longrightarrow> sv_redirector (h_service H) = Some rd \<Longrightarrow>
   noted_region (h_ul H) (rd_rules rd) q = Some region \<Longrightarrow> looked_up H evs (client_ip src) region"
  unfolding looked_up_def dns_note_eq by blast

lemma traced_answer:
  assumes "traced H evs p" and "packet_books evs p" and "sv_redirector (h_service H) = Some rd"
    and "(src, s) \<in># pr_queries p"
  shows "traced H evs (answer_query H rd src s exchange p)"
proof -
  from looked_up_packet [OF query_packet [OF assms(2,4)] assms(3)] assms(1)
  have "own_notes H evs (case (noted_region (h_ul H) (rd_rules rd) (slice_bytes (pr_mem p) s), pr_hints p) of
      (Some region, Some h) \<Rightarrow> pr_notes p + {#(client_ip src, region)#} | _ \<Rightarrow> pr_notes p)"
    by (simp add: traced_def own_notes_def split: option.split)
  then show ?thesis using assms(1) by (simp add: traced_def answer_query_eq)
qed

lemma traced_note:
  assumes "traced H evs p" and "(ip, region) \<in># pr_notes p"
  shows "traced H evs (note_region now ip region p)"
proof -
  have "looked_up H evs ip region" using assms by (auto simp: traced_def own_notes_def)
  moreover have "own_notes H evs (pr_notes p - {#(ip, region)#})"
    using assms(1) unfolding traced_def own_notes_def by (meson in_diffD)
  ultimately show ?thesis
    using assms(1) by (simp add: traced_def note_region_def own_hints_set)
qed

lemma traced_begin:
  assumes "traced H evs p"
  shows "traced H evs (begin_conn c p)"
proof -
  have "own_served H evs (pr_serving p + {#(c, pr_hints p)#})"
    using assms by (auto simp: traced_def own_served_def own_hints_def)
  with assms show ?thesis by (simp add: traced_def begin_conn_def)
qed

lemma traced_finish:
  assumes "traced H evs p" and "(c, hs) \<in># pr_serving p"
  shows "traced H evs (finish_conn H c hs p)"
proof (cases "serve_incoming H hs c")
  case (Ok out)
  then have "serve_incoming H (only_hint (client_ip (in_remote c)) (own_hint hs (client_ip (in_remote c)))) c = Ok out"
    using serve_incoming_own by metis
  moreover have "own_hint hs (client_ip (in_remote c)) = Some h \<longrightarrow> looked_up H evs (client_ip (in_remote c)) (hint_region h)" for h
    using assms by (force simp: traced_def own_served_def)
  ultimately have "own_reply H evs c out" unfolding own_reply_def by blast
  moreover have "own_served H evs (pr_serving p - {#(c, hs)#})"
    using assms(1) unfolding traced_def own_served_def by (meson in_diffD)
  ultimately show ?thesis using assms(1) Ok by (simp add: traced_def finish_conn_def own_replies_def)
qed (use assms in \<open>simp_all add: traced_def finish_conn_def\<close>)

lemma traced_frame:
  "traced H evs p \<Longrightarrow> traced H evs (bind_dns r p)"
  "traced H evs p \<Longrightarrow> traced H evs (listen_next addr rest r p)"
  "traced H evs p \<Longrightarrow> traced H evs (receive src q p)"
  "traced H evs p \<Longrightarrow> traced H evs (accept_failed addr err p)"
  by (simp_all add: traced_def bind_dns_def listen_next_def receive_def accept_failed_def split: option.split prod.split)

lemma traced_step:
  assumes "proc_step H p e p'" and "traced H evs p" and "packet_books evs p"
  shows "traced H (evs @ [e]) p'"
proof -
  note t = traced_mono [OF assms(2), of "[e]"]
  from assms(1) show ?thesis
  proof cases
    case (do_answer rd src s exchange)
    have "packet_books (evs @ [e]) p" by (rule books_frame [OF _ _ _ _ assms(3)]) (simp_all add: do_answer)
    with traced_answer [OF t] do_answer show ?thesis by simp
  next
    case (do_note ip region now)
    with traced_note [OF t] show ?thesis by simp
  next
    case (do_begin c)
    with traced_begin [OF t] show ?thesis by simp
  next
    case (do_finish c hs)
    with traced_finish [OF t] show ?thesis by simp
  qed (use t traced_frame [OF t] in \<open>simp_all add: traced_def\<close>)
qed

interpretation trace: process_invariant H "\<lambda>evs p. packet_books evs p \<and> traced H evs p" for H
  by unfold_locales (use books_step traced_step in blast)

lemma traced_start: "sv_hints sv \<in> {None, Some new_region_hints} \<Longrightarrow> traced H [] (start_process sv)"
  by (auto simp: traced_def start_process_def own_notes_def own_hints_def own_served_def own_replies_def
      own_hint_def hints_get_def new_region_hints_def)

section \<open>How the process can end\<close>

text \<open>After a completed handshake, a request whose Content-Length is negative.\<close>

definition negative_length :: "host \<Rightarrow> region_hints option \<Rightarrow> incoming \<Rightarrow> bool" where
  "negative_length H hs c \<longleftrightarrow>
     (\<exists>conn n data c' idx lines.
       handshake (sv_server (h_service H)) hs (h_ago H) (in_entropy c)
         (new_conn (in_remote c) (in_input c) (in_end c) (in_writes c)) = (Ok (), conn) \<and>
       received (Suc n) conn = Some (data, c') \<and> index_of data head_end = Some idx \<and>
       lines = split_on (string_of (take idx data)) crlf \<and> 2 \<le> length (str_fields (hd lines)) \<and>
       atoi (header_get (add_lines Map.empty (tl lines)) ''Content-Length'') < 0)"

lemma serve_panic_causes:
  assumes "serve_incoming H hs c = Panic" and "server_random (in_entropy c) \<noteq> Panic"
    and "cert_for (srv_certs (sv_server (h_service H))) (default_region (sv_server (h_service H))) hs
           (h_ago H) (client_ip (in_remote c)) = (Some cert, source)"
  shows "short_hello (in_input c) \<or> negative_length H hs c"
  using assms(1) unfolding serve_incoming_def serve_panic_input [OF assms(2)] assms(3) negative_length_def
  by auto

text \<open>Why a run is over, when it is.\<close>

definition end_cause :: "host \<Rightarrow> event list \<Rightarrow> life \<Rightarrow> bool" where
  "end_cause H evs l \<longleftrightarrow>
     (case l of
        Running \<Rightarrow> True
      | Fatal e \<Rightarrow>
          (\<exists>r. BindDns (Some r) \<in> set evs \<and> e = WrapErr ''dns'' r) \<or>
          (\<exists>a r. Listen (Some r) \<in> set evs \<and> e = WrapErr (''listen '' @ a) r) \<or>
          (\<exists>a. AcceptError a e \<in> set evs)
      | Crashed \<Rightarrow> (\<exists>c \<in> set (connections evs). \<exists>hs. short_hello (in_input c) \<or> negative_length H hs c))"

definition ends_well :: "host \<Rightarrow> event list \<Rightarrow> process \<Rightarrow> bool" where
  "ends_well H evs p \<longleftrightarrow> end_cause H evs (pr_life p) \<and>
     (\<forall>c. c \<in># pr_conns p + image_mset fst (pr_serving p) \<longrightarrow>
        c \<in> set (connections evs) \<and> server_random (in_entropy c) \<noteq> Panic) \<and>
     (\<forall>e \<in> set (ch_buf (pr_errors p) @ ch_senders (pr_errors p)). \<exists>a. AcceptError a e \<in> set evs)"

definition always_cert :: "host \<Rightarrow> bool" where
  "always_cert H \<longleftrightarrow>
     (\<forall>hs addr. fst (cert_for (srv_certs (sv_server (h_service H)))
        (default_region (sv_server (h_service H))) hs (h_ago H) addr) \<noteq> None)"

lemma ends_well_mono:
  assumes "ends_well H evs p"
  shows "ends_well H (evs @ es) p"
proof -
  have "end_cause H (evs @ es) (pr_life p)"
    using assms by (cases "pr_life p") (auto simp: ends_well_def end_cause_def)
  with assms show ?thesis by (auto simp: ends_well_def)
qed

lemma ends_well_finish:
  assumes "ends_well H evs p" and "always_cert H" and "(c, hs) \<in># pr_serving p"
  shows "ends_well H evs (finish_conn H c hs p)"
proof (cases "serve_incoming H hs c")
  case (Ok out)
  with assms(1) show ?thesis by (fastforce simp: ends_well_def finish_conn_def dest: in_diffD)
next
  case Panic
  have "c \<in># image_mset fst (pr_serving p)" using assms(3) by force
  then have c: "c \<in> set (connections evs)" "server_random (in_entropy c) \<noteq> Panic"
    using assms(1) by (simp_all add: ends_well_def)
  obtain cert source where "cert_for (srv_certs (sv_server (h_service H)))
      (default_region (sv_server (h_service H))) hs (h_ago H) (client_ip (in_remote c)) = (Some cert, source)"
    using assms(2) unfolding always_cert_def by (metis not_None_eq prod.collapse)
  from serve_panic_causes [OF Panic c(2) this] c(1) have "end_cause H evs Crashed"
    unfolding end_cause_def life.case by blast
  with assms(1) Panic show ?thesis by (simp add: ends_well_def finish_conn_def)
qed (use serve_incoming_outcome in blast)

lemma ends_well_begin:
  assumes "ends_well H evs p" and "c \<in># pr_conns p"
  shows "ends_well H evs (begin_conn c p)"
  using assms by (fastforce simp: ends_well_def begin_conn_def dest: in_diffD)

lemma chan_send_set:
  "set (ch_buf (chan_send e ch) @ ch_senders (chan_send e ch)) = insert e (set (ch_buf ch @ ch_senders ch))"
  by (auto simp: chan_send_def)

lemma chan_receive_set:
  assumes "chan_receive ch = Some (e, ch')"
  shows "insert e (set (ch_buf ch' @ ch_senders ch')) = set (ch_buf ch @ ch_senders ch)"
  using assms by (auto simp: chan_receive_def simp flip: set_append split: list.splits)

lemma ends_well_step:
  assumes "proc_step H p e p'" and "ends_well H evs p" and "always_cert H"
  shows "ends_well H (evs @ [e]) p'"
proof -
  note t = ends_well_mono [OF assms(2), of "[e]"]
  from assms(1) show ?thesis
  proof cases
    case (do_finish c hs)
    with ends_well_finish [OF t assms(3)] show ?thesis by simp
  next
    case (do_begin c)
    with ends_well_begin [OF t] show ?thesis by simp
  next
    case (do_listen addr rest r)
    with t show ?thesis
      by (cases r) (auto simp: ends_well_def end_cause_def listen_next_def)
  next
    case (do_bind rd r)
    with t show ?thesis
      by (cases r) (auto simp: ends_well_def end_cause_def bind_dns_def)
  next
    case (do_accept_error addr err)
    with t show ?thesis by (auto simp: ends_well_def accept_failed_def chan_send_set simp del: set_append) auto
  next
    case (do_main_error err ch)
    with t chan_receive_set [OF do_main_error(5)] show ?thesis
      by (auto simp: ends_well_def end_cause_def simp del: set_append)
  next
    case (do_answer rd src s exchange)
    with t show ?thesis by (simp add: ends_well_def answer_query_eq)
  qed (use t in \<open>auto simp: ends_well_def end_cause_def receive_def note_region_def split: prod.split\<close>)
qed

interpretation life_span: process_invariant H "\<lambda>evs p. always_cert H \<longrightarrow> ends_well H evs p" for H
  by unfold_locales (use ends_well_step in blast)

lemma startup_always_cert:
  assumes "startup ul dial pick key_pair parse_leaf d args = Ok (h_service H)"
    and "\<forall>certs. (\<exists>r \<in> set main_regions. certs r \<noteq> None) \<longrightarrow> certs (pick certs) \<noteq> None"
  shows "always_cert H"
proof -
  from assms(1) obtain o0 where "set_flags ul args default_options = Ok o0"
    by (auto simp: startup_def obind_Ok)
  from build_server_cert [OF startup_Ok(1) [OF assms(1) this refl] assms(2)]
  show ?thesis unfolding always_cert_def by (metis fst_conv option.distinct(1))
qed

lemma run_two: "proc_step H p e1 p1 \<Longrightarrow> proc_step H p1 e2 p2 \<Longrightarrow> proc_run H p [e1, e2] p2"
  using run_step [OF run_step [OF run_start]] by fastforce

section \<open>Runs\<close>

lemma proc_run_append:
  "proc_run H p1 evs' p2 \<Longrightarrow> proc_run H p0 evs p1 \<Longrightarrow> proc_run H p0 (evs @ evs') p2"
proof (induction rule: proc_run.induct)
  case (run_step p1 evs' p e p')
  from proc_run.run_step [OF run_step.IH [OF run_step.prems] run_step.hyps(2)] show ?case by simp
qed simp

lemma run_Cons: "proc_step H p e p1 \<Longrightarrow> proc_run H p1 es p2 \<Longrightarrow> proc_run H p (e # es) p2"
  using proc_run_append [OF _ run_step [OF run_start]] by fastforce

lemma run_one: "proc_step H p e p1 \<Longrightarrow> proc_run H p [e] p1"
  using run_Cons run_start by blast

lemma proc_run_split:
  "proc_run H p0 (es @ fs) p \<Longrightarrow> \<exists>q. proc_run H p0 es q \<and> proc_run H q fs p"
proof (induction fs arbitrary: p rule: rev_induct)
  case Nil
  then show ?case using run_start by auto
next
  case (snoc e fs)
  from snoc.prems obtain p' where "proc_run H p0 (es @ fs) p'" "proc_step H p' e p"
    by (cases rule: proc_run.cases) auto
  with snoc.IH show ?case using run_step by blast
qed

text \<open>A hint changes only when a region is noted for its own address.\<close>

lemma hints_step:
  assumes "proc_step H p e p'"
  shows "pr_hints p' =
    (case e of Note now ip region \<Rightarrow> map_option (\<lambda>h. hints_set now h ip region) (pr_hints p) | _ \<Rightarrow> pr_hints p)"
  using assms
  by cases (simp_all add: receive_def answer_query_eq proc_step_defs split: option.split outcome.split prod.split)

lemma hint_kept:
  "proc_run H p0 evs p \<Longrightarrow> (\<forall>now region. Note now ip region \<notin> set evs) \<Longrightarrow> pr_hints p0 = Some h0 \<Longrightarrow>
   \<exists>h. pr_hints p = Some h \<and> hints_get h ip = hints_get h0 ip"
proof (induction rule: proc_run.induct)
  case (run_step p0 evs p e p')
  then obtain h where h: "pr_hints p = Some h" "hints_get h ip = hints_get h0 ip" by auto
  from run_step.prems(1) have "\<forall>now region. e \<noteq> Note now ip region" by auto
  with h hints_step [OF run_step.hyps(2)] show ?case
    by (cases e) (auto simp: hints_set_def hints_get_def)
qed auto

lemma hints_enabled: "proc_run H p0 evs p \<Longrightarrow> pr_hints p = None \<longleftrightarrow> pr_hints p0 = None"
  by (induction rule: proc_run.induct) (auto dest: hints_step split: event.splits)

lemma noted_last:
  assumes "proc_run H (start_process (h_service H)) (earlier @ [Note now ip region] @ later) p"
    and "sv_hints (h_service H) = Some new_region_hints" and "\<forall>t r. Note t ip r \<notin> set later"
  shows "looked_up H earlier ip region \<and>
    (\<exists>h. pr_hints p = Some h \<and> hints_get h ip = Some \<lparr>hint_region = region, hint_at = now\<rparr>)"
proof -
  from proc_run_split [OF assms(1)] obtain q1 where q1: "proc_run H (start_process (h_service H)) earlier q1"
    and r1: "proc_run H q1 ([Note now ip region] @ later) p" by blast
  from proc_run_split [OF r1] obtain q2 where "proc_run H q1 ([] @ [Note now ip region]) q2"
    and r2: "proc_run H q2 later p" by auto
  then have st: "proc_step H q1 (Note now ip region) q2"
    by (cases rule: proc_run.cases) (auto elim: proc_run.cases)
  have "packet_books [] (start_process (h_service H)) \<and> traced H [] (start_process (h_service H))"
    using books_start traced_start [of "h_service H" H] assms(2) by simp
  from trace.reached [OF q1 this] have "own_notes H earlier (pr_notes q1)" by (simp add: traced_def)
  moreover have "(ip, region) \<in># pr_notes q1" using st by (simp add: proc_step_simps)
  ultimately have "looked_up H earlier ip region" by (auto simp: own_notes_def)
  moreover have "pr_hints q1 \<noteq> None"
    using hints_enabled [OF q1] assms(2) by (simp add: start_process_def)
  then obtain h1 where "pr_hints q1 = Some h1" by auto
  with hints_step [OF st] have "pr_hints q2 = Some (hints_set now h1 ip region)" by simp
  from hint_kept [OF r2 assms(3) this] have
    "\<exists>h. pr_hints p = Some h \<and> hints_get h ip = Some \<lparr>hint_region = region, hint_at = now\<rparr>"
    by (simp add: hints_set_def hints_get_def)
  ultimately show ?thesis by blast
qed

section \<open>A host to try the properties on\<close>

lemma demo_noted: "noted_region (\<lambda>x. x) (sort_rules demo_rules) (build_query demo_name 1) = Some ''us''"
proof -
  have "dns_lookup (\<lambda>x. x) (sort_rules demo_rules) demo_name = Some (ipv4 10 0 0 2)" by code_simp
  moreover have "to4 (ipv4 10 0 0 2) = Some [10, 0, 0, 2]" by code_simp
  moreover have "region_from_name (\<lambda>x. x) demo_name = Some ''us''" by code_simp
  moreover have "question_of (build_query demo_name 1) = Some (demo_name, 1)"
    using demo_query_parsed by (simp add: parse_question_eq)
  ultimately show ?thesis by (simp add: noted_region_def)
qed

definition demo_service :: service where
  "demo_service =
     \<lparr>sv_server = demo_server, sv_hints = Some new_region_hints,
      sv_redirector = Some \<lparr>rd_rules = sort_rules demo_rules, rd_upstream = ''1.1.1.1:53'', rd_addr = '':53''\<rparr>,
      sv_https = ['':443'']\<rparr>"

definition demo_host :: host where
  "demo_host =
     \<lparr>h_service = demo_service, h_ul = (\<lambda>x. x), h_ago = (\<lambda>_. []), h_fs = (\<lambda>_. None), h_backend = demo_backend\<rparr>"

definition demo_incoming :: "bytes \<Rightarrow> incoming" where
  "demo_incoming input =
     \<lparr>in_remote = ''10.0.0.2:9'', in_input = input, in_end = EOF, in_writes = [], in_entropy = demo_entropy\<rparr>"

lemma demo_host_server: "h_service demo_host = demo_service" "sv_server demo_service = demo_server"
  "sv_https demo_service = ['':443'']" "sv_hints demo_service = Some new_region_hints"
  "h_ago demo_host = (\<lambda>_. [])"
  by (simp_all add: demo_host_def demo_service_def)

lemma demo_cert_new: "cert_for (srv_certs demo_server) (default_region demo_server) (Some new_region_hints) ago ip =
    cert_for (srv_certs demo_server) (default_region demo_server) None ago ip"
  by (simp add: cert_for_def hints_get_def new_region_hints_def)

lemma demo_silent: "serve_incoming demo_host (Some new_region_hints) (demo_incoming []) = Ok []"
proof -
  have "handshake demo_server (Some new_region_hints) (\<lambda>_. []) demo_entropy (new_conn ''10.0.0.2:9'' [] EOF []) =
      handshake demo_server None (\<lambda>_. []) demo_entropy (new_conn ''10.0.0.2:9'' [] EOF [])"
    by (simp add: handshake_def tbind_def present_cert_def demo_cert_new)
  moreover obtain r c where "handshake demo_server None (\<lambda>_. []) demo_entropy (new_conn ''10.0.0.2:9'' [] EOF []) = (r, c)"
    "conn_sent c = []" "r = Err (WrapErr ''read ClientHello'' EOF)"
    by (simp add: handshake_def tbind_def present_cert_def new_conn_def demo_cert_for demo_cert_def wrap_err_def
        read_client_hello_def)
  ultimately show ?thesis
    by (simp add: serve_incoming_def demo_incoming_def demo_host_def demo_service_def serve_tls10_def
        handshake_and_serve_def tbind_def)
qed

definition demo_events :: "event list" where
  "demo_events = [Listen None, Accepted '':443'' (demo_incoming []), Begin (demo_incoming []),
     Finish (demo_incoming []) (Some new_region_hints)]"

lemma demo_run:
  "\<exists>p. proc_run demo_host (start_process (h_service demo_host)) demo_events p \<and>
    pr_sent p = [(demo_incoming [], [])]"
proof -
  let ?p0 = "start_process demo_service" and ?c = "demo_incoming []"
  let ?p1 = "listen_next '':443'' [] None ?p0"
  let ?p2 = "?p1\<lparr>pr_conns := pr_conns ?p1 + {#?c#}\<rparr>"
  let ?p3 = "begin_conn ?c ?p2"
  let ?p4 = "finish_conn demo_host ?c (Some new_region_hints) ?p3"
  have 1: "proc_step demo_host ?p0 (Listen None) ?p1"
    by (rule do_listen) (simp_all add: start_process_def demo_service_def)
  have 2: "proc_step demo_host ?p1 (Accepted '':443'' ?c) ?p2"
    by (rule do_accepted) (simp_all add: start_process_def listen_next_def demo_incoming_def demo_entropy_def)
  have 3: "proc_step demo_host ?p2 (Begin ?c) ?p3"
    by (rule do_begin) (simp_all add: start_process_def listen_next_def)
  have 4: "proc_step demo_host ?p3 (Finish ?c (Some new_region_hints)) ?p4"
    by (rule do_finish) (simp_all add: start_process_def listen_next_def begin_conn_def demo_service_def)
  from run_Cons [OF 1 run_Cons [OF 2 run_Cons [OF 3 run_one [OF 4]]]]
  have "proc_run demo_host ?p0 demo_events ?p4" unfolding demo_events_def .
  moreover have "pr_sent ?p4 = [(?c, [])]"
    by (simp add: finish_conn_def begin_conn_def listen_next_def start_process_def demo_silent)
  ultimately show ?thesis by (auto simp: demo_host_server)
qed

section \<open>Properties\<close>

text \<open>C7. The server runs until a listener fails or a client crashes it: when a process that was
  started with success has ended, then an address or the DNS socket could not be bound or an
  accept loop failed, which is the error it ends with, or an accepted connection sent a 38-byte
  v3 hello or a request with a negative Content-Length.  No DNS packet, whatever its bytes, no
  other input, no failing read or write and no order of the goroutines ends it.\<close>

theorem process_ends:
  assumes "startup ul dial pick key_pair parse_leaf d args = Ok (h_service H)"
    and "\<forall>certs. (\<exists>r \<in> set main_regions. certs r \<noteq> None) \<longrightarrow> certs (pick certs) \<noteq> None"
    and "proc_run H (start_process (h_service H)) evs p"
  shows "end_cause H evs (pr_life p)"
proof -
  have "ends_well H [] (start_process (h_service H))"
    by (simp add: ends_well_def end_cause_def start_process_def chan_make_def)
  with life_span.reached [OF assms(3)] startup_always_cert [OF assms(1,2)] show ?thesis
    by (simp add: ends_well_def)
qed

theorem process_ends_witness:
  "\<exists>sv p. startup (\<lambda>x. x) (Ok (ipv4 10 0 0 9)) demo_pick demo_pair (\<lambda>_. Ok demo_leaf_info) empty_disk
     [(''default-region'', ''eu'')] = Ok sv \<and>
   proc_run (demo_host\<lparr>h_service := sv\<rparr>) (start_process sv) [BindDns (Some (IOErr ''in use''))] p \<and>
   end_cause (demo_host\<lparr>h_service := sv\<rparr>) [BindDns (Some (IOErr ''in use''))] (pr_life p) \<and>
   pr_life p = Fatal (WrapErr ''dns'' (IOErr ''in use''))"
proof -
  obtain sv rd where sv: "startup (\<lambda>x. x) (Ok (ipv4 10 0 0 9)) demo_pick demo_pair (\<lambda>_. Ok demo_leaf_info) empty_disk
     [(''default-region'', ''eu'')] = Ok sv" "sv_redirector sv = Some rd" using demo_startup by blast
  let ?H = "demo_host\<lparr>h_service := sv\<rparr>" and ?e = "BindDns (Some (IOErr ''in use''))"
  let ?p = "bind_dns (Some (IOErr ''in use'')) (start_process sv)"
  have "proc_step ?H (start_process sv) ?e ?p"
    by (rule do_bind) (simp_all add: sv(2) start_process_def)
  from run_step [OF run_start this] have r: "proc_run ?H (start_process (h_service ?H)) [?e] ?p" by simp
  have pick: "\<forall>certs. (\<exists>r \<in> set main_regions. certs r \<noteq> None) \<longrightarrow> certs (demo_pick certs) \<noteq> None"
    by (auto simp: main_regions_def demo_pick_def)
  have "startup (\<lambda>x. x) (Ok (ipv4 10 0 0 9)) demo_pick demo_pair (\<lambda>_. Ok demo_leaf_info) empty_disk
     [(''default-region'', ''eu'')] = Ok (h_service ?H)" using sv(1) by simp
  from process_ends [OF this pick r] sv(1) r show ?thesis
    by (intro exI [of _ sv] exI [of _ ?p]) (simp add: bind_dns_def)
qed

text \<open>C8. Clients do not see each other: what a connection is sent is what \<open>serveTLS10\<close> sends it
  with a hint store that holds at most one hint, for its own address, and the region of that
  hint was looked up from that address; so it depends on its own input and on packets with its
  own source address alone, whatever all others do and in whatever order.\<close>

theorem clients_isolated:
  assumes "proc_run H (start_process (h_service H)) evs p"
    and "sv_hints (h_service H) \<in> {None, Some new_region_hints}"
    and "(c, out) \<in> set (pr_sent p)"
  shows "\<exists>ho. serve_incoming H (only_hint (client_ip (in_remote c)) ho) c = Ok out \<and>
    (case ho of None \<Rightarrow> True
     | Some h \<Rightarrow> looked_up H evs (client_ip (in_remote c)) (hint_region h))"
proof -
  have "packet_books [] (start_process (h_service H)) \<and> traced H [] (start_process (h_service H))"
    using books_start traced_start [OF assms(2)] by simp
  from trace.reached [OF assms(1) this] assms(3) have "own_reply H evs c out"
    by (force simp: traced_def own_replies_def)
  then obtain ho where "serve_incoming H (only_hint (client_ip (in_remote c)) ho) c = Ok out"
    "\<forall>h. ho = Some h \<longrightarrow> looked_up H evs (client_ip (in_remote c)) (hint_region h)"
    unfolding own_reply_def by blast
  then show ?thesis by (intro exI [of _ ho]) (simp split: option.split)
qed

theorem clients_isolated_witness:
  "\<exists>p ho. proc_run demo_host (start_process (h_service demo_host))
      demo_events p \<and>
    pr_sent p = [(demo_incoming [], [])] \<and>
    serve_incoming demo_host (only_hint (client_ip (in_remote (demo_incoming []))) ho) (demo_incoming []) = Ok []"
proof -
  obtain p where p: "proc_run demo_host (start_process (h_service demo_host))
      demo_events p"
    "pr_sent p = [(demo_incoming [], [])]" using demo_run by blast
  have "sv_hints (h_service demo_host) \<in> {None, Some new_region_hints}" by (simp add: demo_host_def demo_service_def)
  from clients_isolated [OF p(1) this, of "demo_incoming []" "[]"] p show ?thesis by auto
qed

text \<open>C22. Every handler works on its packet as it was read, although all packets are read into one
  buffer and the loop reads on while handlers wait: at any time the packets answered and the
  packets still waiting, with what their handlers will find in memory, are together exactly the
  datagrams read, each cut off after 512 bytes, none lost, doubled or mixed with another.  A
  packet is answered at most once, with what the handler makes of exactly these bytes.\<close>

theorem packets_as_read:
  assumes "proc_run H (start_process (h_service H)) evs p"
  shows "mset (map (\<lambda>(src, q, out). (src, q)) (pr_answers p)) +
      image_mset (\<lambda>(src, s). (src, slice_bytes (pr_mem p) s)) (pr_queries p) = mset (packets evs) \<and>
    list_all (\<lambda>(src, q, out). length out \<le> 1 \<and>
      (\<exists>rd exchange. sv_redirector (h_service H) = Some rd \<and>
        dns_packets (h_ul H) (rd_rules rd) (dns_forward (\<lambda>_. exchange)) q = Ok out)) (pr_answers p)"
proof -
  have "answered_right H (start_process (h_service H))"
    by (simp add: answered_right_def start_process_def)
  with answers.reached [OF assms] have "answered_right H p" .
  then have "list_all (\<lambda>(src, q, out). length out \<le> 1 \<and>
      (\<exists>rd exchange. sv_redirector (h_service H) = Some rd \<and>
        dns_packets (h_ul H) (rd_rules rd) (dns_forward (\<lambda>_. exchange)) q = Ok out)) (pr_answers p)"
    using packets_of_length unfolding answered_right_def list_all_iff dns_packets_eq by fastforce
  moreover have "packet_books evs p" by (rule books.reached [OF assms books_start])
  ultimately show ?thesis by (simp add: packet_books_def handled_packets_def waiting_packets_def)
qed

theorem packets_as_read_witness:
  "\<exists>p. proc_run demo_host (start_process (h_service demo_host))
      [BindDns None, Packet ''192.0.2.7:1030'' [1, 2, 3], Packet ''192.0.2.8:1030'' [4]] p \<and>
    image_mset (\<lambda>(src, s). (src, slice_bytes (pr_mem p) s)) (pr_queries p) =
      {#(''192.0.2.7:1030'', [1, 2, 3]), (''192.0.2.8:1030'', [4])#}"
proof -
  let ?p0 = "start_process demo_service"
  let ?p1 = "bind_dns None ?p0"
  let ?p2 = "receive ''192.0.2.7:1030'' [1, 2, 3] ?p1"
  let ?p3 = "receive ''192.0.2.8:1030'' [4] ?p2"
  have 1: "proc_step demo_host ?p0 (BindDns None) ?p1"
    by (rule do_bind) (simp_all add: start_process_def demo_host_def demo_service_def)
  have 2: "proc_step demo_host ?p1 (Packet ''192.0.2.7:1030'' [1, 2, 3]) ?p2"
    by (rule do_packet) (simp_all add: start_process_def bind_dns_def)
  have 3: "proc_step demo_host ?p2 (Packet ''192.0.2.8:1030'' [4]) ?p3"
    by (rule do_packet) (simp_all add: start_process_def bind_dns_def receive_def split: prod.split)
  from run_Cons [OF 1 run_Cons [OF 2 run_one [OF 3]]]
  have r: "proc_run demo_host (start_process (h_service demo_host))
      [BindDns None, Packet ''192.0.2.7:1030'' [1, 2, 3], Packet ''192.0.2.8:1030'' [4]] ?p3"
    by (simp add: demo_host_server)
  have "pr_answers ?p3 = []"
    by (simp add: start_process_def bind_dns_def receive_def split: prod.split)
  with packets_as_read [OF r] r show ?thesis
    by (intro exI [of _ ?p3]) (simp add: trace_defs)
qed

text \<open>C23. The error channel of \<open>listenTLS10\<close> is large enough: no accept loop ever waits in its
  send, however many of them fail and although \<open>main\<close> receives only once every address is
  listened on, and until then every error is in the buffer, in the order of the failures.\<close>

theorem accept_errors_fit:
  assumes "proc_run H (start_process (h_service H)) evs p"
  shows "ch_senders (pr_errors p) = [] \<and>
    (case pr_life p of Fatal e \<Rightarrow> True | _ \<Rightarrow> ch_buf (pr_errors p) = accept_errors evs)"
proof -
  have "channel_ok [] (start_process (h_service H))"
    by (simp add: channel_ok_def start_process_def chan_make_def)
  with channel.reached [OF assms] have "channel_ok evs p" .
  then show ?thesis by (simp add: channel_ok_def split: life.split)
qed

theorem accept_errors_fit_witness:
  "\<exists>p. proc_run demo_host (start_process (h_service demo_host)) [Listen None, AcceptError '':443'' EOF] p \<and>
    ch_senders (pr_errors p) = [] \<and> ch_buf (pr_errors p) = [EOF]"
proof -
  let ?p0 = "start_process demo_service"
  let ?p1 = "listen_next '':443'' [] None ?p0"
  let ?p2 = "accept_failed '':443'' EOF ?p1"
  have 1: "proc_step demo_host ?p0 (Listen None) ?p1"
    by (rule do_listen) (simp_all add: start_process_def demo_service_def)
  have 2: "proc_step demo_host ?p1 (AcceptError '':443'' EOF) ?p2"
    by (rule do_accept_error) (simp_all add: start_process_def listen_next_def)
  from run_Cons [OF 1 run_one [OF 2]]
  have r: "proc_run demo_host (start_process (h_service demo_host)) [Listen None, AcceptError '':443'' EOF] ?p2"
    by (simp add: demo_host_server)
  have "pr_life ?p2 = Running" by (simp add: accept_failed_def listen_next_def start_process_def)
  with accept_errors_fit [OF r] r show ?thesis
    by (intro exI [of _ ?p2]) (simp add: trace_defs)
qed

text \<open>C19. The answer overtakes the hint: the handler writes the redirected answer before it notes
  the region, so a client can have its answer and connect while the store still has nothing for
  it; it is then given the default region's certificate, although one for its region is loaded.
  Only after the note is the region's certificate chosen.\<close>

theorem answer_before_note:
  assumes "pr_life p = Running" and "pr_dns p" and "sv_redirector (h_service H) = Some rd"
    and "pr_hints p = Some h" and "hints_get h (client_ip src) = None" and "length q \<le> 512"
    and "dns_note (h_ul H) (rd_rules rd) q = Ok (Some region)" and "certs region = Some cert"
  shows "\<exists>s p1 p2 resp. proc_run H p [Packet src q, Answer src s exchange] p1 \<and>
    (src, q, [resp]) \<in> set (pr_answers p1) \<and>
    fst (cert_for certs dr (pr_hints p1) ago (client_ip src)) = certs dr \<and>
    proc_step H p1 (Note now (client_ip src) region) p2 \<and>
    fst (cert_for certs dr (pr_hints p2) ago (client_ip src)) = Some cert"
proof -
  obtain s m where r: "receive_packet q (pr_mem p) = (s, m)" by fastforce
  with receive_packet_fresh [OF r] assms(6) have q: "slice_bytes m s = q" by simp
  let ?p0 = "receive src q p"
  let ?p1 = "answer_query H rd src s exchange ?p0"
  let ?p2 = "note_region now (client_ip src) region ?p1"
  have n: "noted_region (h_ul H) (rd_rules rd) q = Some region" using assms(7) by (simp add: dns_note_eq)
  then obtain resp where a: "packets_of (h_ul H) (rd_rules rd) (dns_forward (\<lambda>_. exchange)) q = [resp]"
    using redirect_region [of "h_ul H" "rd_rules rd" q] by (auto simp: packets_of_def split: option.splits)
  have "proc_step H p (Packet src q) ?p0" by (rule do_packet [OF assms(1,2)])
  moreover have "proc_step H ?p0 (Answer src s exchange) ?p1"
    by (rule do_answer) (use assms(1,3) in \<open>simp_all add: receive_def r\<close>)
  ultimately have "proc_run H p [Packet src q, Answer src s exchange] ?p1"
    by (rule run_Cons [OF _ run_one])
  moreover have "proc_step H ?p1 (Note now (client_ip src) region) ?p2"
    by (rule do_note) (use assms(1,4) n q in \<open>simp_all add: answer_query_eq receive_def r\<close>)
  moreover have "pr_hints ?p1 = Some h" "pr_hints ?p2 = Some (hints_set now h (client_ip src) region)"
    "(src, q, [resp]) \<in> set (pr_answers ?p1)"
    using assms(4) a q by (simp_all add: answer_query_eq note_region_def receive_def r)
  ultimately show ?thesis
    using assms(5,8) by (intro exI [of _ s] exI [of _ ?p1] exI [of _ ?p2] exI [of _ resp])
      (simp add: cert_for_def hints_get_def hints_set_def)
qed

theorem answer_before_note_witness:
  "\<exists>s p1 p2 resp. proc_run demo_host (start_process demo_service\<lparr>pr_dns := True\<rparr>) [Packet ''192.0.2.7:1030'' (build_query demo_name 1), Answer ''192.0.2.7:1030'' s None] p1 \<and>
    (''192.0.2.7:1030'', (build_query demo_name 1), [resp]) \<in> set (pr_answers p1) \<and>
    fst (cert_for [''us'' \<mapsto> demo_cert] ''jp'' (pr_hints p1) (\<lambda>_. []) (client_ip ''192.0.2.7:1030'')) =
      [''us'' \<mapsto> demo_cert] ''jp'' \<and>
    proc_step demo_host p1 (Note 7 (client_ip ''192.0.2.7:1030'') ''us'') p2 \<and>
    fst (cert_for [''us'' \<mapsto> demo_cert] ''jp'' (pr_hints p2) (\<lambda>_. []) (client_ip ''192.0.2.7:1030'')) = Some demo_cert"
proof -
  let ?p = "start_process demo_service\<lparr>pr_dns := True\<rparr>" and ?q = "build_query demo_name 1"
  let ?rd = "\<lparr>rd_rules = sort_rules demo_rules, rd_upstream = ''1.1.1.1:53'', rd_addr = '':53''\<rparr>"
  have "pr_life ?p = Running" "pr_dns ?p" "sv_redirector (h_service demo_host) = Some ?rd"
    "pr_hints ?p = Some new_region_hints"
    by (simp_all add: start_process_def demo_host_def demo_service_def)
  moreover have "hints_get new_region_hints (client_ip ''192.0.2.7:1030'') = None"
    by (simp add: hints_get_def new_region_hints_def)
  moreover have "length ?q \<le> 512" by code_simp
  moreover have "dns_note (h_ul demo_host) (rd_rules ?rd) ?q = Ok (Some ''us'')"
    using demo_noted by (simp add: dns_note_eq demo_host_def)
  moreover have "[''us'' \<mapsto> demo_cert] ''us'' = Some demo_cert" by simp
  ultimately show ?thesis by (rule answer_before_note)
qed

text \<open>C20. Any client that can connect can stop the server for everyone: after one connection with
  the 38-byte hello the process has crashed and no goroutine, TLS or DNS, takes another step.\<close>

theorem one_client_stops_all:
  assumes "pr_life p = Running" and "addr \<in># pr_listening p" and "server_random ent \<noteq> Panic"
    and "cert_for (srv_certs (sv_server (h_service H))) (default_region (sv_server (h_service H)))
      (pr_hints p) (h_ago H) (client_ip remote) = (Some cert, source)"
    and "cert_key cert = RSAKey k"
    and "c = \<lparr>in_remote = remote, in_input = crash_hello @ rest, in_end = e, in_writes = ws, in_entropy = ent\<rparr>"
  shows "\<exists>p'. proc_run H p [Accepted addr c, Begin c, Finish c (pr_hints p)] p' \<and> pr_life p' = Crashed \<and>
    (\<forall>ev p''. \<not> proc_step H p' ev p'')"
proof -
  let ?p1 = "p\<lparr>pr_conns := pr_conns p + {#c#}\<rparr>"
  let ?p2 = "begin_conn c ?p1"
  let ?p3 = "finish_conn H c (pr_hints p) ?p2"
  have "short_hello (crash_hello @ rest)"
    by (simp add: short_hello_def crash_hello_def frame_def put16_def be16_def ctHandshake_def hs_types tls10Version_def)
  then have "serve_incoming H (pr_hints p) c = Panic"
    using assms(5) by (simp add: serve_incoming_def assms(6) serve_panic_input [OF assms(3)] assms(4))
  then have l: "pr_life ?p3 = Crashed" by (simp add: finish_conn_def)
  have 1: "proc_step H p (Accepted addr c) ?p1"
    by (rule do_accepted) (use assms in simp_all)
  have 2: "proc_step H ?p1 (Begin c) ?p2"
    by (rule do_begin) (use assms(1) in simp_all)
  have 3: "proc_step H ?p2 (Finish c (pr_hints p)) ?p3"
    by (rule do_finish) (use assms(1) in \<open>simp_all add: begin_conn_def\<close>)
  have "\<not> proc_step H ?p3 ev p''" for ev p''
    using l life_step by force
  with run_Cons [OF 1 run_Cons [OF 2 run_one [OF 3]]] l show ?thesis by blast
qed

theorem one_client_stops_all_witness:
  "\<exists>p'. proc_run demo_host (start_process demo_service\<lparr>pr_listening := {#'':443''#}\<rparr>)
      [Accepted '':443'' (demo_incoming (crash_hello @ [])), Begin (demo_incoming (crash_hello @ [])),
       Finish (demo_incoming (crash_hello @ [])) (Some new_region_hints)] p' \<and> pr_life p' = Crashed"
proof -
  let ?p = "start_process demo_service\<lparr>pr_listening := {#'':443''#}\<rparr>"
  have c: "cert_for (srv_certs (sv_server (h_service demo_host))) (default_region (sv_server (h_service demo_host)))
      (pr_hints ?p) (h_ago demo_host) (client_ip ''10.0.0.2:9'') =
      (Some demo_cert, ''jp certificate (default; no DNS lookup seen from this client)'')"
    by (simp add: demo_host_server start_process_def demo_cert_new demo_cert_for)
  have "pr_life ?p = Running" "'':443'' \<in># pr_listening ?p" "server_random demo_entropy \<noteq> Panic"
    "cert_key demo_cert = RSAKey demo_rsa" and h: "pr_hints ?p = Some new_region_hints"
    by (simp_all add: start_process_def demo_entropy_def demo_cert_def demo_service_def)
  from one_client_stops_all [OF this(1-3) c this(4) demo_incoming_def] show ?thesis unfolding h by blast
qed

end
