(* ===== verification/Spec2Isabelle.thy ===== *)
theory Spec2Isabelle
  imports Process
begin

text \<open>
  dnasrep-go, a replacement for the DNAS servers of the PlayStation 2 in one Go program.  A
  console resolves gate1.<region>.dnas.playstation.org, opens a TLS 1.0 connection and posts a
  query; the program redirects the name to itself (dns.go), speaks just enough TLS 1.0 for the
  console's library (tls10.go) and replays a captured, freshly encrypted reply (dnas.go).
  Requests for other paths are served from the document root or forwarded to a backend.

  The theories, in the order of their imports.

  Go's library, as far as the program calls it, as executable definitions:
    Prelude (bytes, errors, \<open>outcome\<close>: a value, an error or a run-time panic; \<open>go_index\<close>,
    \<open>go_slice\<close> and their kin are Go's index and slice expressions, which panic out of range),
    GoStrings, GoConv, GoPaths, GoNet, GoUrl (strings, strconv, hex, path, path/filepath,
    net.ParseIP and SplitHostPort, url.Parse), Base64, Pem (encoding/base64, encoding/pem),
    Hashes (MD5, SHA-1, HMAC), Des, Cbc (triple DES, CBC mode), Rsa (PKCS#1 v1.5 decryption),
    Http (header fields of net/http).
    GoPaths proves that a cleaned path has no dot-dot element left and that Join and Rel stay
    below their root; Cbc states in the locale \<open>block_cipher\<close> what CBC needs of a cipher, proves
    the mode's round trip there, and interprets it on triple DES; Base64 and Pem prove their
    round trips.

  The program:
    Config      config.go: the mode flag, dns.config, deduplication and sorting of rules
    Hints       hints.go and \<open>appendChain\<close>, \<open>clientIP\<close> of https.go: the store of regions per
                client, as the locale \<open>hint_store\<close> with the code's map as interpretation, and
                the certificate choice \<open>certFor\<close>
    Dns         dns.go: question parsing, the answer, the longest-suffix lookup, \<open>handle\<close> and
                \<open>forward\<close>
    Server      the \<open>Server\<close> struct of https.go and the \<open>proxyRule\<close> of proxy.go
    Dnas        dnas.go: lookup of a capture, install stand-ins, key derivation, encryption
    Prf         tls10.go: \<open>pHash\<close>, \<open>prf10\<close>, \<open>finishedHash\<close>
    TlsRecord   tls10.go: the connection \<open>tls10Conn\<close> and the record layer; its contract is the
                locale \<open>record_channel\<close>, interpreted on \<open>readRecord\<close> and \<open>writeRecord\<close>
    TlsHello    tls10.go: \<open>readClientHello\<close>, \<open>offersCipher\<close>, \<open>describeRecord\<close>
    TlsHandshake tls10.go: \<open>handshakeAndServe\<close> up to the application data
    HttpText, Http  tls10.go: \<open>parseHTTPRequest\<close>, the reply forms
    Proxy       proxy.go: rules, matching, forwarding
    Serve       tls10.go: \<open>readAppData\<close>, \<open>serveHTTP\<close>, \<open>dispatch\<close>, \<open>serveStatic\<close>, \<open>serveTLS10\<close>
    Gencerts    tools/gencerts: the tool that writes the certificates, over an explicit disk
    Startup     main.go: flags, certificates, rules, and what is running afterwards
    Process     the goroutines of main.go, \<open>DNSServer.listen\<close> and \<open>listenTLS10\<close>, interleaved, as
                the step relation \<open>proc_step\<close> and its runs \<open>proc_run\<close>, with the memory the packets
                are read into and the error channel; the locale \<open>process_invariant\<close> carries what
                every step keeps over to runs

  State and effects.  A method of the connection is a function from \<open>tls10_conn\<close> to an
  \<open>outcome\<close> and the connection afterwards (type \<open>tls\<close>, composed by \<open>tbind\<close>): the bytes the
  client sends, the results of the writes and the records sent are fields of it, so an error
  leaves exactly what the code had done by then.

  Run-time panics.  Where the code indexes or slices bytes that come from a client or a file,
  the definition does so with the check (\<open>go_index\<close>, \<open>go_slice\<close>, \<open>or_differs\<close> for a condition
  that stops early), and a failed check is \<open>Panic\<close>.  That the guards in front suffice is proved,
  not built in: Dns, Dnas, TlsRecord, TlsHello and Http show each such function equal to one without
  checks and work with that (the lemmas ..._eq).  Plain are the slices of the key block, whose
  length is a constant, and the loops that take a list apart entry by entry (the suite list,
  the fragments of a long reply).  No goroutine of the program recovers, so a
  \<open>Panic\<close> anywhere is the end of the process; the theorems called ..._panics_iff say which
  inputs cause it.

  Goroutines.  They share the hint store, whose two operations hold the mutex for their whole
  body; the 512-byte buffer of the DNS read loop, from which every packet is copied into an
  array of its own; and the error channel of \<open>listenTLS10\<close>, with its capacity.  In \<open>proc_step\<close>
  reading a packet, answering it, noting its region, beginning and finishing a connection are
  steps of their own, taken in any order, and the sockets are the environment: every bind, read
  and accept may succeed or fail.  A connection reads the hint store once, when it begins; it
  finishes at any later time or, as no deadline is set on it, never.

  Integers.  Sequence numbers are 64-bit words and wrap as in the code; lengths that the code
  puts into one, two or three bytes are truncated as there; bounds of slices are integers, so
  a negative one is a panic and not zero.

  Loops end by a measure (the remaining input, or the bytes still to write), so every
  definition is a total function and needs no fuel; \<open>serve_loop\<close> consumes a record per round.

  What the groups of lemmas show.
    Records: a record put on one end is got on the other, in order and with both ends in step;
    a record that is accepted is the encryption of its content and the right MAC.
    Handshake: a client that keeps to the protocol completes it, with an SSLv2-compatible hello
    (a console) or an ordinary v3 hello; the server sends nothing but
    its flight before the client's Finished is verified against the transcript.
    Service: a request in any number of records is answered once, with what \<open>dispatch\<close>
    returned, in records of at most 2^14 bytes; paths stay below the document root.
    DNAS: the endpoints implement a lookup contract (\<open>find_capture\<close>) and a title can open what
    they send; the CBC call equals the block loop of the original PHP code.
    DNS and configuration: the longest suffix wins, dns.config wins over the defaults; a
    started redirector decides by the names in force.
    Start-up and gencerts: a started service has a certificate; what gencerts writes is what
    the server loads.
    Process: invariants of the step relation, by induction over runs: why a process ends, what
    a connection can depend on, that every handler works on its packet as it was read, that no
    accept loop waits on the error channel.
  This theory holds the properties that span the components: a whole session from the first
  byte to the last, and the way from a DNS lookup to the certificate, over runs of the process.

  The definitions compute: evaluated on the handshake of a real console that capture_test.go
  records, with the server's key, \<open>decrypt\<close> opens the captured Finished and \<open>client_verify\<close> over
  the captured messages gives the verify data in it; Hashes and Des prove test vectors of MD5
  and DES.

  Parameters.  \<open>ul\<close> is \<open>strings.ToLower\<close> on text that is not ASCII; \<open>ago\<close> renders the age of a
  hint; \<open>entropy\<close> and \<open>rnd\<close> are the random bytes; \<open>backend\<close> is the HTTP transport to a proxied
  server, \<open>exchange\<close> that with the upstream resolver; \<open>key_pair\<close>, \<open>parse_leaf\<close> and
  \<open>lib\<close> are crypto/tls and crypto/x509 (ASN.1 and signatures); \<open>pick\<close> is the order of a range
  over a map and \<open>dial\<close> the local address that dialling the resolver gives.

  Not modelled.  The sockets themselves are input and output around the operations above; log
  output is left out; timing is not modelled (the constant-time comparisons compute equality,
  the deadlines of the resolver and of the proxy client show only as failed exchanges).  What a
  connection sends is recorded when it finishes: of the replies under way when the process
  ends, clients get a prefix.
\<close>

section \<open>A whole session\<close>

text \<open>C1. A console that keeps to the protocol gets its answer: it completes the handshake, sends
  a request cut into records in any way, and what it decrypts from the records that follow the
  server's Finished is exactly the reply of \<open>dispatch\<close> to that request, noted with its address;
  the server sends nothing else and survives.\<close>

theorem session_answered:
  assumes "cert_for (srv_certs s) (default_region s) hs ago (client_ip remote) = (Some cert, source)"
    and "cert_key cert = RSAKey priv"
    and "server_random ent = Ok sr" and "length (premaster_random ent) = 48"
    and "hello = v2_body a b specs sid ch" and "length hello < 2 ^ 15" and "offers_v2 specs"
    and "length enc \<le> 2048" and "rsa_decrypt priv enc = Some pm" and "length pm = 48"
    and "msgs = hello @ flight sr (cert_chain cert) @ cke_msg enc"
    and "get_record (frame ctHandshake (server_sealed_fin pm ch sr msgs)) (client_ready pm ch sr msgs cl) = Some (fin, [], cl')"
    and "pieces \<noteq> []" and "list_all (\<lambda>m. length m \<le> maxPlaintext) pieces"
    and "put_all put_record (app_records pieces) cl' = Some (bs, cl2)"
    and "parse_http_request (concat pieces) = Ok (Some req)"
  shows "\<exists>reply sent frags cl3.
    dispatch ul s fs backend (req\<lparr>req_remote := client_ip remote\<rparr>) = Ok reply \<and>
    serve_tls10 ul s hs ago ent fs backend remote
        (client_input hello enc pm ch sr (cert_chain cert) @ concat bs @ rest) e [] =
      Ok (flight_records sr (cert_chain cert) @
        [frame ctChangeCipherSpec [1], frame ctHandshake (server_sealed_fin pm ch sr msgs)] @ sent) \<and>
    get_all get_record (length sent) (concat sent) cl2 = Some (app_records frags, [], cl3) \<and>
    concat frags = reply \<and> (\<forall>f \<in> set frags. length f \<le> 2 ^ 14)"
proof -
  define c0 where "c0 = new_conn remote (client_input hello enc pm ch sr (cert_chain cert) @ concat bs @ rest) e []"
  define c1 where "c1 = established pm ch sr (cert_chain cert) msgs (concat bs @ rest)
    (c0\<lparr>cert_info := cert_text cert source, hello_info := v2_info a b specs ch, hello_specs := hex_encode specs\<rparr>)"
  have "cert_for (srv_certs s) (default_region s) hs ago (client_ip (conn_remote c0)) = (Some cert, source)"
    using assms(1) by (simp add: c0_def new_conn_def)
  from handshake_runs [OF this assms(2-11) c0_def] have h: "handshake s hs ago ent c0 = (Ok (), c1)"
    by (simp add: c1_def)
  have c1: "conn_in c1 = concat bs @ rest" "plain_buf c1 = []" "conn_writes c1 = []" "conn_remote c1 = remote"
    "conn_sent c1 = flight_records sr (cert_chain cert) @
        [frame ctChangeCipherSpec [1], frame ctHandshake (server_sealed_fin pm ch sr msgs)]"
    by (simp_all add: c1_def established_def Let_def c0_def new_conn_def)
  have s: "synced cl' c1" "synced c1 cl'"
    using established_in_step [OF c1_def refl, of cl] assms(12) by auto
  from request_service [OF s c1(2,3) assms(13-15) c1(1) assms(16), of ul s fs backend]
  obtain reply sent frags c2 cl3 where
    "dispatch ul s fs backend (req\<lparr>req_remote := client_ip remote\<rparr>) = Ok reply"
    "serve_http ul s fs backend c1 = (Ok (), c2)" "conn_sent c2 = conn_sent c1 @ sent"
    "get_all get_record (length sent) (concat sent) cl2 = Some (app_records frags, [], cl3)"
    "concat frags = reply" "\<forall>f \<in> set frags. length f \<le> 2 ^ 14"
    unfolding c1(4) by auto
  moreover have "serve_tls10 ul s hs ago ent fs backend remote
      (client_input hello enc pm ch sr (cert_chain cert) @ concat bs @ rest) e [] = Ok (conn_sent c2)"
    using calculation(2)
    by (simp add: serve_tls10_def handshake_and_serve_def tbind_def h flip: c0_def)
  ultimately show ?thesis using c1(5) by auto
qed

definition demo_msgs :: bytes where
  "demo_msgs = demo_hello @ flight (replicate 32 6) (cert_chain demo_cert) @ cke_msg demo_enc"

theorem session_answered_witness:
  "\<exists>bs reply sent. dispatch (\<lambda>x. x) demo_server (\<lambda>_. Some [7, 7]) demo_backend
      \<lparr>req_method = ''GET'', req_path = ''/a'', req_header = header_of [], req_body = [],
       req_remote = client_ip ''10.0.0.2:1024''\<rparr> = Ok reply \<and>
    serve_tls10 (\<lambda>x. x) demo_server None (\<lambda>_. []) demo_entropy (\<lambda>_. Some [7, 7]) demo_backend ''10.0.0.2:1024''
      (client_input demo_hello demo_enc demo_pm (replicate 16 4) (replicate 32 6) (cert_chain demo_cert) @ concat bs @ []) EOF [] =
    Ok (flight_records (replicate 32 6) (cert_chain demo_cert) @
      [frame ctChangeCipherSpec [1],
       frame ctHandshake (server_sealed_fin demo_pm (replicate 16 4) (replicate 32 6) demo_msgs)] @ sent)"
proof -
  let ?ps = "[take 5 demo_get, drop 5 demo_get]" and ?cl = "new_conn [] [] EOF []"
  let ?fin = "frame ctHandshake (server_sealed_fin demo_pm (replicate 16 4) (replicate 32 6) demo_msgs)"
  from established_in_step [OF refl refl, of demo_pm "replicate 16 4" "replicate 32 6" demo_msgs ?cl]
  obtain fin cl' c' where g: "get_record ?fin (client_ready demo_pm (replicate 16 4) (replicate 32 6) demo_msgs ?cl) =
      Some ((ctHandshake, fin), [], cl')" and s: "synced cl' c'" by blast
  have l: "length demo_get = 19" unfolding demo_get_def by code_simp
  then have f: "list_all (\<lambda>m. length m \<le> maxPlaintext) ?ps" by (simp add: maxPlaintext_def)
  then have "list_all (\<lambda>(t, m). length m \<le> maxPlaintext) (app_records ?ps)" by simp
  from tls_channel.deliver_all [OF s this] obtain bs cl2
    where p: "put_all put_record (app_records ?ps) cl' = Some (bs, cl2)" by blast
  have q: "parse_http_request (concat ?ps) = Ok (Some \<lparr>req_method = ''GET'', req_path = ''/a'',
      req_header = header_of [], req_body = [], req_remote = []\<rparr>)"
    using demo_get_parsed by simp
  have e: "length demo_hello < 2 ^ 15" "length demo_enc \<le> 2048" "length demo_pm = 48"
    "cert_key demo_cert = RSAKey demo_rsa" "server_random demo_entropy = Ok (replicate 32 6)"
    "length (premaster_random demo_entropy) = 48" "offers_v2 [0, 0, 0x66, 0, 0, 0x0a]"
    by (simp_all add: demo_hello_def length_v2_body demo_enc_def pkcs1_pad_def demo_pm_def demo_cert_def demo_entropy_def)
  from session_answered [where remote = "''10.0.0.2:1024''" and ul = "\<lambda>x. x" and fs = "\<lambda>_. Some [7, 7]"
      and backend = demo_backend and rest = "[]" and e = EOF,
      OF demo_cert_for e(4-6) demo_hello_def e(1,7,2) demo_rsa_decrypt e(3) demo_msgs_def g _ f p q]
  show ?thesis by auto
qed

section \<open>From the lookup to the certificate\<close>

text \<open>C10. From the moment the region a client looked up is noted, and until another region is
  noted for its address, every connection from that address that begins is presented the
  certificate of this region: it takes with it a store that has the region, and the handshake
  chooses the certificate loaded for it, whatever the default is, with its RSA key (any other
  key is an error); only for a region without a certificate it is the default region's.  The
  region is one that the redirector answered to this address.  All this holds in every run,
  whatever other goroutines do before and in between.\<close>

theorem lookup_selects_certificate:
  assumes "proc_run H (start_process (h_service H))
      (earlier @ [Note now (client_ip (in_remote c)) region] @ later) p"
    and "\<forall>t r. Note t (client_ip (in_remote c)) r \<notin> set later"
    and "sv_hints (h_service H) = Some new_region_hints"
    and "proc_step H p (Begin c) p'"
    and "s = sv_server (h_service H)"
  shows "looked_up H earlier (client_ip (in_remote c)) region \<and>
    (\<exists>h. pr_serving p' = pr_serving p + {#(c, Some h)#} \<and>
      fst (present_cert s (Some h) (h_ago H) (new_conn (in_remote c) (in_input c) (in_end c) (in_writes c))) =
        (case (case srv_certs s region of Some cert \<Rightarrow> Some cert | None \<Rightarrow> srv_certs s (default_region s)) of
           None \<Rightarrow> Panic
         | Some cert \<Rightarrow>
             (case cert_key cert of
                RSAKey priv \<Rightarrow> Ok (cert, priv)
              | OtherKey \<Rightarrow> Err (NewErr ''tls: server key is not RSA''))))"
proof -
  let ?ip = "client_ip (in_remote c)"
  from noted_last [OF assms(1,3,2)] obtain h where l: "looked_up H earlier ?ip region"
    and h: "pr_hints p = Some h" "hints_get h ?ip = Some \<lparr>hint_region = region, hint_at = now\<rparr>" by blast
  have "fst (present_cert s (Some h) (h_ago H) (new_conn (in_remote c) (in_input c) (in_end c) (in_writes c))) =
        (case (case srv_certs s region of Some cert \<Rightarrow> Some cert | None \<Rightarrow> srv_certs s (default_region s)) of
           None \<Rightarrow> Panic
         | Some cert \<Rightarrow>
             (case cert_key cert of
                RSAKey priv \<Rightarrow> Ok (cert, priv)
              | OtherKey \<Rightarrow> Err (NewErr ''tls: server key is not RSA'')))"
    by (simp add: present_cert_def cert_for_def new_conn_def h(2) split: option.split private_key.split)
  moreover have "pr_serving p' = pr_serving p + {#(c, Some h)#}"
    using assms(4) h(1) by (simp add: proc_step_simps begin_conn_def)
  ultimately show ?thesis using l by blast
qed

definition us_host :: host where
  "us_host = demo_host\<lparr>h_service := demo_service\<lparr>sv_server := demo_server\<lparr>srv_certs := [''us'' \<mapsto> demo_cert]\<rparr>\<rparr>\<rparr>"

definition us_client :: incoming where
  "us_client =
     \<lparr>in_remote = ''192.0.2.7:4711'', in_input = [], in_end = EOF, in_writes = [], in_entropy = demo_entropy\<rparr>"

lemma us_run:
  "\<exists>s p. proc_run us_host (start_process (h_service us_host))
      ([BindDns None, Listen None, Packet ''192.0.2.7:1030'' (build_query demo_name 1), Answer ''192.0.2.7:1030'' s None] @
       [Note 7 (client_ip (in_remote us_client)) ''us''] @ [Accepted '':443'' us_client]) p \<and>
    proc_step us_host p (Begin us_client) (begin_conn us_client p)"
proof -
  let ?src = "''192.0.2.7:1030''" and ?q = "build_query demo_name 1" and ?ip = "client_ip (in_remote us_client)"
  let ?rd = "\<lparr>rd_rules = sort_rules demo_rules, rd_upstream = ''1.1.1.1:53'', rd_addr = '':53''\<rparr>"
  have ip: "client_ip ?src = ?ip" unfolding us_client_def by code_simp
  have sv: "sv_redirector (h_service us_host) = Some ?rd" "sv_https (h_service us_host) = ['':443'']"
    "sv_hints (h_service us_host) = Some new_region_hints" "h_ul us_host = (\<lambda>x. x)"
    by (simp_all add: us_host_def demo_host_def demo_service_def)
  let ?p0 = "start_process (h_service us_host)"
  let ?p1 = "bind_dns None ?p0"
  let ?p2 = "listen_next '':443'' [] None ?p1"
  obtain s m where r: "receive_packet ?q (pr_mem ?p2) = (s, m)" by fastforce
  have "length ?q \<le> 512" by code_simp
  with receive_packet_fresh [OF r] have q: "slice_bytes m s = ?q" by simp
  let ?p3 = "receive ?src ?q ?p2"
  let ?p4 = "answer_query us_host ?rd ?src s None ?p3"
  let ?p5 = "note_region 7 ?ip ''us'' ?p4"
  let ?p6 = "?p5\<lparr>pr_conns := pr_conns ?p5 + {#us_client#}\<rparr>"
  note init = start_process_def bind_dns_def listen_next_def sv
  have st: "pr_life ?p2 = Running" "pr_dns ?p2" "pr_hints ?p2 = Some new_region_hints" "pr_listening ?p2 = {#'':443''#}"
    by (simp_all add: init)
  have 3: "pr_life ?p3 = Running" "pr_hints ?p3 = Some new_region_hints" "pr_listening ?p3 = {#'':443''#}"
    "(?src, s) \<in># pr_queries ?p3" "slice_bytes (pr_mem ?p3) s = ?q"
    using st q by (simp_all add: receive_def r del: One_nat_def)
  have 4: "pr_life ?p4 = Running" "(?ip, ''us'') \<in># pr_notes ?p4" "pr_listening ?p4 = {#'':443''#}"
    using 3 demo_noted by (simp_all add: answer_query_eq sv ip del: One_nat_def)
  have 5: "pr_life ?p5 = Running" "pr_listening ?p5 = {#'':443''#}"
    using 4 by (simp_all add: note_region_def)
  have s1: "proc_step us_host ?p0 (BindDns None) ?p1" by (rule do_bind) (simp_all add: init)
  have s2: "proc_step us_host ?p1 (Listen None) ?p2" by (rule do_listen) (simp_all add: init)
  have s3: "proc_step us_host ?p2 (Packet ?src ?q) ?p3" by (rule do_packet [OF st(1,2)])
  have s4: "proc_step us_host ?p3 (Answer ?src s None) ?p4" by (rule do_answer [OF 3(1) sv(1) 3(4)])
  have s5: "proc_step us_host ?p4 (Note 7 ?ip ''us'') ?p5" by (rule do_note [OF 4(1,2)])
  have s6: "proc_step us_host ?p5 (Accepted '':443'' us_client) ?p6"
    by (rule do_accepted) (use 5 in \<open>simp_all add: us_client_def demo_entropy_def\<close>)
  have "proc_step us_host ?p6 (Begin us_client) (begin_conn us_client ?p6)"
    by (rule do_begin) (use 5 in simp_all)
  with run_Cons [OF s1 run_Cons [OF s2 run_Cons [OF s3 run_Cons [OF s4 run_Cons [OF s5 run_one [OF s6]]]]]]
  show ?thesis by (intro exI [of _ s] exI [of _ ?p6]) simp
qed

theorem lookup_selects_certificate_witness:
  "\<exists>s p h. proc_run us_host (start_process (h_service us_host))
      ([BindDns None, Listen None, Packet ''192.0.2.7:1030'' (build_query demo_name 1), Answer ''192.0.2.7:1030'' s None] @
       [Note 7 (client_ip (in_remote us_client)) ''us''] @ [Accepted '':443'' us_client]) p \<and>
    pr_serving (begin_conn us_client p) = pr_serving p + {#(us_client, Some h)#} \<and>
    fst (present_cert (sv_server (h_service us_host)) (Some h) (h_ago us_host)
      (new_conn (in_remote us_client) (in_input us_client) (in_end us_client) (in_writes us_client))) = Ok (demo_cert, demo_rsa)"
proof -
  from us_run obtain s p where r: "proc_run us_host (start_process (h_service us_host))
      ([BindDns None, Listen None, Packet ''192.0.2.7:1030'' (build_query demo_name 1), Answer ''192.0.2.7:1030'' s None] @
       [Note 7 (client_ip (in_remote us_client)) ''us''] @ [Accepted '':443'' us_client]) p"
    and b: "proc_step us_host p (Begin us_client) (begin_conn us_client p)" by blast
  have "\<forall>t r. Note t (client_ip (in_remote us_client)) r \<notin> set [Accepted '':443'' us_client]" by simp
  moreover have "sv_hints (h_service us_host) = Some new_region_hints"
    by (simp add: us_host_def demo_host_def demo_service_def)
  moreover have "srv_certs (sv_server (h_service us_host)) ''us'' = Some demo_cert" "cert_key demo_cert = RSAKey demo_rsa"
    by (simp_all add: us_host_def demo_host_def demo_service_def demo_cert_def)
  ultimately obtain h where "pr_serving (begin_conn us_client p) = pr_serving p + {#(us_client, Some h)#}"
    "fst (present_cert (sv_server (h_service us_host)) (Some h) (h_ago us_host)
      (new_conn (in_remote us_client) (in_input us_client) (in_end us_client) (in_writes us_client))) = Ok (demo_cert, demo_rsa)"
    using lookup_selects_certificate [OF r _ _ b refl] by auto
  with r show ?thesis by blast
qed

end
